(* ===== verification/Prelude.thy ===== *)
theory Prelude
  imports Main "HOL-Library.Word"
begin

text \<open>
  Shared material of the coldtrace development: the machine integers, the faults a C statement can
  run into, the sequencing of fallible steps, little-endian byte encodings, and reads and writes of
  byte ranges inside a block of memory.

  A block of memory is the list of its bytes.  A pointer into a block is the offset of the byte it
  points to.  Every access of the C code that can leave its block is written with \<open>load\<close> or
  \<open>store\<close>, which answer with a fault when the range is not inside the block.
\<close>

unbundle bit_operations_syntax

type_synonym u8 = "8 word"
type_synonym u16 = "16 word"
type_synonym u32 = "32 word"
type_synonym u64 = "64 word"
type_synonym bytes = "8 word list"

named_theorems entry_consts \<open>the values of the constants of entries.h\<close>
named_theorems slice_simps \<open>reading ranges back after writing ranges\<close>
named_theorems handler_defs \<open>the subscriber handlers and the helpers they share\<close>

section \<open>Faults and sequencing\<close>

text \<open>
  What a C statement can do instead of continuing: leave its block of memory, divide by zero, call
  a formatted print with a pattern that does not fit its arguments, or stay in a loop.
\<close>

datatype fault = Out_Of_Bounds | Div_By_Zero | Bad_Format | No_Progress

type_synonym 'a res = "fault + 'a"

definition bindR :: "'a res \<Rightarrow> ('a \<Rightarrow> 'b res) \<Rightarrow> 'b res" where
  "bindR m f = (case m of Inl e \<Rightarrow> Inl e | Inr x \<Rightarrow> f x)"

lemma bindR_simps [simp]:
  "bindR (Inl e) f = Inl e"
  "bindR (Inr x) f = f x"
  by (simp_all add: bindR_def)

lemma bindR_eq_Inr [simp]: "bindR m f = Inr y \<longleftrightarrow> (\<exists>x. m = Inr x \<and> f x = Inr y)"
  by (cases m) auto

lemma bindR_eq_Inl: "bindR m f = Inl e \<longleftrightarrow> m = Inl e \<or> (\<exists>x. m = Inr x \<and> f x = Inl e)"
  by (cases m) auto

section \<open>Little-endian encodings\<close>

primrec le_bytes :: "nat \<Rightarrow> 'a::len word \<Rightarrow> bytes" where
  "le_bytes 0 x = []"
| "le_bytes (Suc n) x = ucast x # le_bytes n (drop_bit 8 x)"

primrec le_word :: "bytes \<Rightarrow> 'a::len word" where
  "le_word [] = 0"
| "le_word (b # bs) = ucast b OR push_bit 8 (le_word bs)"

lemma length_le_bytes [simp]: "length (le_bytes n x) = n"
  by (induction n arbitrary: x) auto

lemma bit_ucast_u8: "bit (ucast x :: u8) i \<longleftrightarrow> i < 8 \<and> bit x i"
  for x :: "'a::len word"
  by (simp add: bit_simps)

lemma le_word_le_bytes: "le_word (le_bytes n x) = take_bit (8 * n) x"
  for x :: "'a::len word"
proof (induction n arbitrary: x)
  case 0
  then show ?case by simp
next
  case (Suc n)
  show ?case
    by (rule bit_word_eqI) (auto simp: Suc bit_simps)
qed

abbreviation u16_bytes :: "u16 \<Rightarrow> bytes" where "u16_bytes \<equiv> le_bytes 2"
abbreviation u32_bytes :: "u32 \<Rightarrow> bytes" where "u32_bytes \<equiv> le_bytes 4"
abbreviation u64_bytes :: "u64 \<Rightarrow> bytes" where "u64_bytes \<equiv> le_bytes 8"


section \<open>Byte ranges of a block\<close>

definition slice :: "nat \<Rightarrow> nat \<Rightarrow> 'a list \<Rightarrow> 'a list" where
  "slice off n b = take n (drop off b)"

definition splice :: "nat \<Rightarrow> 'a list \<Rightarrow> 'a list \<Rightarrow> 'a list" where
  "splice off xs b = take off b @ xs @ drop (off + length xs) b"

definition load :: "nat \<Rightarrow> nat \<Rightarrow> 'a list \<Rightarrow> 'a list res" where
  "load off n b = (if off + n \<le> length b then Inr (slice off n b) else Inl Out_Of_Bounds)"

definition store :: "nat \<Rightarrow> 'a list \<Rightarrow> 'a list \<Rightarrow> 'a list res" where
  "store off xs b = (if off + length xs \<le> length b then Inr (splice off xs b) else Inl Out_Of_Bounds)"

definition load_u64 :: "nat \<Rightarrow> bytes \<Rightarrow> u64 res" where
  "load_u64 off b = bindR (load off 8 b) (\<lambda>bs. Inr (le_word bs))"

definition load_u32 :: "nat \<Rightarrow> bytes \<Rightarrow> u32 res" where
  "load_u32 off b = bindR (load off 4 b) (\<lambda>bs. Inr (le_word bs))"

lemma length_slice [simp]: "off + n \<le> length b \<Longrightarrow> length (slice off n b) = n"
  by (simp add: slice_def)

lemma slice_0 [simp]: "slice off 0 b = []"
  by (simp add: slice_def)

lemma slice_all [simp]: "slice 0 (length b) b = b"
  by (simp add: slice_def)

lemma slice_take: "slice 0 n b = take n b"
  by (simp add: slice_def)

lemma slice_add: "slice off (n + m) b = slice off n b @ slice (off + n) m b"
  by (simp add: slice_def take_add add.commute [of off])

lemma slice_slice: "i + m \<le> n \<Longrightarrow> slice i m (slice off n b) = slice (off + i) m b"
  by (simp add: slice_def drop_take add.commute)

lemma slice_append_left: "off + n \<le> length xs \<Longrightarrow> slice off n (xs @ ys) = slice off n xs"
  by (simp add: slice_def)

lemma slice_append_right: "length xs \<le> off \<Longrightarrow> slice off n (xs @ ys) = slice (off - length xs) n ys"
  by (simp add: slice_def)

lemma slice_append_exact [simp]: "slice (length xs) (length ys) (xs @ ys @ zs) = ys"
  by (simp add: slice_def)

lemma nth_slice: "i < n \<Longrightarrow> off + n \<le> length b \<Longrightarrow> slice off n b ! i = b ! (off + i)"
  by (simp add: slice_def)

lemma length_splice [simp]: "off + length xs \<le> length b \<Longrightarrow> length (splice off xs b) = length b"
  by (simp add: splice_def)

lemma splice_Nil [simp]: "splice off [] b = b"
  by (simp add: splice_def)

lemma slice_splice_same [slice_simps]:
  "off + length xs \<le> length b \<Longrightarrow> n = length xs \<Longrightarrow> slice off n (splice off xs b) = xs"
  by (simp add: slice_def splice_def)

lemma slice_splice_inside [slice_simps]:
  assumes "off + length xs \<le> length b" and "off \<le> a" and "a + n \<le> off + length xs"
  shows "slice a n (splice off xs b) = slice (a - off) n xs"
proof -
  have "length (take off b) = off" using assms by simp
  then show ?thesis
    using assms by (auto simp: splice_def slice_append_right slice_append_left)
qed

lemma slice_splice_before [slice_simps]:
  "a + n \<le> off \<Longrightarrow> off + length xs \<le> length b \<Longrightarrow> slice a n (splice off xs b) = slice a n b"
  by (simp add: splice_def slice_append_left slice_def drop_take)

lemma slice_splice_after [slice_simps]:
  "off + length xs \<le> a \<Longrightarrow> off + length xs \<le> length b \<Longrightarrow> slice a n (splice off xs b) = slice a n b"
  by (simp add: splice_def slice_def)

lemma take_splice [slice_simps]:
  "n \<le> off \<Longrightarrow> off + length xs \<le> length b \<Longrightarrow> take n (splice off xs b) = take n b"
  by (simp add: splice_def)

lemma splice_adjacent [slice_simps]:
  "off + length xs + length ys \<le> length b \<Longrightarrow>
   splice (off + length xs) ys (splice off xs b) = splice off (xs @ ys) b"
  by (simp add: splice_def ac_simps)

lemma load_ok [simp]: "off + n \<le> length b \<Longrightarrow> load off n b = Inr (slice off n b)"
  by (simp add: load_def)

lemma store_ok [simp]: "off + length xs \<le> length b \<Longrightarrow> store off xs b = Inr (splice off xs b)"
  by (simp add: store_def)

lemma store_Inr_iff: "store off xs b = Inr b' \<longleftrightarrow> off + length xs \<le> length b \<and> b' = splice off xs b"
  by (auto simp: store_def)

lemma load_u64_ok: "off + 8 \<le> length b \<Longrightarrow> load_u64 off b = Inr (le_word (slice off 8 b))"
  by (simp add: load_u64_def)

lemma load_u32_ok: "off + 4 \<le> length b \<Longrightarrow> load_u32 off b = Inr (le_word (slice off 4 b))"
  by (simp add: load_u32_def)

section \<open>Fixed-width encodings\<close>

text \<open>
  The contract of a field encoding: every value takes the same number of bytes, and decoding gives
  the value back.  What a client needs of it (reading a field of a structure back, reading an array
  of fields back) is proved once, for any encoding that keeps the contract.
\<close>

primrec unpack :: "nat \<Rightarrow> (bytes \<Rightarrow> 'x) \<Rightarrow> nat \<Rightarrow> bytes \<Rightarrow> 'x list" where
  "unpack w dec 0 bs = []"
| "unpack w dec (Suc n) bs = dec (take w bs) # unpack w dec n (drop w bs)"

definition pack :: "('x \<Rightarrow> bytes) \<Rightarrow> 'x list \<Rightarrow> bytes" where
  "pack enc xs = concat (map enc xs)"

lemma pack_simps [simp]:
  "pack enc [] = []"
  "pack enc (x # xs) = enc x @ pack enc xs"
  "pack enc (xs @ ys) = pack enc xs @ pack enc ys"
  by (simp_all add: pack_def)

locale byte_codec =
  fixes w :: nat
    and enc :: "'x \<Rightarrow> bytes"
    and dec :: "bytes \<Rightarrow> 'x"
  assumes enc_length: "length (enc x) = w"
    and dec_enc: "dec (enc x) = x"
begin

lemma inj_enc: "enc x = enc y \<longleftrightarrow> x = y"
  by (metis dec_enc)

lemma pack_length: "length (pack enc xs) = w * length xs"
  by (induction xs) (simp_all add: enc_length)

lemma unpack_pack: "unpack w dec (length xs) (pack enc xs @ rest) = xs"
  by (induction xs) (simp_all add: enc_length dec_enc)

lemma dec_field: "off = length pre \<Longrightarrow> dec (slice off w (pre @ enc x @ post)) = x"
  by (metis dec_enc enc_length slice_append_exact)

lemma dec_spliced: "off + w \<le> length b \<Longrightarrow> dec (slice off w (splice off (enc x) b)) = x"
  by (simp add: slice_splice_same enc_length dec_enc)

end

interpretation c16: byte_codec 2 u16_bytes le_word
  by unfold_locales (simp_all add: le_word_le_bytes take_bit_word_eq_self)

interpretation c32: byte_codec 4 u32_bytes le_word
  by unfold_locales (simp_all add: le_word_le_bytes take_bit_word_eq_self)

interpretation c64: byte_codec 8 u64_bytes le_word
  by unfold_locales (simp_all add: le_word_le_bytes take_bit_word_eq_self)

section \<open>Transition systems\<close>

text \<open>
  The states a system reaches from its initial states, and the contract of an invariant: it holds at
  the start and every step keeps it.
\<close>

inductive reach :: "('s \<Rightarrow> bool) \<Rightarrow> ('s \<Rightarrow> 's \<Rightarrow> bool) \<Rightarrow> 's \<Rightarrow> bool" for init step where
  reach_init: "init s \<Longrightarrow> reach init step s"
| reach_step: "reach init step s \<Longrightarrow> step s t \<Longrightarrow> reach init step t"

locale inv_system =
  fixes init :: "'s \<Rightarrow> bool"
    and step :: "'s \<Rightarrow> 's \<Rightarrow> bool"
    and inv :: "'s \<Rightarrow> bool"
  assumes init_inv: "init s \<Longrightarrow> inv s"
    and step_inv: "inv s \<Longrightarrow> step s t \<Longrightarrow> inv t"
begin

lemma reach_inv: "reach init step s \<Longrightarrow> inv s"
  by (induction rule: reach.induct) (auto intro: init_inv step_inv)

lemma steps_inv: "inv s \<Longrightarrow> step\<^sup>*\<^sup>* s t \<Longrightarrow> inv t"
  by (rotate_tac, induction rule: rtranclp_induct) (auto intro: step_inv)

end

section \<open>Machine arithmetic without wrap-around\<close>

lemma unat_bound: "unat w < 2 ^ LENGTH('a)" for w :: "'a::len word"
  by (rule unsigned_less)

lemma unat_of_nat_small: "n < 2 ^ LENGTH('a) \<Longrightarrow> unat (of_nat n :: 'a::len word) = n"
  by (simp add: unat_of_nat)

lemma unat_add_small: "unat a + unat b < 2 ^ LENGTH('a) \<Longrightarrow> unat (a + b) = unat a + unat b"
  for a b :: "'a::len word"
  by (simp add: unat_word_ariths)

lemma unat_sub_small: "b \<le> a \<Longrightarrow> unat (a - b) = unat a - unat b"
  for a b :: "'a::len word"
  by (simp add: unat_sub)

end
