(* ===== verification/Entries.thy ===== *)
theory Entries
  imports Prelude
begin

text \<open>
  The trace entries: \<open>include/coldtrace/entries.h\<close> (entry types, header word, structures) and
  \<open>src/entries.c\<close> (names, sizes and the parsing functions), and the version header of
  \<open>include/coldtrace/version.h.in\<close> and \<open>src/version.c\<close>.

  A parsing function of the C code takes a pointer to the first byte of an entry.  In the model it
  takes the bytes from that pointer to the end of the block, and reading past them is a fault.
\<close>

section \<open>Entry types\<close>

definition ZERO_FLAG :: u8 where [entry_consts]: "ZERO_FLAG = 0x80"
definition TYPE_MASK :: u64 where [entry_consts]: "TYPE_MASK = 0xFF"
definition PTR_MASK :: u64 where [entry_consts]: "PTR_MASK = 0xFFFFFFFFFFFF0000"
definition PTR_SHIFT_VALUE :: nat where [entry_consts]: "PTR_SHIFT_VALUE = 16"
definition INVALID_SIZE :: u64 where [entry_consts]: "INVALID_SIZE = -1"
definition INVALID_ALLOC_INDEX :: u64 where [entry_consts]: "INVALID_ALLOC_INDEX = -1"
definition INVALID_ATOMIC_INDEX :: u64 where [entry_consts]: "INVALID_ATOMIC_INDEX = -1"

definition COLDTRACE_FREE :: u8 where [entry_consts]: "COLDTRACE_FREE = 0"
definition COLDTRACE_ALLOC :: u8 where [entry_consts]: "COLDTRACE_ALLOC = 1"
definition COLDTRACE_READ :: u8 where [entry_consts]: "COLDTRACE_READ = 2"
definition COLDTRACE_WRITE :: u8 where [entry_consts]: "COLDTRACE_WRITE = 3"
definition COLDTRACE_ATOMIC_READ :: u8 where [entry_consts]: "COLDTRACE_ATOMIC_READ = 4"
definition COLDTRACE_ATOMIC_WRITE :: u8 where [entry_consts]: "COLDTRACE_ATOMIC_WRITE = 5"
definition COLDTRACE_LOCK_ACQUIRE :: u8 where [entry_consts]: "COLDTRACE_LOCK_ACQUIRE = 6"
definition COLDTRACE_LOCK_RELEASE :: u8 where [entry_consts]: "COLDTRACE_LOCK_RELEASE = 7"
definition COLDTRACE_THREAD_CREATE :: u8 where [entry_consts]: "COLDTRACE_THREAD_CREATE = 8"
definition COLDTRACE_THREAD_START :: u8 where [entry_consts]: "COLDTRACE_THREAD_START = 9"
definition COLDTRACE_RW_LOCK_CREATE :: u8 where [entry_consts]: "COLDTRACE_RW_LOCK_CREATE = 10"
definition COLDTRACE_RW_LOCK_DESTROY :: u8 where [entry_consts]: "COLDTRACE_RW_LOCK_DESTROY = 11"
definition COLDTRACE_RW_LOCK_ACQ_SHR :: u8 where [entry_consts]: "COLDTRACE_RW_LOCK_ACQ_SHR = 12"
definition COLDTRACE_RW_LOCK_ACQ_EXC :: u8 where [entry_consts]: "COLDTRACE_RW_LOCK_ACQ_EXC = 13"
definition COLDTRACE_RW_LOCK_REL_SHR :: u8 where [entry_consts]: "COLDTRACE_RW_LOCK_REL_SHR = 14"
definition COLDTRACE_RW_LOCK_REL_EXC :: u8 where [entry_consts]: "COLDTRACE_RW_LOCK_REL_EXC = 15"
definition COLDTRACE_RW_LOCK_REL :: u8 where [entry_consts]: "COLDTRACE_RW_LOCK_REL = 16"
definition COLDTRACE_CXA_GUARD_ACQUIRE :: u8 where [entry_consts]: "COLDTRACE_CXA_GUARD_ACQUIRE = 17"
definition COLDTRACE_CXA_GUARD_RELEASE :: u8 where [entry_consts]: "COLDTRACE_CXA_GUARD_RELEASE = 18"
definition COLDTRACE_THREAD_JOIN :: u8 where [entry_consts]: "COLDTRACE_THREAD_JOIN = 19"
definition COLDTRACE_THREAD_EXIT :: u8 where [entry_consts]: "COLDTRACE_THREAD_EXIT = 20"
definition COLDTRACE_FENCE :: u8 where [entry_consts]: "COLDTRACE_FENCE = 21"
definition COLDTRACE_MMAP :: u8 where [entry_consts]: "COLDTRACE_MMAP = 22"
definition COLDTRACE_MUNMAP :: u8 where [entry_consts]: "COLDTRACE_MUNMAP = 23"
definition COLDTRACE_TEST_MARKER :: u8 where [entry_consts]: "COLDTRACE_TEST_MARKER = 24"
definition COLDTRACE_END :: u8 where [entry_consts]: "COLDTRACE_END = 25"

text \<open>The entry type without the zero flag, as the expression \<open>type & ~ZERO_FLAG\<close>.\<close>

definition base_type :: "u8 \<Rightarrow> u8" where
  "base_type t = t AND NOT ZERO_FLAG"

definition is_type_valid :: "u8 \<Rightarrow> bool" where
  "is_type_valid t \<longleftrightarrow> base_type t < COLDTRACE_END"

definition type_map :: "string list" where
  "type_map =
     [''COLDTRACE_FREE'', ''COLDTRACE_ALLOC'', ''COLDTRACE_READ'', ''COLDTRACE_WRITE'',
      ''COLDTRACE_ATOMIC_READ'', ''COLDTRACE_ATOMIC_WRITE'',
      ''COLDTRACE_LOCK_ACQUIRE'', ''COLDTRACE_LOCK_RELEASE'',
      ''COLDTRACE_THREAD_CREATE'', ''COLDTRACE_THREAD_START'',
      ''COLDTRACE_RW_LOCK_CREATE'', ''COLDTRACE_RW_LOCK_DESTROY'',
      ''COLDTRACE_RW_LOCK_ACQ_SHR'', ''COLDTRACE_RW_LOCK_ACQ_EXC'',
      ''COLDTRACE_RW_LOCK_REL_SHR'', ''COLDTRACE_RW_LOCK_REL_EXC'', ''COLDTRACE_RW_LOCK_REL'',
      ''COLDTRACE_CXA_GUARD_ACQUIRE'', ''COLDTRACE_CXA_GUARD_RELEASE'',
      ''COLDTRACE_THREAD_JOIN'', ''COLDTRACE_THREAD_EXIT'', ''COLDTRACE_FENCE'',
      ''COLDTRACE_MMAP'', ''COLDTRACE_MUNMAP'', ''COLDTRACE_TEST_MARKER'']"

definition coldtrace_entry_type_str :: "u8 \<Rightarrow> string" where
  "coldtrace_entry_type_str t =
     (if \<not> is_type_valid t then ''INVALID_EVENT'' else type_map ! unat (base_type t))"

section \<open>The header word\<close>

definition coldtrace_make_entry_header :: "u8 \<Rightarrow> u64 \<Rightarrow> u64" where
  "coldtrace_make_entry_header t ptr =
     (let type_masked_shifted = ucast t AND TYPE_MASK;
          ptr_masked_shifted = push_bit PTR_SHIFT_VALUE ptr AND PTR_MASK
      in ptr_masked_shifted OR type_masked_shifted)"

definition coldtrace_entry_init :: "u8 \<Rightarrow> u64 \<Rightarrow> u64" where
  "coldtrace_entry_init t ptr = coldtrace_make_entry_header t ptr"

section \<open>The structures and their layout\<close>

text \<open>
  The structures of \<open>entries.h\<close>.  Every structure starts with the header word; the fields follow
  in declaration order, without padding.  The flexible array \<open>diff\<close> of a stack diff follows the
  structure it is the last member of.
\<close>

record coldtrace_stack_diff =
  popped :: u32
  depth :: u32
  diff :: "u64 list"

datatype entry_body =
    Marker_Entry
  | Access_Entry (size: u64) (caller: u64) (stack_of: coldtrace_stack_diff)
  | Alloc_Entry (size: u64) (alloc_index: u64) (caller: u64) (stack_of: coldtrace_stack_diff)
  | Free_Entry (alloc_index: u64) (caller: u64) (stack_of: coldtrace_stack_diff)
  | Atomic_Access_Entry (size: u64) (atomic_index: u64)
  | Atomic_Entry (atomic_index: u64)
  | Thread_Init_Entry (atomic_index: u64) (thread_stack_ptr: u64) (thread_stack_size: u64)

record coldtrace_entry =
  typed_ptr :: u64
  body :: entry_body

definition sizeof_stack_diff :: nat where "sizeof_stack_diff = 4 + 4"
definition sizeof_marker_entry :: nat where "sizeof_marker_entry = 8"
definition sizeof_access_entry :: nat where "sizeof_access_entry = 8 + 8 + 8 + sizeof_stack_diff"
definition sizeof_alloc_entry :: nat where "sizeof_alloc_entry = 8 + 8 + 8 + 8 + sizeof_stack_diff"
definition sizeof_free_entry :: nat where "sizeof_free_entry = 8 + 8 + 8 + sizeof_stack_diff"
definition sizeof_atomic_access_entry :: nat where "sizeof_atomic_access_entry = 8 + 8 + 8"
definition sizeof_atomic_entry :: nat where "sizeof_atomic_entry = 8 + 8"
definition sizeof_thread_init_entry :: nat where "sizeof_thread_init_entry = 8 + 8 + 8 + 8"

lemmas sizeof_defs = sizeof_stack_diff_def sizeof_marker_entry_def sizeof_access_entry_def
  sizeof_alloc_entry_def sizeof_free_entry_def sizeof_atomic_access_entry_def
  sizeof_atomic_entry_def sizeof_thread_init_entry_def

definition stack_diff_bytes :: "coldtrace_stack_diff \<Rightarrow> bytes" where
  "stack_diff_bytes s = u32_bytes (popped s) @ u32_bytes (depth s) @ pack u64_bytes (diff s)"

fun body_bytes :: "entry_body \<Rightarrow> bytes" where
  "body_bytes Marker_Entry = []"
| "body_bytes (Access_Entry sz cl s) = u64_bytes sz @ u64_bytes cl @ stack_diff_bytes s"
| "body_bytes (Alloc_Entry sz ai cl s) =
     u64_bytes sz @ u64_bytes ai @ u64_bytes cl @ stack_diff_bytes s"
| "body_bytes (Free_Entry ai cl s) = u64_bytes ai @ u64_bytes cl @ stack_diff_bytes s"
| "body_bytes (Atomic_Access_Entry sz ai) = u64_bytes sz @ u64_bytes ai"
| "body_bytes (Atomic_Entry ai) = u64_bytes ai"
| "body_bytes (Thread_Init_Entry ai sp ss) = u64_bytes ai @ u64_bytes sp @ u64_bytes ss"

definition entry_bytes :: "coldtrace_entry \<Rightarrow> bytes" where
  "entry_bytes e = u64_bytes (typed_ptr e) @ body_bytes (body e)"

section \<open>Parsing\<close>

definition coldtrace_entry_parse_type :: "bytes \<Rightarrow> u8 res" where
  "coldtrace_entry_parse_type buf =
     bindR (load_u64 0 buf) (\<lambda>ptr.
       let t = ucast (ptr AND TYPE_MASK AND NOT (ucast ZERO_FLAG)) :: u8
       in if \<not> is_type_valid t then Inr COLDTRACE_END else Inr t)"

definition coldtrace_entry_parse_ptr :: "bytes \<Rightarrow> u64 res" where
  "coldtrace_entry_parse_ptr buf =
     bindR (load_u64 0 buf) (\<lambda>tp. Inr (drop_bit PTR_SHIFT_VALUE (tp AND PTR_MASK)))"

definition coldtrace_entry_parse_alloc_index :: "bytes \<Rightarrow> u64 res" where
  "coldtrace_entry_parse_alloc_index buf =
     bindR (coldtrace_entry_parse_type buf) (\<lambda>t.
       if t = COLDTRACE_ALLOC \<or> t = COLDTRACE_MMAP \<or> t = COLDTRACE_MUNMAP then load_u64 (8 * 2) buf
       else if t = COLDTRACE_FREE then load_u64 (8 * 1) buf
       else Inr INVALID_ALLOC_INDEX)"

definition coldtrace_entry_parse_atomic_index :: "bytes \<Rightarrow> u64 res" where
  "coldtrace_entry_parse_atomic_index buf =
     bindR (coldtrace_entry_parse_type buf) (\<lambda>t.
       if COLDTRACE_MMAP \<le> t \<or> t < COLDTRACE_ATOMIC_READ then Inr INVALID_ATOMIC_INDEX
       else if t = COLDTRACE_ATOMIC_READ \<or> t = COLDTRACE_ATOMIC_WRITE then load_u64 (8 * 2) buf
       else load_u64 (8 * 1) buf)"

definition coldtrace_entry_parse_size :: "bytes \<Rightarrow> u64 res" where
  "coldtrace_entry_parse_size buf =
     bindR (coldtrace_entry_parse_type buf) (\<lambda>t.
       if t = COLDTRACE_ALLOC \<or> t = COLDTRACE_READ \<or> t = COLDTRACE_WRITE \<or> t = COLDTRACE_MMAP
          \<or> t = COLDTRACE_ATOMIC_READ \<or> t = COLDTRACE_ATOMIC_WRITE \<or> t = COLDTRACE_MUNMAP
       then load_u64 (8 * 1) buf
       else Inr INVALID_SIZE)"

text \<open>
  The size of an entry that ends in a stack diff: the structure, then
  \<open>(depth - popped) * sizeof(uint64_t)\<close>, where the difference is computed on 32 bits and the
  product on 64 bits.
\<close>

definition size_with_stack :: "nat \<Rightarrow> bytes \<Rightarrow> u64 res" where
  "size_with_stack structsz buf =
     bindR (load_u32 (structsz - sizeof_stack_diff) buf) (\<lambda>p.
     bindR (load_u32 (structsz - sizeof_stack_diff + 4) buf) (\<lambda>d.
       Inr (of_nat structsz + ucast (d - p) * 8)))"

definition coldtrace_entry_get_size :: "bytes \<Rightarrow> u64 res" where
  "coldtrace_entry_get_size buf =
     bindR (coldtrace_entry_parse_type buf) (\<lambda>t.
       if t = COLDTRACE_FREE then size_with_stack sizeof_free_entry buf
       else if t = COLDTRACE_ALLOC \<or> t = COLDTRACE_MMAP \<or> t = COLDTRACE_MUNMAP
       then size_with_stack sizeof_alloc_entry buf
       else if t = COLDTRACE_READ \<or> t = COLDTRACE_WRITE
       then size_with_stack sizeof_access_entry buf
       else if t = COLDTRACE_THREAD_START then Inr (of_nat sizeof_thread_init_entry)
       else if t = COLDTRACE_ATOMIC_READ \<or> t = COLDTRACE_ATOMIC_WRITE
       then Inr (of_nat sizeof_atomic_access_entry)
       else if t = COLDTRACE_LOCK_ACQUIRE \<or> t = COLDTRACE_LOCK_RELEASE
          \<or> t = COLDTRACE_RW_LOCK_CREATE \<or> t = COLDTRACE_RW_LOCK_DESTROY
          \<or> t = COLDTRACE_RW_LOCK_ACQ_SHR \<or> t = COLDTRACE_RW_LOCK_ACQ_EXC
          \<or> t = COLDTRACE_RW_LOCK_REL_SHR \<or> t = COLDTRACE_RW_LOCK_REL_EXC
          \<or> t = COLDTRACE_RW_LOCK_REL \<or> t = COLDTRACE_CXA_GUARD_ACQUIRE
          \<or> t = COLDTRACE_CXA_GUARD_RELEASE \<or> t = COLDTRACE_THREAD_JOIN
          \<or> t = COLDTRACE_THREAD_EXIT \<or> t = COLDTRACE_FENCE \<or> t = COLDTRACE_THREAD_CREATE
       then Inr (of_nat sizeof_atomic_entry)
       else if t = COLDTRACE_TEST_MARKER then Inr (of_nat sizeof_marker_entry)
       else Inr 0)"

definition space_map :: "nat list" where
  "space_map =
     [sizeof_free_entry, sizeof_alloc_entry, sizeof_access_entry, sizeof_access_entry,
      sizeof_atomic_access_entry, sizeof_atomic_access_entry,
      sizeof_atomic_entry, sizeof_atomic_entry,
      sizeof_atomic_entry, sizeof_thread_init_entry,
      sizeof_atomic_entry, sizeof_atomic_entry, sizeof_atomic_entry, sizeof_atomic_entry,
      sizeof_atomic_entry, sizeof_atomic_entry, sizeof_atomic_entry,
      sizeof_atomic_entry, sizeof_atomic_entry,
      sizeof_atomic_entry, sizeof_atomic_entry, sizeof_atomic_entry,
      sizeof_alloc_entry, sizeof_alloc_entry, sizeof_marker_entry]"

definition coldtrace_entry_fixed_size :: "u8 \<Rightarrow> u64" where
  "coldtrace_entry_fixed_size t =
     (if \<not> is_type_valid t then 0 else of_nat (space_map ! unat (base_type t)))"

section \<open>The version header\<close>

text \<open>
  The header a build stamps on its fragments.  Its values come from the build (\<open>GIT_COMMIT_HASH\<close>,
  \<open>VERSION_MAJOR\<close> and so on are substituted in \<open>version.h.in\<close>), so a build's header is a parameter.
\<close>

record version_header =
  git_hash :: u32
  padding :: u8
  major :: u8
  minor :: u8
  patch :: u8

definition sizeof_version_header :: nat where "sizeof_version_header = 4 + 1 + 1 + 1 + 1"

definition VERSION_PADDING :: u8 where "VERSION_PADDING = 5"

definition current_version_header :: "u32 \<Rightarrow> u8 \<Rightarrow> u8 \<Rightarrow> u8 \<Rightarrow> version_header" where
  "current_version_header hash maj mnr pat =
     \<lparr>git_hash = hash, padding = VERSION_PADDING, major = maj, minor = mnr, patch = pat\<rparr>"

definition version_header_equal :: "version_header \<Rightarrow> version_header \<Rightarrow> bool" where
  "version_header_equal cur file_header \<longleftrightarrow>
     git_hash file_header = git_hash cur \<and> padding file_header = padding cur \<and>
     major file_header = major cur \<and> minor file_header = minor cur \<and>
     patch file_header = patch cur"

definition version_header_bytes :: "version_header \<Rightarrow> bytes" where
  "version_header_bytes h = u32_bytes (git_hash h) @ [padding h, major h, minor h, patch h]"

definition version_header_parse :: "bytes \<Rightarrow> version_header" where
  "version_header_parse bs =
     \<lparr>git_hash = le_word (take 4 bs), padding = bs ! 4, major = bs ! 5, minor = bs ! 6, patch = bs ! 7\<rparr>"

section \<open>Well-formed entries\<close>

text \<open>
  Which structure a type stands for, and what a stack diff must satisfy: an entry whose type and
  structure agree is what the tracer means to write.
\<close>

fun body_for :: "u8 \<Rightarrow> entry_body \<Rightarrow> bool" where
  "body_for t Marker_Entry \<longleftrightarrow> t = COLDTRACE_TEST_MARKER"
| "body_for t (Access_Entry sz cl s) \<longleftrightarrow> t = COLDTRACE_READ \<or> t = COLDTRACE_WRITE"
| "body_for t (Alloc_Entry sz ai cl s) \<longleftrightarrow>
     t = COLDTRACE_ALLOC \<or> t = COLDTRACE_MMAP \<or> t = COLDTRACE_MUNMAP"
| "body_for t (Free_Entry ai cl s) \<longleftrightarrow> t = COLDTRACE_FREE"
| "body_for t (Atomic_Access_Entry sz ai) \<longleftrightarrow> t = COLDTRACE_ATOMIC_READ \<or> t = COLDTRACE_ATOMIC_WRITE"
| "body_for t (Atomic_Entry ai) \<longleftrightarrow>
     COLDTRACE_LOCK_ACQUIRE \<le> t \<and> t \<le> COLDTRACE_FENCE \<and> t \<noteq> COLDTRACE_THREAD_START"
| "body_for t (Thread_Init_Entry ai sp ss) \<longleftrightarrow> t = COLDTRACE_THREAD_START"

fun stack_diff_of :: "entry_body \<Rightarrow> coldtrace_stack_diff option" where
  "stack_diff_of (Access_Entry sz cl s) = Some s"
| "stack_diff_of (Alloc_Entry sz ai cl s) = Some s"
| "stack_diff_of (Free_Entry ai cl s) = Some s"
| "stack_diff_of b = None"

definition stack_diff_wf :: "coldtrace_stack_diff \<Rightarrow> bool" where
  "stack_diff_wf s \<longleftrightarrow> popped s \<le> depth s \<and> length (diff s) = unat (depth s) - unat (popped s)"

definition entry_wf :: "coldtrace_entry \<Rightarrow> bool" where
  "entry_wf e \<longleftrightarrow> body_for (base_type (ucast (typed_ptr e))) (body e) \<and>
     (case stack_diff_of (body e) of None \<Rightarrow> True | Some s \<Rightarrow> stack_diff_wf s)"

fun body_fixed_size :: "entry_body \<Rightarrow> nat" where
  "body_fixed_size Marker_Entry = sizeof_marker_entry"
| "body_fixed_size (Access_Entry sz cl s) = sizeof_access_entry"
| "body_fixed_size (Alloc_Entry sz ai cl s) = sizeof_alloc_entry"
| "body_fixed_size (Free_Entry ai cl s) = sizeof_free_entry"
| "body_fixed_size (Atomic_Access_Entry sz ai) = sizeof_atomic_access_entry"
| "body_fixed_size (Atomic_Entry ai) = sizeof_atomic_entry"
| "body_fixed_size (Thread_Init_Entry ai sp ss) = sizeof_thread_init_entry"

text \<open>The fields the parsing functions promise to find, and the invalid values where there is none.\<close>

fun size_field :: "entry_body \<Rightarrow> u64" where
  "size_field (Access_Entry sz cl s) = sz"
| "size_field (Alloc_Entry sz ai cl s) = sz"
| "size_field (Atomic_Access_Entry sz ai) = sz"
| "size_field b = INVALID_SIZE"

fun alloc_index_field :: "entry_body \<Rightarrow> u64" where
  "alloc_index_field (Alloc_Entry sz ai cl s) = ai"
| "alloc_index_field (Free_Entry ai cl s) = ai"
| "alloc_index_field b = INVALID_ALLOC_INDEX"

fun atomic_index_field :: "entry_body \<Rightarrow> u64" where
  "atomic_index_field (Atomic_Access_Entry sz ai) = ai"
| "atomic_index_field (Atomic_Entry ai) = ai"
| "atomic_index_field (Thread_Init_Entry ai sp ss) = ai"
| "atomic_index_field b = INVALID_ATOMIC_INDEX"

section \<open>Lemmas\<close>

lemma TYPE_MASK_mask: "TYPE_MASK = mask 8"
  by (simp add: TYPE_MASK_def mask_eq_exp_minus_1)

lemma PTR_MASK_mask: "PTR_MASK = NOT (mask 16)"
  by (simp add: PTR_MASK_def mask_eq_exp_minus_1)

lemma header_type: "(ucast (coldtrace_make_entry_header t p) :: u8) = t"
  by (rule bit_word_eqI)
     (auto simp: coldtrace_make_entry_header_def TYPE_MASK_mask PTR_MASK_mask bit_simps Let_def)

lemma header_ptr: "drop_bit PTR_SHIFT_VALUE (coldtrace_make_entry_header t p AND PTR_MASK) = take_bit 48 p"
  by (rule bit_word_eqI) 
   (auto simp: coldtrace_make_entry_header_def TYPE_MASK_mask PTR_MASK_mask PTR_SHIFT_VALUE_def bit_simps Let_def)

lemma masked_type: "ucast (w AND TYPE_MASK AND NOT (ucast ZERO_FLAG)) = base_type (ucast w)" for w :: u64
  by (rule bit_word_eqI) (auto simp: base_type_def TYPE_MASK_mask bit_simps)

lemma base_type_idem: "base_type (base_type t) = base_type t"
  by (simp add: base_type_def and.assoc)

lemma parse_type_header:
  "coldtrace_entry_parse_type (u64_bytes w @ rest) =
     Inr (if is_type_valid (ucast w) then base_type (ucast w) else COLDTRACE_END)"
  by (simp add: coldtrace_entry_parse_type_def load_u64_ok slice_def c64.dec_enc masked_type 
     is_type_valid_def base_type_idem Let_def)

lemma u8_range_atomic:
  assumes "(6::u8) \<le> t" "t \<le> 21" "t \<noteq> 9"
  shows "t \<in> {6,7,8,10,11,12,13,14,15,16,17,18,19,20,21}"
proof -
  have "unat t \<in> {6..21}" using assms by (simp add: word_le_nat_alt)
  then have "unat t \<in> {6,7,8,9,10,11,12,13,14,15,16,17,18,19,20,21}"
    by (auto simp: numeral_eq_Suc le_Suc_eq)
  then have "of_nat (unat t) \<in> (of_nat ` {6,7,8,9,10,11,12,13,14,15,16,17,18,19,20,21} :: u8 set)"
    by (rule imageI)
  then show ?thesis using assms(3) by simp
qed

lemma base_type_cases_atomic:
  "body_for t (Atomic_Entry ai) \<Longrightarrow> t \<in> {6,7,8,10,11,12,13,14,15,16,17,18,19,20,21}"
  by (intro u8_range_atomic) (simp_all add: entry_consts)

lemma body_for_valid: "body_for t b \<Longrightarrow> t < COLDTRACE_END"
  by (cases b) (auto simp: entry_consts dest: u8_range_atomic)

lemma entry_type_valid: "entry_wf e \<Longrightarrow> is_type_valid (ucast (typed_ptr e))"
  by (auto simp: entry_wf_def is_type_valid_def intro: body_for_valid)

lemma parse_type_entry:
  "entry_wf e \<Longrightarrow>
   coldtrace_entry_parse_type (entry_bytes e @ rest) = Inr (base_type (ucast (typed_ptr e)))"
  by (simp add: entry_bytes_def parse_type_header entry_type_valid)

lemma length_stack_diff_bytes: "length (stack_diff_bytes s) = 8 + 8 * length (diff s)"
  by (simp add: stack_diff_bytes_def c64.pack_length)

lemma length_entry_bytes:
  "length (entry_bytes e) = body_fixed_size (body e) +
     (case stack_diff_of (body e) of None \<Rightarrow> 0 | Some s \<Rightarrow> 8 * length (diff s))"
  by (cases "body e") (simp_all add: entry_bytes_def length_stack_diff_bytes sizeof_defs)

lemma fixed_size_body:
  assumes "body_for (base_type t) b"
  shows "coldtrace_entry_fixed_size t = of_nat (body_fixed_size b)"
proof (cases b)
  case (Atomic_Entry ai)
  with assms have "base_type t \<in> {6,7,8,10,11,12,13,14,15,16,17,18,19,20,21}"
    using base_type_cases_atomic by simp
  with Atomic_Entry show ?thesis
    by (auto simp: coldtrace_entry_fixed_size_def is_type_valid_def space_map_def entry_consts)
qed (use assms in \<open>auto simp: coldtrace_entry_fixed_size_def is_type_valid_def space_map_def entry_consts\<close>)

lemma stack_diff_count:
  "stack_diff_wf s \<Longrightarrow> unat (depth s - popped s) = length (diff s)"
  by (simp add: stack_diff_wf_def unat_sub)

lemma stack_diff_count_u64: "stack_diff_wf s \<Longrightarrow> (ucast (depth s - popped s) :: u64) = of_nat (length (diff s))"
  by (metis of_nat_unat stack_diff_count)

lemma size_with_stack_entry:
  assumes "stack_diff_wf s"
  shows "size_with_stack 32 (u64_bytes a @ u64_bytes b @ u64_bytes c @ stack_diff_bytes s @ rest) =
      Inr (of_nat (32 + 8 * length (diff s)))"
    and "size_with_stack 40 (u64_bytes a @ u64_bytes b @ u64_bytes c @ u64_bytes d @ stack_diff_bytes s @ rest) =
      Inr (of_nat (40 + 8 * length (diff s)))"
  using assms
  by (simp_all add: size_with_stack_def load_u32_ok slice_def stack_diff_bytes_def sizeof_defs c32.dec_enc
      stack_diff_count_u64)

lemma get_size_entry:
  assumes "entry_wf e"
  shows "coldtrace_entry_get_size (entry_bytes e @ rest) = Inr (of_nat (length (entry_bytes e)))"
proof -
  note pt = parse_type_entry [OF assms, of rest]
  from assms have bf: "body_for (base_type (ucast (typed_ptr e))) (body e)"
    and sw: "\<And>s. stack_diff_of (body e) = Some s \<Longrightarrow> stack_diff_wf s"
    by (auto simp: entry_wf_def)
  note defs = coldtrace_entry_get_size_def entry_consts sizeof_defs length_entry_bytes
  show ?thesis
  proof (cases "body e")
    case (Atomic_Entry ai)
    with bf have "base_type (ucast (typed_ptr e)) \<in> {6,7,8,10,11,12,13,14,15,16,17,18,19,20,21}"
      using base_type_cases_atomic by simp
    with Atomic_Entry pt show ?thesis by (auto simp: defs)
  qed (use bf sw pt in \<open>auto simp: defs, (simp add: entry_bytes_def size_with_stack_entry)+\<close>)
qed

lemma parse_ptr_header: "coldtrace_entry_parse_ptr (u64_bytes w @ rest) = Inr (drop_bit 16 w)"
proof -
  have "drop_bit PTR_SHIFT_VALUE (w AND PTR_MASK) = drop_bit 16 w"
    by (rule bit_word_eqI) (auto simp: PTR_MASK_mask PTR_SHIFT_VALUE_def bit_simps dest: bit_imp_le_length)
  then show ?thesis
    by (simp add: coldtrace_entry_parse_ptr_def load_u64_ok slice_def c64.dec_enc)
qed

lemma load_entry_word:
  "load_u64 8 (u64_bytes a @ u64_bytes b @ rest) = Inr b"
  "load_u64 16 (u64_bytes a @ u64_bytes b @ u64_bytes c @ rest) = Inr c"
  by (simp_all add: load_u64_ok slice_def c64.dec_enc)

lemma parse_size_entry:
  assumes "entry_wf e"
  shows "coldtrace_entry_parse_size (entry_bytes e @ rest) = Inr (size_field (body e))"
proof -
  from assms have bf: "body_for (base_type (ucast (typed_ptr e))) (body e)"
    by (simp add: entry_wf_def)
  show ?thesis
    unfolding coldtrace_entry_parse_size_def parse_type_entry [OF assms] bindR_simps
    using bf
    by (cases "body e")
       (auto simp: entry_bytes_def load_entry_word entry_consts simp del: body_for.simps(6)
         dest!: base_type_cases_atomic)
qed

lemma parse_alloc_index_entry:
  assumes "entry_wf e"
  shows "coldtrace_entry_parse_alloc_index (entry_bytes e @ rest) = Inr (alloc_index_field (body e))"
proof -
  from assms have bf: "body_for (base_type (ucast (typed_ptr e))) (body e)"
    by (simp add: entry_wf_def)
  show ?thesis
    unfolding coldtrace_entry_parse_alloc_index_def parse_type_entry [OF assms] bindR_simps
    using bf
    by (cases "body e")
       (auto simp: entry_bytes_def load_entry_word entry_consts simp del: body_for.simps(6)
         dest!: base_type_cases_atomic)
qed

lemma parse_atomic_index_entry:
  assumes "entry_wf e"
  shows "coldtrace_entry_parse_atomic_index (entry_bytes e @ rest) = Inr (atomic_index_field (body e))"
proof -
  from assms have bf: "body_for (base_type (ucast (typed_ptr e))) (body e)"
    by (simp add: entry_wf_def)
  show ?thesis
    unfolding coldtrace_entry_parse_atomic_index_def parse_type_entry [OF assms] bindR_simps
    using bf
    by (cases "body e")
       (auto simp: entry_bytes_def load_entry_word entry_consts simp del: body_for.simps(6)
         dest!: base_type_cases_atomic)
qed

lemma length_entry_bytes_bound:
  assumes "entry_wf e"
  shows "length (entry_bytes e) \<le> 40 + 8 * 2 ^ 32"
proof -
  have "length (diff s) \<le> 2 ^ 32" if "stack_diff_of (body e) = Some s" for s
  proof -
    from that assms have "stack_diff_wf s" by (simp add: entry_wf_def)
    then have "length (diff s) = unat (depth s - popped s)" by (simp add: stack_diff_count)
    also have "\<dots> \<le> 2 ^ 32" using unat_bound [of "depth s - popped s"] by simp
    finally show ?thesis .
  qed
  then show ?thesis
    by (cases "body e") (simp_all add: length_entry_bytes sizeof_defs)
qed

lemma version_header_parse_bytes: "version_header_parse (version_header_bytes h @ rest) = h"
  by (simp add: version_header_parse_def version_header_bytes_def c32.dec_enc nth_append)

lemma length_version_header_bytes [simp]: "length (version_header_bytes h) = 8"
  by (simp add: version_header_bytes_def)

section \<open>Properties\<close>

text \<open>
  C18: the header word keeps the entry type and the low 48 bits of the pointer.  Whatever is read
  back from an entry that starts with the header of a valid type \<open>t\<close> and a pointer \<open>p\<close> is \<open>t\<close>
  without its zero flag and \<open>p\<close> modulo \<open>2^48\<close>.
\<close>

theorem entry_header_roundtrip:
  assumes "is_type_valid t"
  shows "coldtrace_entry_parse_type (u64_bytes (coldtrace_entry_init t p) @ rest) = Inr (base_type t)
       \<and> coldtrace_entry_parse_ptr (u64_bytes (coldtrace_entry_init t p) @ rest) = Inr (take_bit 48 p)"
proof -
  have "drop_bit 16 (coldtrace_make_entry_header t p) = take_bit 48 p"
    using header_ptr [of t p] parse_ptr_header [of "coldtrace_make_entry_header t p" rest]
    by (simp add: coldtrace_entry_parse_ptr_def load_u64_ok slice_def c64.dec_enc)
  with assms show ?thesis
    by (simp add: coldtrace_entry_init_def parse_type_header parse_ptr_header header_type)
qed

theorem entry_header_roundtrip_witness:
  "coldtrace_entry_parse_type (u64_bytes (coldtrace_entry_init 0x82 0xFFFF7FFF12345678)) = Inr COLDTRACE_READ
   \<and> coldtrace_entry_parse_ptr (u64_bytes (coldtrace_entry_init 0x82 0xFFFF7FFF12345678)) = Inr 0x7FFF12345678"
proof -
  have "is_type_valid 0x82" by (simp add: is_type_valid_def base_type_def entry_consts)
  from entry_header_roundtrip [OF this, of "0xFFFF7FFF12345678" "[]"] show ?thesis
    by (simp add: base_type_def entry_consts)
qed

text \<open>
  C19: the sizes agree.  For a well-formed entry in memory, the size computed from the bytes is the
  number of bytes it takes, which is the fixed size of its type plus eight bytes for every address
  of its stack diff; nothing wraps around.
\<close>

theorem entry_size_exact:
  assumes "entry_wf e"
  shows "\<exists>n. coldtrace_entry_get_size (entry_bytes e @ rest) = Inr n
     \<and> unat n = length (entry_bytes e)
     \<and> unat n = unat (coldtrace_entry_fixed_size (ucast (typed_ptr e)))
         + (case stack_diff_of (body e) of None \<Rightarrow> 0 | Some s \<Rightarrow> 8 * length (diff s))"
proof -
  let ?n = "of_nat (length (entry_bytes e)) :: u64"
  have small: "unat ?n = length (entry_bytes e)"
    using length_entry_bytes_bound [OF assms] by (simp add: unat_of_nat)
  from assms have "coldtrace_entry_fixed_size (ucast (typed_ptr e)) = of_nat (body_fixed_size (body e))"
    by (intro fixed_size_body) (simp add: entry_wf_def)
  then have "unat (coldtrace_entry_fixed_size (ucast (typed_ptr e))) = body_fixed_size (body e)"
    by (cases "body e") (simp_all add: sizeof_defs)
  with small get_size_entry [OF assms, of rest] show ?thesis
    by (simp add: length_entry_bytes)
qed

theorem entry_size_exact_witness:
  "\<exists>n. coldtrace_entry_get_size
       (entry_bytes \<lparr>typed_ptr = coldtrace_entry_init COLDTRACE_READ 64,
          body = Access_Entry 8 9 \<lparr>popped = 1, depth = 3, diff = [5, 6]\<rparr>\<rparr> @ [7]) = Inr n \<and> unat n = 48"
proof -
  let ?e = "\<lparr>typed_ptr = coldtrace_entry_init COLDTRACE_READ 64,
          body = Access_Entry 8 9 \<lparr>popped = 1, depth = 3, diff = [5, 6]\<rparr>\<rparr>"
  have "entry_wf ?e"
    by (simp add: entry_wf_def stack_diff_wf_def coldtrace_entry_init_def header_type base_type_def entry_consts)
  from entry_size_exact [OF this, of "[7]"] show ?thesis
    by (auto simp: length_entry_bytes sizeof_defs)
qed

text \<open>
  C20: parsing gives every field back.  On the bytes of a well-formed entry, the parsing functions
  return its type, the pointer of its header, its size, its allocation index and its atomic index,
  and the documented invalid value exactly where the structure has no such field.
\<close>

theorem entry_parse_fields:
  assumes "entry_wf e"
  shows "coldtrace_entry_parse_type (entry_bytes e @ rest) = Inr (base_type (ucast (typed_ptr e)))
     \<and> coldtrace_entry_parse_ptr (entry_bytes e @ rest) = Inr (drop_bit 16 (typed_ptr e))
     \<and> coldtrace_entry_parse_size (entry_bytes e @ rest) = Inr (size_field (body e))
     \<and> coldtrace_entry_parse_alloc_index (entry_bytes e @ rest) = Inr (alloc_index_field (body e))
     \<and> coldtrace_entry_parse_atomic_index (entry_bytes e @ rest) = Inr (atomic_index_field (body e))"
proof -
  have "coldtrace_entry_parse_ptr (entry_bytes e @ rest) = Inr (drop_bit 16 (typed_ptr e))"
    by (simp add: entry_bytes_def parse_ptr_header)
  with assms show ?thesis
    by (simp add: parse_type_entry parse_size_entry parse_alloc_index_entry parse_atomic_index_entry)
qed

theorem entry_parse_fields_witness:
  "coldtrace_entry_parse_alloc_index
     (entry_bytes \<lparr>typed_ptr = coldtrace_entry_init COLDTRACE_FREE 64,
        body = Free_Entry 42 9 \<lparr>popped = 0, depth = 1, diff = [5]\<rparr>\<rparr>) = Inr 42"
proof -
  let ?e = "\<lparr>typed_ptr = coldtrace_entry_init COLDTRACE_FREE 64,
          body = Free_Entry 42 9 \<lparr>popped = 0, depth = 1, diff = [5]\<rparr>\<rparr>"
  have "entry_wf ?e"
    by (simp add: entry_wf_def stack_diff_wf_def coldtrace_entry_init_def header_type base_type_def entry_consts)
  from entry_parse_fields [OF this, of "[]"] show ?thesis by simp
qed

end
