(* ===== verification/Reader.thy ===== *)
theory Reader
  imports Entries
begin

text \<open>
  The reader of fragment files, \<open>scripts/trace_dump.py\<close>: the class \<open>TraceReader\<close> with the checks of the
  headers, the decompression and the decoding of the entries with their call stacks.

  Python integers are naturals here: everything the reader unpacks is unsigned.  An exception is a
  value of \<open>dump_error\<close>.  The module \<open>lz4.block\<close> is a parameter: a function from the payload and the
  uncompressed size to the decompressed bytes, \<open>None\<close> when it raises.  Debug output is left out.
\<close>

section \<open>Data\<close>

datatype dump_error =
    Truncated_Version_Header | Unsupported_Version | Truncated_Block_Header | Implausible_Size
  | Decompression_Failed | Size_Mismatch | Truncated_Entry_Header | Unknown_Entry_Type | Truncated_Fields
  | Popped_Exceeds_Depth | Cannot_Retain | Truncated_Stack

type_synonym 'a dump = "dump_error + 'a"

record trace_entry =
  te_tid :: nat
  te_type :: nat
  te_pointer :: nat
  te_zero_flag :: bool
  te_size :: "nat option"
  te_alloc_index :: "nat option"
  te_atomic_index :: "nat option"
  te_caller :: "nat option"
  te_stack_depth :: nat
  te_caller_1 :: nat
  te_caller_2 :: nat
  te_thread_stack_ptr :: "nat option"
  te_thread_stack_size :: "nat option"

definition trace_entry_default :: "nat \<Rightarrow> nat \<Rightarrow> nat \<Rightarrow> trace_entry" where
  "trace_entry_default tid t ptr = \<lparr>te_tid = tid, te_type = t, te_pointer = ptr, te_zero_flag = False,
     te_size = None, te_alloc_index = None, te_atomic_index = None, te_caller = None, te_stack_depth = 0,
     te_caller_1 = 0, te_caller_2 = 0, te_thread_stack_ptr = None, te_thread_stack_size = None\<rparr>"

definition bindD :: "'a dump \<Rightarrow> ('a \<Rightarrow> 'b dump) \<Rightarrow> 'b dump" where
  "bindD m f = (case m of Inl e \<Rightarrow> Inl e | Inr x \<Rightarrow> f x)"

text \<open>The constants of the module; an entry type is its number.\<close>

definition VERSION_HEADER_size :: nat where "VERSION_HEADER_size = 4 + 1 + 1 + 1 + 1"
definition BLOCK_HEADER_size :: nat where "BLOCK_HEADER_size = 4"
definition FRAGMENT_HEADER_SIZE :: nat where "FRAGMENT_HEADER_SIZE = VERSION_HEADER_size + BLOCK_HEADER_size"
definition ENTRY_HEADER_size :: nat where "ENTRY_HEADER_size = 8"
definition FREE_FIELDS_size :: nat where "FREE_FIELDS_size = 8 + 8 + 4 + 4"
definition ALLOC_FIELDS_size :: nat where "ALLOC_FIELDS_size = 8 + 8 + 8 + 4 + 4"
definition ACCESS_FIELDS_size :: nat where "ACCESS_FIELDS_size = 8 + 8 + 4 + 4"
definition ATOMIC_ACCESS_FIELDS_size :: nat where "ATOMIC_ACCESS_FIELDS_size = 8 + 8"
definition ATOMIC_FIELDS_size :: nat where "ATOMIC_FIELDS_size = 8"
definition THREAD_START_FIELDS_size :: nat where "THREAD_START_FIELDS_size = 8 + 8 + 8"
definition ADDRESS_size :: nat where "ADDRESS_size = 8"

lemmas reader_sizes = VERSION_HEADER_size_def BLOCK_HEADER_size_def FRAGMENT_HEADER_SIZE_def ENTRY_HEADER_size_def
  FREE_FIELDS_size_def ALLOC_FIELDS_size_def ACCESS_FIELDS_size_def ATOMIC_ACCESS_FIELDS_size_def
  ATOMIC_FIELDS_size_def THREAD_START_FIELDS_size_def ADDRESS_size_def

text \<open>On naturals \<open>x & ~m\<close> is \<open>x - (x & m)\<close>.\<close>

definition READER_ZERO_FLAG :: nat where "READER_ZERO_FLAG = 0x80"
definition READER_TYPE_MASK :: nat where "READER_TYPE_MASK = 0xFF"
definition POINTER_MASK :: nat where "POINTER_MASK = 0x0000FFFFFFFFFFFF"
definition READER_MAX_INPUT_SIZE :: nat where "READER_MAX_INPUT_SIZE = 0x7E000000"
definition LZ4_MAX_RATIO :: nat where "LZ4_MAX_RATIO = 255"
definition MIN_SUPPORTED_VERSION :: "nat \<times> nat \<times> nat" where "MIN_SUPPORTED_VERSION = (0, 2, 0)"
definition N_ENTRY_TYPES :: nat where "N_ENTRY_TYPES = 25"

definition STACK_ALLOC_TYPES :: "nat list" where "STACK_ALLOC_TYPES = [1, 22, 23]"
definition STACK_ACCESS_TYPES :: "nat list" where "STACK_ACCESS_TYPES = [2, 3]"
definition ATOMIC_ACCESS_TYPES :: "nat list" where "ATOMIC_ACCESS_TYPES = [4, 5]"

text \<open>\<open>struct.unpack_from\<close> of one unsigned little-endian integer of a width.\<close>

primrec le_nat :: "bytes \<Rightarrow> nat" where
  "le_nat [] = 0"
| "le_nat (b # bs) = unat b + 256 * le_nat bs"

definition unpack_int :: "nat \<Rightarrow> bytes \<Rightarrow> nat \<Rightarrow> nat" where
  "unpack_int width buf off = le_nat (slice off width buf)"

section \<open>Decompression\<close>

definition version_less :: "nat \<times> nat \<times> nat \<Rightarrow> nat \<times> nat \<times> nat \<Rightarrow> bool" where
  "version_less v w =
     (case (v, w) of ((a, b, c), (a', b', c')) \<Rightarrow> a < a' \<or> a = a' \<and> (b < b' \<or> b = b' \<and> c < c'))"

definition check_version :: "bytes \<Rightarrow> unit dump" where
  "check_version data =
     (let version = (unpack_int 1 data 5, unpack_int 1 data 6, unpack_int 1 data 7)
      in if version_less version MIN_SUPPORTED_VERSION then Inl Unsupported_Version else Inr ())"

definition decompress :: "(bytes \<Rightarrow> nat \<Rightarrow> bytes option) \<Rightarrow> nat \<Rightarrow> bytes \<Rightarrow> bytes dump" where
  "decompress lz4_block max_fragment_size data =
     (if length data < VERSION_HEADER_size then Inl Truncated_Version_Header
      else bindD (check_version data) (\<lambda>_.
        if length data < FRAGMENT_HEADER_SIZE then Inl Truncated_Block_Header
        else
          let raw_size = unpack_int 4 data VERSION_HEADER_size;
              payload = drop FRAGMENT_HEADER_SIZE data;
              limit = min max_fragment_size (length payload * LZ4_MAX_RATIO)
          in if limit < raw_size then Inl Implausible_Size
             else bindD
               (if raw_size = 0 then Inr []
                else case lz4_block payload raw_size of
                       None \<Rightarrow> Inl Decompression_Failed
                     | Some entries \<Rightarrow> if length entries \<noteq> raw_size then Inl Size_Mismatch else Inr entries)
               (\<lambda>entries. Inr (take VERSION_HEADER_size data @ entries))))"

section \<open>Entries\<close>

text \<open>
  The stack part of an entry: keep \<open>popped\<close> frames, append the frames that follow.  The result is the
  depth, the two innermost callers, the offset behind the frames and the new stack.
\<close>

definition read_stack :: "bytes \<Rightarrow> nat \<Rightarrow> nat \<Rightarrow> nat \<Rightarrow> nat list \<Rightarrow> (nat \<times> nat \<times> nat \<times> nat \<times> nat list) dump" where
  "read_stack buf off n_pop n_depth stack =
     (if n_depth < n_pop then Inl Popped_Exceeds_Depth
      else if length stack < n_pop then Inl Cannot_Retain
      else
        let added = n_depth - n_pop;
            stack_end = off + added * ADDRESS_size
        in if length buf < stack_end then Inl Truncated_Stack
           else
             let stack' = take n_pop stack @ map (\<lambda>i. unpack_int 8 buf (off + i * ADDRESS_size)) [0..<added];
                 caller_1 = (if stack' \<noteq> [] then last stack' else 0);
                 caller_2 = (if 2 \<le> n_depth then stack' ! (length stack' - 2) else 0)
             in Inr (n_depth, caller_1, caller_2, stack_end, stack'))"

text \<open>\<open>_unpack_from\<close>: the end of the fields when they are inside the buffer.\<close>

definition fields_end :: "bytes \<Rightarrow> nat \<Rightarrow> nat \<Rightarrow> nat dump" where
  "fields_end buf off n = (if length buf < off + n then Inl Truncated_Fields else Inr (off + n))"

definition read_access ::
  "nat \<Rightarrow> bytes \<Rightarrow> nat \<Rightarrow> nat \<Rightarrow> nat \<Rightarrow> bool \<Rightarrow> nat list \<Rightarrow> (trace_entry \<times> nat \<times> nat list) dump"
where
  "read_access tid buf off t ptr zero stack =
     bindD (fields_end buf off ACCESS_FIELDS_size) (\<lambda>off1.
     bindD (read_stack buf off1 (unpack_int 4 buf (off + 16)) (unpack_int 4 buf (off + 20)) stack)
       (\<lambda>(d, c1, c2, off2, stack').
         Inr ((trace_entry_default tid t ptr)\<lparr>te_zero_flag := zero, te_size := Some (unpack_int 8 buf off),
                te_caller := Some (unpack_int 8 buf (off + 8)), te_stack_depth := d, te_caller_1 := c1,
                te_caller_2 := c2\<rparr>, off2, stack')))"

definition all_zero :: "bytes \<Rightarrow> bool" where "all_zero bs = list_all (\<lambda>b. b = 0) bs"

text \<open>A \<open>FREE\<close> entry of zeros ends the fragment; the answer \<open>None\<close> stands for that.\<close>

definition read_free ::
  "nat \<Rightarrow> bytes \<Rightarrow> nat \<Rightarrow> nat \<Rightarrow> nat \<Rightarrow> nat \<Rightarrow> bool \<Rightarrow> nat list \<Rightarrow> (trace_entry option \<times> nat \<times> nat list) dump"
where
  "read_free tid buf off typed_pointer t ptr zero stack =
     (if typed_pointer = 0 \<and> all_zero (slice off FREE_FIELDS_size buf) then Inr (None, length buf, stack)
      else bindD (fields_end buf off FREE_FIELDS_size) (\<lambda>off1.
        bindD (read_stack buf off1 (unpack_int 4 buf (off + 16)) (unpack_int 4 buf (off + 20)) stack)
          (\<lambda>(d, c1, c2, off2, stack').
            Inr (Some ((trace_entry_default tid t ptr)\<lparr>te_zero_flag := zero, te_alloc_index := Some (unpack_int 8 buf off),
                   te_caller := Some (unpack_int 8 buf (off + 8)), te_stack_depth := d, te_caller_1 := c1,
                   te_caller_2 := c2\<rparr>), off2, stack'))))"

definition read_alloc ::
  "nat \<Rightarrow> bytes \<Rightarrow> nat \<Rightarrow> nat \<Rightarrow> nat \<Rightarrow> bool \<Rightarrow> nat list \<Rightarrow> (trace_entry \<times> nat \<times> nat list) dump"
where
  "read_alloc tid buf off t ptr zero stack =
     bindD (fields_end buf off ALLOC_FIELDS_size) (\<lambda>off1.
     bindD (read_stack buf off1 (unpack_int 4 buf (off + 24)) (unpack_int 4 buf (off + 28)) stack)
       (\<lambda>(d, c1, c2, off2, stack').
         Inr ((trace_entry_default tid t ptr)\<lparr>te_zero_flag := zero, te_size := Some (unpack_int 8 buf off),
                te_alloc_index := Some (unpack_int 8 buf (off + 8)), te_caller := Some (unpack_int 8 buf (off + 16)),
                te_stack_depth := d, te_caller_1 := c1, te_caller_2 := c2\<rparr>, off2, stack')))"

definition read_entry ::
  "nat \<Rightarrow> bytes \<Rightarrow> nat \<Rightarrow> nat \<Rightarrow> nat \<Rightarrow> nat \<Rightarrow> bool \<Rightarrow> nat list \<Rightarrow> (trace_entry option \<times> nat \<times> nat list) dump"
where
  "read_entry tid buf off typed_pointer t ptr zero stack =
     (if t = 24 then Inr (Some (trace_entry_default tid t ptr), off, stack)
      else if t = 0 then read_free tid buf off typed_pointer t ptr zero stack
      else if t \<in> set STACK_ALLOC_TYPES
      then bindD (read_alloc tid buf off t ptr zero stack) (\<lambda>(e, off1, st). Inr (Some e, off1, st))
      else if t = 9 then
        bindD (fields_end buf off THREAD_START_FIELDS_size) (\<lambda>off1.
          Inr (Some ((trace_entry_default tid t ptr)\<lparr>te_zero_flag := zero, te_atomic_index := Some (unpack_int 8 buf off),
                 te_thread_stack_ptr := Some (unpack_int 8 buf (off + 8)),
                 te_thread_stack_size := Some (unpack_int 8 buf (off + 16))\<rparr>), off1, stack))
      else if t \<in> set ATOMIC_ACCESS_TYPES then
        bindD (fields_end buf off ATOMIC_ACCESS_FIELDS_size) (\<lambda>off1.
          Inr (Some ((trace_entry_default tid t ptr)\<lparr>te_zero_flag := zero, te_size := Some (unpack_int 8 buf off),
                 te_atomic_index := Some (unpack_int 8 buf (off + 8))\<rparr>), off1, stack))
      else
        bindD (fields_end buf off ATOMIC_FIELDS_size) (\<lambda>off1.
          Inr (Some ((trace_entry_default tid t ptr)\<lparr>te_zero_flag := zero, te_atomic_index := Some (unpack_int 8 buf off)\<rparr>),
               off1, stack)))"

section \<open>Files\<close>

text \<open>
  One round of the loop of \<open>_read_file\<close>: an entry with the offset behind it, or \<open>None\<close> where the loop
  breaks off at a tail of zeros.
\<close>

definition read_one :: "nat \<Rightarrow> bytes \<Rightarrow> nat \<Rightarrow> nat list \<Rightarrow> (trace_entry option \<times> nat \<times> nat list) dump" where
  "read_one tid buf off stack =
     (let header_end = off + ENTRY_HEADER_size in
      if length buf < header_end
      then (if all_zero (drop off buf) then Inr (None, off, stack) else Inl Truncated_Entry_Header)
      else
        let typed_pointer = unpack_int 8 buf off;
            raw_type = typed_pointer AND READER_TYPE_MASK;
            type_value = raw_type - (raw_type AND READER_ZERO_FLAG);
            ptr = drop_bit 16 typed_pointer AND POINTER_MASK;
            zero = (raw_type AND READER_ZERO_FLAG \<noteq> 0)
        in if N_ENTRY_TYPES \<le> type_value then Inl Unknown_Entry_Type
           else if type_value \<in> set STACK_ACCESS_TYPES
           then bindD (read_access tid buf header_end type_value ptr zero stack) (\<lambda>(e, off1, st). Inr (Some e, off1, st))
           else read_entry tid buf header_end typed_pointer type_value ptr zero stack)"

text \<open>Every round moves on, so the loop ends.\<close>

lemma bindD_Inr: "bindD m f = Inr y \<longleftrightarrow> (\<exists>x. m = Inr x \<and> f x = Inr y)"
  by (cases m) (auto simp: bindD_def)

lemma bindD_simps [simp]: "bindD (Inr x) f = f x" "bindD (Inl e) f = Inl e"
  by (simp_all add: bindD_def)

lemma fields_end_Inr: "fields_end buf off n = Inr off1 \<longleftrightarrow> off1 = off + n \<and> off + n \<le> length buf"
  by (auto simp: fields_end_def)

lemma read_stack_progress: "read_stack buf off p d st = Inr (d', c1, c2, off1, st') \<Longrightarrow> off \<le> off1 \<and> off1 \<le> length buf"
  by (auto simp: read_stack_def Let_def split: if_splits)

lemma read_one_progress: "read_one tid buf off st = Inr (Some e, off1, st') \<Longrightarrow> off < off1 \<and> off1 \<le> length buf"
  by (auto simp: read_one_def read_entry_def read_access_def read_free_def read_alloc_def Let_def bindD_Inr fields_end_Inr
        ENTRY_HEADER_size_def split: if_splits dest!: read_stack_progress)

text \<open>
  The generator \<open>_read_file\<close> behind the decompression: the entries it yields, the error it ends with if
  there is one, and the stack it leaves to the next file.
\<close>

function read_loop :: "nat \<Rightarrow> bytes \<Rightarrow> nat \<Rightarrow> nat list \<Rightarrow> trace_entry list \<times> dump_error option \<times> nat list" where
  "read_loop tid buf off stack =
     (if off < length buf then
        case read_one tid buf off stack of
          Inl err \<Rightarrow> ([], Some err, stack)
        | Inr (None, off1, st) \<Rightarrow> ([], None, st)
        | Inr (Some e, off1, st) \<Rightarrow>
            let (es, err, st') = read_loop tid buf off1 st in (e # es, err, st')
      else ([], None, stack))"
  by pat_completeness auto
termination
  by (relation "measure (\<lambda>(tid, buf, off, st). length buf - off)") (auto dest!: read_one_progress)

declare read_loop.simps [simp del]

definition read_file ::
  "(bytes \<Rightarrow> nat \<Rightarrow> bytes option) \<Rightarrow> nat \<Rightarrow> nat \<Rightarrow> bytes \<Rightarrow> nat list \<Rightarrow> trace_entry list \<times> dump_error option \<times> nat list"
where
  "read_file lz4_block max_fragment_size tid data stack =
     (case decompress lz4_block max_fragment_size data of
        Inl err \<Rightarrow> ([], Some err, stack)
      | Inr buf \<Rightarrow> read_loop tid buf VERSION_HEADER_size stack)"

text \<open>\<open>entries\<close>: the files in order, up to the first error.\<close>

primrec read_files ::
  "(bytes \<Rightarrow> nat \<Rightarrow> bytes option) \<Rightarrow> nat \<Rightarrow> nat \<Rightarrow> bytes list \<Rightarrow> nat list \<Rightarrow> trace_entry list \<times> dump_error option \<times> nat list"
where
  "read_files lz4_block max_fragment_size tid [] stack = ([], None, stack)"
| "read_files lz4_block max_fragment_size tid (f # fs) stack =
     (case read_file lz4_block max_fragment_size tid f stack of
        (es, Some err, st) \<Rightarrow> (es, Some err, st)
      | (es, None, st) \<Rightarrow>
          let (es', err, st') = read_files lz4_block max_fragment_size tid fs st in (es @ es', err, st'))"

end
