(* ===== verification/Libc.thy ===== *)
theory Libc
  imports Prelude
begin

text \<open>
  The parts of the C library the tracer uses on strings: formatted printing of \<open>%d\<close>, the
  conversion of decimal numbers, and searching for characters.  A C string is the list of its
  characters without the terminating NUL, so a buffer that holds \<open>s\<close> needs \<open>length s + 1\<close> bytes.
\<close>

section \<open>Decimal numbers\<close>

definition digit :: "nat \<Rightarrow> char" where
  "digit d = char_of (48 + d)"

fun dec_nat :: "nat \<Rightarrow> string" where
  "dec_nat n = (if n < 10 then [digit n] else dec_nat (n div 10) @ [digit (n mod 10)])"

declare dec_nat.simps [simp del]

definition dec_int :: "int \<Rightarrow> string" where
  "dec_int i = (if i < 0 then CHR ''-'' # dec_nat (nat (- i)) else dec_nat (nat i))"

text \<open>
  \<open>sprintf\<close> with \<open>int\<close> arguments.  A \<open>%d\<close> prints the next argument; without one, or with any other
  conversion, the C call has undefined behaviour.  The writer passes 64-bit and 32-bit unsigned
  values; the variadic call hands their low 32 bits to \<open>%d\<close>, which reads them as a signed number.
\<close>

fun c_sprintf :: "string \<Rightarrow> u32 list \<Rightarrow> string res" where
  "c_sprintf [] args = Inr []"
| "c_sprintf (c # cs) args =
     (if c \<noteq> CHR ''%'' then bindR (c_sprintf cs args) (\<lambda>s. Inr (c # s))
      else case cs of
        [] \<Rightarrow> Inl Bad_Format
      | d # ds \<Rightarrow>
          if d = CHR ''%'' then bindR (c_sprintf ds args) (\<lambda>s. Inr (CHR ''%'' # s))
          else if d = CHR ''d'' then
            (case args of
               [] \<Rightarrow> Inl Bad_Format
             | a # as \<Rightarrow> bindR (c_sprintf ds as) (\<lambda>s. Inr (dec_int (sint a) @ s)))
          else Inl Bad_Format)"

section \<open>Conversions and searches\<close>

definition c_isspace :: "char \<Rightarrow> bool" where
  "c_isspace c \<longleftrightarrow> c = CHR '' '' \<or> (9 \<le> (of_char c :: nat) \<and> (of_char c :: nat) \<le> 13)"

definition is_digit :: "char \<Rightarrow> bool" where
  "is_digit c \<longleftrightarrow> 48 \<le> (of_char c :: nat) \<and> (of_char c :: nat) \<le> 57"

fun digits_value :: "nat \<Rightarrow> string \<Rightarrow> nat" where
  "digits_value acc [] = acc"
| "digits_value acc (c # cs) =
     (if is_digit c then digits_value (10 * acc + (of_char c - 48)) cs else acc)"

definition strtoul :: "string \<Rightarrow> u64" where
  "strtoul s =
     (let s1 = dropWhile c_isspace s;
          neg = (s1 \<noteq> [] \<and> hd s1 = CHR ''-'');
          s2 = (if s1 \<noteq> [] \<and> (hd s1 = CHR ''-'' \<or> hd s1 = CHR ''+'') then tl s1 else s1);
          v = digits_value 0 s2
      in if 2 ^ 64 \<le> v then - 1 else if neg then - of_nat v else of_nat v)"

text \<open>The string from the first and from the last occurrence of a character, or NULL.\<close>

fun strchr :: "char \<Rightarrow> string \<Rightarrow> string option" where
  "strchr c [] = None"
| "strchr c (x # xs) = (if x = c then Some (x # xs) else strchr c xs)"

fun strrchr :: "char \<Rightarrow> string \<Rightarrow> string option" where
  "strrchr c [] = None"
| "strrchr c (x # xs) =
     (case strrchr c xs of Some r \<Rightarrow> Some r | None \<Rightarrow> if x = c then Some (x # xs) else None)"

fun starts_with :: "string \<Rightarrow> string \<Rightarrow> bool" where
  "starts_with [] s = True"
| "starts_with (c # cs) [] = False"
| "starts_with (c # cs) (x # xs) = (c = x \<and> starts_with cs xs)"

fun strstr :: "string \<Rightarrow> string \<Rightarrow> bool" where
  "strstr [] needle = (needle = [])"
| "strstr (x # xs) needle = (starts_with needle (x # xs) \<or> strstr xs needle)"

text \<open>\<open>snprintf(buf, n, "%s", s)\<close> keeps the first \<open>n - 1\<close> characters.\<close>

definition snprintf_trunc :: "nat \<Rightarrow> string \<Rightarrow> string" where
  "snprintf_trunc n s = take (n - 1) s"

lemma snprintf_fits: "length s < n \<Longrightarrow> snprintf_trunc n s = s"
  by (simp add: snprintf_trunc_def)

section \<open>Lemmas on decimal printing\<close>

lemma of_char_digit [simp]: "d < 10 \<Longrightarrow> of_char (digit d) = 48 + d"
  by (simp add: digit_def)

lemma is_digit_digit [simp]: "d < 10 \<Longrightarrow> is_digit (digit d)"
  by (simp add: is_digit_def)

lemma dec_nat_nonempty [simp]: "dec_nat n \<noteq> []"
  by (subst dec_nat.simps) simp

lemma dec_nat_digits: "c \<in> set (dec_nat n) \<Longrightarrow> is_digit c"
proof (induction n rule: dec_nat.induct)
  case (1 n)
  then show ?case
    by (cases "n < 10") (auto simp: dec_nat.simps [of n])
qed

lemma digits_value_append:
  "(\<forall>c \<in> set xs. is_digit c) \<Longrightarrow> digits_value acc (xs @ ys) = digits_value (digits_value acc xs) ys"
  by (induction xs arbitrary: acc) auto

lemma digits_value_dec_nat: "digits_value 0 (dec_nat n) = n"
proof (induction n rule: dec_nat.induct)
  case (1 n)
  show ?case
  proof (cases "n < 10")
    case True
    then show ?thesis by (simp add: dec_nat.simps [of n])
  next
    case False
    with 1 show ?thesis
      by (simp add: dec_nat.simps [of n] digits_value_append dec_nat_digits)
  qed
qed

lemma dec_nat_inject [simp]: "dec_nat m = dec_nat n \<longleftrightarrow> m = n"
  by (metis digits_value_dec_nat)

lemma not_is_digit [simp]: "\<not> is_digit CHR ''-''" "\<not> is_digit CHR ''_''" "\<not> is_digit CHR ''.''"
  by (simp_all add: is_digit_def)

lemma dec_int_inject [simp]: "dec_int i = dec_int j \<longleftrightarrow> i = j"
proof -
  have "dec_nat m \<noteq> CHR ''-'' # s" for m s
    using dec_nat_digits [of "CHR ''-''" m] by auto
  moreover from this have "CHR ''-'' # s \<noteq> dec_nat m" for m s by metis
  ultimately show ?thesis by (auto simp: dec_int_def)
qed

lemma dec_int_no_underscore: "CHR ''_'' \<notin> set (dec_int i)"
  using dec_nat_digits [of "CHR ''_''"] by (auto simp: dec_int_def)

lemma dec_int_no_dot: "CHR ''.'' \<notin> set (dec_int i)"
  using dec_nat_digits [of "CHR ''.''"] by (auto simp: dec_int_def)

lemma dec_int_no_slash: "CHR ''/'' \<notin> set (dec_int i)"
  using dec_nat_digits [of "CHR ''/''"] by (auto simp: dec_int_def is_digit_def)

lemma length_dec_nat: "n < 10 ^ k \<Longrightarrow> 0 < k \<Longrightarrow> length (dec_nat n) \<le> k"
proof (induction k arbitrary: n)
  case (Suc k)
  show ?case
  proof (cases "n < 10")
    case True
    then show ?thesis by (simp add: dec_nat.simps [of n])
  next
    case False
    with Suc.prems have "0 < k" by (cases k) auto
    moreover from Suc.prems have "n div 10 < 10 ^ k" by (simp add: less_mult_imp_div_less mult.commute)
    ultimately have "length (dec_nat (n div 10)) \<le> k" using Suc.IH by simp
    with False show ?thesis by (simp add: dec_nat.simps [of n])
  qed
qed simp

lemma length_dec_int_u32: "length (dec_int (sint (w :: u32))) \<le> 11"
proof -
  have lo: "- (2 ^ 31) \<le> sint w" and hi: "sint w < 2 ^ 31"
    using sint_greater_eq [of w] sint_less [of w] by simp_all
  show ?thesis
  proof (cases "sint w < 0")
    case True
    with lo have "nat (- sint w) < 10 ^ 10" by simp
    then have "length (dec_nat (nat (- sint w))) \<le> 10" by (rule length_dec_nat) simp
    with True show ?thesis by (simp add: dec_int_def)
  next
    case False
    with hi have "nat (sint w) < 10 ^ 10" by simp
    then have "length (dec_nat (nat (sint w))) \<le> 10" by (rule length_dec_nat) simp
    with False show ?thesis by (simp add: dec_int_def)
  qed
qed

lemma c_sprintf_plain: "CHR ''%'' \<notin> set cs \<Longrightarrow>
   c_sprintf (cs @ rest) args = bindR (c_sprintf rest args) (\<lambda>s. Inr (cs @ s))"
proof (induction cs)
  case (Cons c cs)
  then show ?case by (cases "c_sprintf rest args") auto
qed (cases "c_sprintf rest args"; simp)

section \<open>Lemmas on searches\<close>

lemma strrchr_None: "strrchr c xs = None \<longleftrightarrow> c \<notin> set xs"
  by (induction xs) (auto split: option.splits)

lemma strrchr_Some: "strrchr c xs = Some r \<Longrightarrow> \<exists>pre post. xs = pre @ r \<and> r = c # post \<and> c \<notin> set post"
proof (induction xs)
  case (Cons x xs)
  show ?case
  proof (cases "strrchr c xs")
    case None
    then have "c \<notin> set xs" by (simp add: strrchr_None)
    then show ?thesis using None Cons.prems by (auto split: if_splits)
  next
    case (Some q)
    with Cons.prems have "q = r" by simp
    with Some Cons.IH obtain pre post where "xs = pre @ r" "r = c # post" "c \<notin> set post" by auto
    then have "x # xs = (x # pre) @ r \<and> r = c # post \<and> c \<notin> set post" by simp
    then show ?thesis by blast
  qed
qed simp

lemma strrchr_split: "c \<notin> set post \<Longrightarrow> strrchr c (pre @ c # post) = Some (c # post)"
proof (induction pre)
  case Nil
  then have "strrchr c post = None" by (simp add: strrchr_None)
  then show ?case by simp
qed auto

lemma starts_with_iff: "starts_with p s \<longleftrightarrow> (\<exists>r. s = p @ r)"
  by (induction p s rule: starts_with.induct) auto

lemma starts_with_append: "starts_with p (p @ s)"
  by (simp add: starts_with_iff)

lemma strstr_iff: "strstr s needle \<longleftrightarrow> (\<exists>a b. s = a @ needle @ b)"
proof (induction s)
  case (Cons x xs)
  have "(\<exists>a b. x # xs = a @ needle @ b) \<longleftrightarrow> (\<exists>r. x # xs = needle @ r) \<or> (\<exists>a b. xs = a @ needle @ b)"
    by (metis append_Cons append_Nil list.inject neq_Nil_conv)
  then show ?case
    using Cons by (simp add: starts_with_iff)
qed auto

end
