(* ===== verification/Os.thy ===== *)
theory Os
  imports Libc "HOL-Library.AList"
begin

text \<open>
  The operating system as the tracer sees it: a file system and a number of calls that may fail.

  \<^item> The file system maps path strings to nodes.  Paths are compared as strings; links, relative
    components and repeated slashes are not resolved.
  \<^item> Every call that may fail, or return less than it was asked for, takes its outcome from the
    environment \<open>os_env\<close>, which gives one outcome for every point in time.  The clock of the system
    state counts the calls made so far.  A theorem that holds for every environment holds for every
    behaviour of the calls.
  \<^item> A file descriptor is the path it was opened with; a descriptor is written to by its opener
    only, so a write appends.
\<close>

datatype node = Dir | Reg bytes | Special

datatype errno = EEXIST | EINTR | EOTHER

datatype write_outcome = Wrote nat | Write_Intr | Write_Err

record os_env =
  ev_open_err :: "nat \<Rightarrow> bool"
  ev_write :: "nat \<Rightarrow> write_outcome"
  ev_mmap_ok :: "nat \<Rightarrow> u64 \<Rightarrow> bool"
  ev_alloc_ok :: "nat \<Rightarrow> u64 \<Rightarrow> bool"
  ev_junk :: "nat \<Rightarrow> nat \<Rightarrow> u8"
  ev_dir_err :: "nat \<Rightarrow> bool"
  ev_fread :: "nat \<Rightarrow> nat"
  ev_fwrite :: "nat \<Rightarrow> nat"
  ev_fuel :: nat

record os =
  fs :: "(string \<times> node) list"
  clock :: nat

definition tick :: "os \<Rightarrow> os" where
  "tick s = s\<lparr>clock := Suc (clock s)\<rparr>"

definition node_at :: "os \<Rightarrow> string \<Rightarrow> node option" where
  "node_at s p = map_of (fs s) p"

definition set_node :: "string \<Rightarrow> node \<Rightarrow> os \<Rightarrow> os" where
  "set_node p n s = s\<lparr>fs := AList.update p n (fs s)\<rparr>"

definition del_node :: "string \<Rightarrow> os \<Rightarrow> os" where
  "del_node p s = s\<lparr>fs := AList.delete p (fs s)\<rparr>"

section \<open>Files\<close>

text \<open>\<open>open(path, O_WRONLY | O_CREAT | O_EXCL)\<close>: create a file that does not exist yet.\<close>

definition os_open_excl :: "os_env \<Rightarrow> string \<Rightarrow> os \<Rightarrow> (errno + unit) \<times> os" where
  "os_open_excl env p s =
     (if ev_open_err env (clock s) then (Inl EOTHER, tick s)
      else case node_at s p of
        Some _ \<Rightarrow> (Inl EEXIST, tick s)
      | None \<Rightarrow> (Inr (), tick (set_node p (Reg []) s)))"

text \<open>\<open>open(path, O_WRONLY | O_CREAT | O_TRUNC)\<close>: create a file or empty it.\<close>

definition os_open_trunc :: "os_env \<Rightarrow> string \<Rightarrow> os \<Rightarrow> (errno + unit) \<times> os" where
  "os_open_trunc env p s =
     (if ev_open_err env (clock s) \<or> node_at s p = Some Dir then (Inl EOTHER, tick s)
      else (Inr (), tick (set_node p (Reg []) s)))"

definition append_file :: "string \<Rightarrow> bytes \<Rightarrow> os \<Rightarrow> os" where
  "append_file p bs s =
     (case node_at s p of Some (Reg old) \<Rightarrow> set_node p (Reg (old @ bs)) s | _ \<Rightarrow> s)"

text \<open>\<open>write(fd, buf, n)\<close>: append a prefix of the buffer, or fail.\<close>

definition os_write :: "os_env \<Rightarrow> string \<Rightarrow> bytes \<Rightarrow> os \<Rightarrow> (errno + nat) \<times> os" where
  "os_write env p buf s =
     (case ev_write env (clock s) of
        Wrote n \<Rightarrow> (Inr (min n (length buf)), tick (append_file p (take n buf) s))
      | Write_Intr \<Rightarrow> (Inl EINTR, tick s)
      | Write_Err \<Rightarrow> (Inl EOTHER, tick s))"

definition os_unlink :: "string \<Rightarrow> os \<Rightarrow> os" where
  "os_unlink p s = tick (del_node p s)"

section \<open>Memory\<close>

text \<open>
  An anonymous mapping is zero-filled; what \<open>malloc\<close> and the memory pool return is not.  No block is
  larger than \<open>PTRDIFF_MAX\<close>.
\<close>

definition os_mmap :: "os_env \<Rightarrow> u64 \<Rightarrow> os \<Rightarrow> bytes option \<times> os" where
  "os_mmap env n s =
     ((if ev_mmap_ok env (clock s) n \<and> unat n < 2 ^ 63 then Some (replicate (unat n) 0) else None), tick s)"

definition junk_bytes :: "os_env \<Rightarrow> nat \<Rightarrow> nat \<Rightarrow> bytes" where
  "junk_bytes env t n = map (ev_junk env t) [0..<n]"

definition os_alloc :: "os_env \<Rightarrow> u64 \<Rightarrow> os \<Rightarrow> bytes option \<times> os" where
  "os_alloc env n s =
     ((if ev_alloc_ok env (clock s) n \<and> unat n < 2 ^ 63 then Some (junk_bytes env (clock s) (unat n)) else None), tick s)"

section \<open>Directories and buffered files\<close>

definition os_mkdir :: "os_env \<Rightarrow> string \<Rightarrow> os \<Rightarrow> (errno + unit) \<times> os" where
  "os_mkdir env p s =
     (case node_at s p of
        Some _ \<Rightarrow> (Inl EEXIST, tick s)
      | None \<Rightarrow> if ev_dir_err env (clock s) then (Inl EOTHER, tick s)
                else (Inr (), tick (set_node p Dir s)))"

definition os_opendir :: "os_env \<Rightarrow> string \<Rightarrow> os \<Rightarrow> string list option \<times> os" where
  "os_opendir env p s =
     (if ev_dir_err env (clock s) \<or> node_at s p \<noteq> Some Dir then (None, tick s)
      else (Some ([''.'', ''..''] @
               [drop (length p + 1) q. q \<leftarrow> remdups (map fst (fs s)),
                  starts_with (p @ ''/'') q \<and> CHR ''/'' \<notin> set (drop (length p + 1) q)]), tick s))"

definition os_remove :: "os_env \<Rightarrow> string \<Rightarrow> os \<Rightarrow> bool \<times> os" where
  "os_remove env p s =
     (if ev_dir_err env (clock s) \<or> node_at s p = None then (False, tick s)
      else (True, tick (del_node p s)))"

text \<open>
  A stream opened for reading is the list of the bytes that are left.  Reading a directory gives no bytes;
  what a special file gives is not determined.  A read returns fewer bytes than it was asked for at
  the end of the file and on an error, and a line read fails on an error.
\<close>

definition os_fopen_read :: "os_env \<Rightarrow> string \<Rightarrow> os \<Rightarrow> bytes option \<times> os" where
  "os_fopen_read env p s =
     ((if ev_open_err env (clock s) then None
       else case node_at s p of
         None \<Rightarrow> None
       | Some (Reg bs) \<Rightarrow> Some bs
       | Some Dir \<Rightarrow> Some []
       | Some Special \<Rightarrow> Some (junk_bytes env (clock s) (ev_fread env (clock s)))), tick s)"

definition os_fread :: "os_env \<Rightarrow> nat \<Rightarrow> bytes \<Rightarrow> os \<Rightarrow> bytes \<times> bytes \<times> os" where
  "os_fread env n file s =
     (let k = min n (ev_fread env (clock s)) in (take k file, drop k file, tick s))"

definition is_newline :: "u8 \<Rightarrow> bool" where
  "is_newline b \<longleftrightarrow> b = 10"

text \<open>\<open>fgets(buf, n, file)\<close>: at most \<open>n - 1\<close> bytes, up to the first newline and with it.\<close>

fun take_line :: "nat \<Rightarrow> bytes \<Rightarrow> bytes" where
  "take_line 0 bs = []"
| "take_line (Suc n) [] = []"
| "take_line (Suc n) (b # bs) = b # (if is_newline b then [] else take_line n bs)"

definition os_fgets :: "os_env \<Rightarrow> nat \<Rightarrow> bytes \<Rightarrow> os \<Rightarrow> (bytes \<times> bytes) option \<times> os" where
  "os_fgets env n file s =
     (let line = take_line (n - 1) file in
      (if line = [] \<or> ev_fread env (clock s) = 0 then None else Some (line, drop (length line) file), tick s))"

definition os_fwrite :: "os_env \<Rightarrow> string \<Rightarrow> bytes \<Rightarrow> os \<Rightarrow> os" where
  "os_fwrite env p buf s = tick (append_file p (take (ev_fwrite env (clock s)) buf) s)"

text \<open>The environment in which every call succeeds at once; it instantiates the theorems below.\<close>

definition calm_env :: os_env where
  "calm_env = \<lparr>ev_open_err = (\<lambda>_. False), ev_write = (\<lambda>_. Wrote 4096),
     ev_mmap_ok = (\<lambda>_ _. True), ev_alloc_ok = (\<lambda>_ _. True), ev_junk = (\<lambda>_ _. 0xAA),
     ev_dir_err = (\<lambda>_. False), ev_fread = (\<lambda>_. 4096), ev_fwrite = (\<lambda>_. 4096), ev_fuel = 100\<rparr>"

section \<open>Lemmas\<close>

lemma node_at_tick [simp]: "node_at (tick s) p = node_at s p"
  by (simp add: node_at_def tick_def)

lemma node_at_set [simp]: "node_at (set_node p n s) q = (if q = p then Some n else node_at s q)"
  by (simp add: node_at_def set_node_def update_conv')

lemma node_at_del [simp]: "node_at (del_node p s) q = (if q = p then None else node_at s q)"
  by (simp add: node_at_def del_node_def delete_conv')

lemma clock_simps [simp]:
  "clock (tick s) = Suc (clock s)" "clock (set_node p n s) = clock s" "clock (del_node p s) = clock s"
  by (simp_all add: tick_def set_node_def del_node_def)

lemma clock_append_file [simp]: "clock (append_file p bs s) = clock s"
  by (simp add: append_file_def split: option.splits node.splits)

lemma node_at_append_file:
  "node_at s p = Some (Reg old) \<Longrightarrow>
   node_at (append_file p bs s) q = (if q = p then Some (Reg (old @ bs)) else node_at s q)"
  by (simp add: append_file_def)

lemma node_at_append_other: "q \<noteq> p \<Longrightarrow> node_at (append_file p bs s) q = node_at s q"
  by (simp add: append_file_def split: option.splits node.splits)

lemma length_junk_bytes [simp]: "length (junk_bytes env t n) = n"
  by (simp add: junk_bytes_def)

lemma os_mmap_length: "os_mmap env n s = (Some b, s') \<Longrightarrow> length b = unat n \<and> unat n < 2 ^ 63"
  by (auto simp: os_mmap_def split: if_splits)

lemma os_alloc_length: "os_alloc env n s = (Some b, s') \<Longrightarrow> length b = unat n \<and> unat n < 2 ^ 63"
  by (auto simp: os_alloc_def split: if_splits)

lemma os_alloc_node [simp]: "os_alloc env n s = (r, s') \<Longrightarrow> node_at s' p = node_at s p"
  by (auto simp: os_alloc_def)

lemma os_mmap_node [simp]: "os_mmap env n s = (r, s') \<Longrightarrow> node_at s' p = node_at s p"
  by (auto simp: os_mmap_def)

end
