(* ===== verification/Utils.thy ===== *)
theory Utils
  imports Os
begin

text \<open>The directory helpers of \<open>src/utils.c\<close>.\<close>

definition MAX_PATH_LENGTH :: nat where "MAX_PATH_LENGTH = 4096"

definition has_ext :: "string \<Rightarrow> string \<Rightarrow> bool" where
  "has_ext fname ext = (case strrchr (CHR ''.'') fname of None \<Rightarrow> False | Some base \<Rightarrow> base = ext)"

definition is_reg :: "node option \<Rightarrow> bool" where
  "is_reg n \<longleftrightarrow> (case n of Some (Reg _) \<Rightarrow> True | _ \<Rightarrow> False)"

text \<open>The loop over the entries of the directory: 0 when it ends, -1 when a removal fails.\<close>

fun empty_dir_loop :: "os_env \<Rightarrow> string \<Rightarrow> string list \<Rightarrow> os \<Rightarrow> int \<times> os" where
  "empty_dir_loop env path [] s = (0, s)"
| "empty_dir_loop env path (d_name # rest) s =
     (if d_name = ''.'' \<or> d_name = ''..'' then empty_dir_loop env path rest s
      else if \<not> has_ext d_name ''.bin'' then empty_dir_loop env path rest s
      else
        let filepath = snprintf_trunc MAX_PATH_LENGTH (path @ ''/'' @ d_name) in
        if is_reg (node_at s filepath) then
          (case os_remove env filepath s of
             (False, s') \<Rightarrow> (-1, s')
           | (True, s') \<Rightarrow> empty_dir_loop env path rest s')
        else empty_dir_loop env path rest s)"

definition ensure_dir_empty :: "os_env \<Rightarrow> string \<Rightarrow> os \<Rightarrow> int \<times> os" where
  "ensure_dir_empty env path s =
     (case os_opendir env path s of
        (None, s') \<Rightarrow> (-1, s')
      | (Some names, s') \<Rightarrow> empty_dir_loop env path names s')"

definition ensure_dir_exists :: "os_env \<Rightarrow> string \<Rightarrow> os \<Rightarrow> int \<times> os" where
  "ensure_dir_exists env path s =
     (case node_at s path of
        Some Dir \<Rightarrow> (0, s)
      | Some _ \<Rightarrow> (-1, s)
      | None \<Rightarrow> (case os_mkdir env path s of
                   (Inl _, s') \<Rightarrow> (-1, s')
                 | (Inr _, s') \<Rightarrow> (0, s')))"

section \<open>Lemmas\<close>

lemma has_ext_iff:
  "has_ext f (CHR ''.'' # e) \<longleftrightarrow> CHR ''.'' \<notin> set e \<and> (\<exists>pre. f = pre @ CHR ''.'' # e)"
proof
  assume "has_ext f (CHR ''.'' # e)"
  then have "strrchr (CHR ''.'') f = Some (CHR ''.'' # e)"
    by (auto simp: has_ext_def split: option.splits)
  from strrchr_Some [OF this] show "CHR ''.'' \<notin> set e \<and> (\<exists>pre. f = pre @ CHR ''.'' # e)" by auto
next
  assume "CHR ''.'' \<notin> set e \<and> (\<exists>pre. f = pre @ CHR ''.'' # e)"
  then obtain pre where "CHR ''.'' \<notin> set e" "f = pre @ CHR ''.'' # e" by blast
  then show "has_ext f (CHR ''.'' # e)" by (simp add: has_ext_def strrchr_split)
qed

lemma os_remove_node:
  "os_remove env p s = (r, s') \<Longrightarrow>
   node_at s' q = (if r \<and> q = p then None else node_at s q)"
  by (auto simp: os_remove_def split: if_splits)

text \<open>
  One round of the loop, on a name whose path fits the path buffer: it skips the name, removes the
  file, or fails to.
\<close>

lemma empty_dir_loop_cases:
  assumes run: "empty_dir_loop env path (d # rest) s = (r, s')"
    and fits: "length (path @ ''/'' @ d) < MAX_PATH_LENGTH"
  obtains (skip) "\<not> has_ext d ''.bin'' \<or> \<not> is_reg (node_at s (path @ ''/'' @ d))"
      and "empty_dir_loop env path rest s = (r, s')"
  | (fail) "r = -1" and "os_remove env (path @ ''/'' @ d) s = (False, s')"
  | (remove) s1 where "has_ext d ''.bin''" and "is_reg (node_at s (path @ ''/'' @ d))"
      and "os_remove env (path @ ''/'' @ d) s = (True, s1)"
      and "empty_dir_loop env path rest s1 = (r, s')"
proof -
  have dots: "\<not> has_ext ''.'' ''.bin''" "\<not> has_ext ''..'' ''.bin''"
    by (simp_all add: has_ext_def)
  note trunc = snprintf_fits [OF fits, simplified]
  show ?thesis
  proof (cases "has_ext d ''.bin'' \<and> is_reg (node_at s (path @ ''/'' @ d))")
    case False
    with run dots show ?thesis
      by (intro skip) (auto simp: trunc Let_def split: if_splits)
  next
    case True
    then have "d \<noteq> ''.''" "d \<noteq> ''..''" using dots by auto
    with True run show ?thesis
      by (cases "os_remove env (path @ ''/'' @ d) s"; cases "fst (os_remove env (path @ ''/'' @ d) s)")
         (auto simp: trunc Let_def intro: fail remove)
  qed
qed

lemma empty_dir_loop_frame:
  assumes "empty_dir_loop env path names s = (r, s')"
    and "\<forall>n \<in> set names. length (path @ ''/'' @ n) < MAX_PATH_LENGTH"
  shows "node_at s' q = node_at s q \<or>
         (node_at s' q = None \<and> is_reg (node_at s q) \<and>
          (\<exists>n \<in> set names. q = path @ ''/'' @ n \<and> has_ext n ''.bin''))"
  using assms
proof (induction names arbitrary: s)
  case (Cons d rest)
  from Cons.prems(2) have fits: "length (path @ ''/'' @ d) < MAX_PATH_LENGTH"
    and fits_rest: "\<forall>n \<in> set rest. length (path @ ''/'' @ n) < MAX_PATH_LENGTH" by simp_all
  from Cons.prems(1) fits show ?case
  proof (cases rule: empty_dir_loop_cases)
    case skip
    with Cons.IH [OF skip(2) fits_rest] show ?thesis by auto
  next
    case fail
    with os_remove_node [OF fail(2), of q] show ?thesis by simp
  next
    case (remove s1)
    from Cons.IH [OF remove(4) fits_rest] os_remove_node [OF remove(3), of q] remove(1,2)
    show ?thesis by (cases "q = path @ ''/'' @ d") (auto simp: is_reg_def)
  qed
qed simp

lemma empty_dir_loop_done:
  assumes "empty_dir_loop env path names s = (0, s')"
    and "\<forall>n \<in> set names. length (path @ ''/'' @ n) < MAX_PATH_LENGTH"
    and "n \<in> set names" and "has_ext n ''.bin''"
  shows "\<not> is_reg (node_at s' (path @ ''/'' @ n))"
  using assms
proof (induction names arbitrary: s)
  case (Cons d rest)
  from Cons.prems(2) have fits: "length (path @ ''/'' @ d) < MAX_PATH_LENGTH"
    and fits_rest: "\<forall>n \<in> set rest. length (path @ ''/'' @ n) < MAX_PATH_LENGTH" by simp_all
  from Cons.prems(1) fits show ?case
  proof (cases rule: empty_dir_loop_cases)
    case skip
    show ?thesis
    proof (cases "n \<in> set rest")
      case True
      with Cons.IH [OF skip(2) fits_rest] Cons.prems(4) show ?thesis by blast
    next
      case False
      with Cons.prems skip(1) have "\<not> is_reg (node_at s (path @ ''/'' @ n))" by auto
      with empty_dir_loop_frame [OF skip(2) fits_rest, of "path @ ''/'' @ n"] show ?thesis
        by (auto simp: is_reg_def)
    qed
  next
    case (remove s1)
    show ?thesis
    proof (cases "n \<in> set rest")
      case True
      with Cons.IH [OF remove(4) fits_rest] Cons.prems(4) show ?thesis by blast
    next
      case False
      with Cons.prems(3) os_remove_node [OF remove(3), of "path @ ''/'' @ n"]
      have "node_at s1 (path @ ''/'' @ n) = None" by simp
      with empty_dir_loop_frame [OF remove(4) fits_rest, of "path @ ''/'' @ n"] show ?thesis
        by (auto simp: is_reg_def)
    qed
  qed simp
qed simp

lemma os_opendir_names:
  assumes "os_opendir env p s = (Some names, s')"
  shows "n \<in> set names \<longleftrightarrow> n = ''.'' \<or> n = ''..'' \<or>
     (CHR ''/'' \<notin> set n \<and> node_at s (p @ ''/'' @ n) \<noteq> None)"
    and "node_at s' q = node_at s q"
    and "node_at s p = Some Dir"
proof -
  from assms have ns: "names = [''.'', ''..''] @ [drop (length p + 1) q. q \<leftarrow> remdups (map fst (fs s)),
      starts_with (p @ ''/'') q \<and> CHR ''/'' \<notin> set (drop (length p + 1) q)]"
    and dir: "node_at s p = Some Dir" and s': "s' = tick s"
    by (auto simp: os_opendir_def split: if_splits)
  have "(\<exists>q \<in> set (map fst (fs s)). starts_with (p @ ''/'') q \<and> CHR ''/'' \<notin> set (drop (length p + 1) q)
      \<and> n = drop (length p + 1) q) \<longleftrightarrow> CHR ''/'' \<notin> set n \<and> p @ ''/'' @ n \<in> set (map fst (fs s))"
    by (force simp: starts_with_iff)
  moreover have "p @ ''/'' @ n \<in> set (map fst (fs s)) \<longleftrightarrow> node_at s (p @ ''/'' @ n) \<noteq> None"
    by (simp add: node_at_def map_of_eq_None_iff)
  ultimately show "n \<in> set names \<longleftrightarrow> n = ''.'' \<or> n = ''..'' \<or>
     (CHR ''/'' \<notin> set n \<and> node_at s (p @ ''/'' @ n) \<noteq> None)"
    by (auto simp: ns)
  show "node_at s' q = node_at s q" by (simp add: s')
  show "node_at s p = Some Dir" by (rule dir)
qed

text \<open>The contract of \<open>ensure_dir_empty\<close> as its callers use it.\<close>

lemma ensure_dir_empty_spec:
  assumes run: "ensure_dir_empty env p s = (0, s')"
    and short: "\<forall>q. node_at s q \<noteq> None \<longrightarrow> length q < MAX_PATH_LENGTH"
    and len: "length p + 3 < MAX_PATH_LENGTH"
  shows "(\<forall>n. CHR ''/'' \<notin> set n \<and> has_ext n ''.bin'' \<longrightarrow> \<not> is_reg (node_at s' (p @ ''/'' @ n)))
       \<and> (\<forall>q. node_at s' q = node_at s q \<or>
              (node_at s' q = None \<and> is_reg (node_at s q) \<and>
               (\<exists>n. q = p @ ''/'' @ n \<and> CHR ''/'' \<notin> set n \<and> has_ext n ''.bin'')))"
proof -
  from run obtain names s1 where op: "os_opendir env p s = (Some names, s1)"
    and loop: "empty_dir_loop env p names s1 = (0, s')"
    by (auto simp: ensure_dir_empty_def split: prod.splits option.splits)
  note names = os_opendir_names [OF op]
  have fits: "\<forall>n \<in> set names. length (p @ ''/'' @ n) < MAX_PATH_LENGTH"
  proof
    fix n assume "n \<in> set names"
    then consider "n = ''.''" | "n = ''..''" | "node_at s (p @ ''/'' @ n) \<noteq> None"
      using names(1) [of n] by blast
    then show "length (p @ ''/'' @ n) < MAX_PATH_LENGTH"
    proof cases
      case 3
      with short show ?thesis by blast
    qed (use len in simp_all)
  qed
  note frame = empty_dir_loop_frame [OF loop fits]
  have dots: "\<not> has_ext ''.'' ''.bin''" "\<not> has_ext ''..'' ''.bin''"
    by (simp_all add: has_ext_def)
  have "\<not> is_reg (node_at s' (p @ ''/'' @ n))" if "CHR ''/'' \<notin> set n" "has_ext n ''.bin''" for n
  proof (cases "n \<in> set names")
    case True
    with empty_dir_loop_done [OF loop fits] that show ?thesis by blast
  next
    case False
    with names(1) [of n] that have "node_at s (p @ ''/'' @ n) = None" by blast
    with frame [of "p @ ''/'' @ n"] names(2) [of "p @ ''/'' @ n"] show ?thesis by (auto simp: is_reg_def)
  qed
  moreover have "node_at s' q = node_at s q \<or>
       (node_at s' q = None \<and> is_reg (node_at s q) \<and>
        (\<exists>n. q = p @ ''/'' @ n \<and> CHR ''/'' \<notin> set n \<and> has_ext n ''.bin''))" for q
  proof -
    have "CHR ''/'' \<notin> set n" if "n \<in> set names" "has_ext n ''.bin''" for n
      using that dots names(1) [of n] by auto
    with frame [of q] names(2) [of q] show ?thesis by auto
  qed
  ultimately show ?thesis by blast
qed

section \<open>Properties\<close>



end
