(* ===== verification/Config.thy ===== *)
theory Config
  imports Utils
begin

text \<open>
  The global configuration of \<open>src/config.c\<close>: its variables, the module initialiser that reads the
  environment variables, and the setters and getters.  The name of a fragment's file, which the
  writer prints from the configured pattern, is here too.
\<close>

record config =
  max_file_count :: u32
  trace_size :: u64
  disable_writes :: bool
  path :: string
  pattern :: string

definition DEFAULT_PATH_SIZE :: nat where "DEFAULT_PATH_SIZE = 128"

definition COLDTRACE_DEFAULT_TRACE_SIZE :: u64 where "COLDTRACE_DEFAULT_TRACE_SIZE = 2097152"

definition COLDTRACE_FILE_SUFFIX :: string where "COLDTRACE_FILE_SUFFIX = ''/freezer_log_%d_%d.bin''"

definition initial_config :: config where
  "initial_config = \<lparr>max_file_count = -1, trace_size = COLDTRACE_DEFAULT_TRACE_SIZE,
     disable_writes = False, path = '''', pattern = ''''\<rparr>"

text \<open>
  The two buffers are 128 bytes long; \<open>sizeof(COLDTRACE_FILE_SUFFIX)\<close> counts the terminating NUL.
\<close>

definition coldtrace_set_path :: "string \<Rightarrow> config \<Rightarrow> bool \<times> config" where
  "coldtrace_set_path p c =
     (if DEFAULT_PATH_SIZE - (length COLDTRACE_FILE_SUFFIX + 1) \<le> length p then (False, c)
      else (True, c\<lparr>path := p, pattern := p @ COLDTRACE_FILE_SUFFIX\<rparr>))"

definition coldtrace_disable_writes :: "config \<Rightarrow> config" where
  "coldtrace_disable_writes c = c\<lparr>disable_writes := True\<rparr>"

definition coldtrace_set_trace_size :: "u64 \<Rightarrow> config \<Rightarrow> config" where
  "coldtrace_set_trace_size n c = c\<lparr>trace_size := n\<rparr>"

definition coldtrace_set_max :: "u32 \<Rightarrow> config \<Rightarrow> config" where
  "coldtrace_set_max m c = c\<lparr>max_file_count := m\<rparr>"

definition coldtrace_get_path :: "config \<Rightarrow> string" where "coldtrace_get_path c = path c"
definition coldtrace_get_file_pattern :: "config \<Rightarrow> string" where "coldtrace_get_file_pattern c = pattern c"
definition coldtrace_writes_disabled :: "config \<Rightarrow> bool" where "coldtrace_writes_disabled c = disable_writes c"
definition coldtrace_get_trace_size :: "config \<Rightarrow> u64" where "coldtrace_get_trace_size c = trace_size c"
definition coldtrace_get_max :: "config \<Rightarrow> u32" where "coldtrace_get_max c = max_file_count c"

lemmas config_getters [simp] = coldtrace_get_path_def coldtrace_get_file_pattern_def
  coldtrace_writes_disabled_def coldtrace_get_trace_size_def coldtrace_get_max_def

text \<open>The module initialiser.  \<open>getenv\<close> gives the environment variables of the process.\<close>

definition init_limits :: "(string \<Rightarrow> string option) \<Rightarrow> config \<Rightarrow> config" where
  "init_limits getenv c0 =
     (let c1 = (case getenv ''COLDTRACE_MAX_FILES'' of
                  Some v \<Rightarrow> coldtrace_set_max (ucast (strtoul v)) c0 | None \<Rightarrow> c0);
          c2 = (case getenv ''COLDTRACE_DISABLE_WRITES'' of
                  Some v \<Rightarrow> if v = ''yes'' \<or> v = ''true'' then coldtrace_disable_writes c1 else c1
                | None \<Rightarrow> c1)
      in case getenv ''COLDTRACE_TRACE_SIZE'' of
           Some v \<Rightarrow> coldtrace_set_trace_size (strtoul v) c2 | None \<Rightarrow> c2)"

definition config_init :: "os_env \<Rightarrow> (string \<Rightarrow> string option) \<Rightarrow> config \<Rightarrow> os \<Rightarrow> config \<times> os" where
  "config_init env getenv c0 s =
     (let c = init_limits getenv c0 in
      case getenv ''COLDTRACE_PATH'' of
        None \<Rightarrow> (coldtrace_disable_writes c, s)
      | Some var \<Rightarrow>
          (case coldtrace_set_path var c of
             (False, c1) \<Rightarrow> (coldtrace_disable_writes c1, s)
           | (True, c1) \<Rightarrow>
               (case ensure_dir_exists env var s of
                  (r, s1) \<Rightarrow>
                    if r \<noteq> 0 then (coldtrace_disable_writes c1, s1)
                    else if getenv ''COLDTRACE_DISABLE_CLEANUP'' = None then
                      (case ensure_dir_empty env var s1 of
                         (r', s2) \<Rightarrow> if r' \<noteq> 0 then (coldtrace_disable_writes c1, s2) else (c1, s2))
                    else (c1, s1))))"

section \<open>File names\<close>

text \<open>
  The statements \<open>char file_name[strlen(pattern) + FORMAT_EXPANSION_SPACE]\<close> and
  \<open>sprintf(file_name, pattern, tid, enumerator)\<close> of the writer.  Printing more characters than the
  array holds, the terminating NUL included, leaves the array.
\<close>

definition FORMAT_EXPANSION_SPACE :: nat where "FORMAT_EXPANSION_SPACE = 20"

definition format_file_name :: "config \<Rightarrow> u64 \<Rightarrow> u32 \<Rightarrow> string res" where
  "format_file_name c tid enumerator =
     bindR (c_sprintf (coldtrace_get_file_pattern c) [ucast tid, enumerator]) (\<lambda>s.
       if length s + 1 \<le> length (coldtrace_get_file_pattern c) + FORMAT_EXPANSION_SPACE
       then Inr s else Inl Out_Of_Bounds)"

text \<open>The name meant by the pattern.\<close>

definition fragment_name :: "string \<Rightarrow> u32 \<Rightarrow> u32 \<Rightarrow> string" where
  "fragment_name p t e =
     p @ ''/freezer_log_'' @ dec_int (sint t) @ ''_'' @ dec_int (sint e) @ ''.bin''"

text \<open>A configuration as a successful \<open>coldtrace_set_path\<close> leaves it, with a path free of percent signs.\<close>

definition config_path_ok :: "config \<Rightarrow> bool" where
  "config_path_ok c \<longleftrightarrow> pattern c = path c @ COLDTRACE_FILE_SUFFIX \<and> CHR ''%'' \<notin> set (path c) \<and>
     length (path c) < DEFAULT_PATH_SIZE"

section \<open>Lemmas\<close>

lemma c_sprintf_suffix:
  "c_sprintf COLDTRACE_FILE_SUFFIX [t, e] =
     Inr (''/freezer_log_'' @ dec_int (sint t) @ ''_'' @ dec_int (sint e) @ ''.bin'')"
  by (simp add: COLDTRACE_FILE_SUFFIX_def)

lemma length_suffix: "length COLDTRACE_FILE_SUFFIX = 22"
  by (simp add: COLDTRACE_FILE_SUFFIX_def)

lemma format_file_name_ok:
  assumes "config_path_ok c"
  shows "format_file_name c tid en = Inr (fragment_name (path c) (ucast tid) en)"
proof -
  have pat: "pattern c = path c @ COLDTRACE_FILE_SUFFIX" and "CHR ''%'' \<notin> set (path c)"
    using assms by (simp_all add: config_path_ok_def)
  then have "c_sprintf (pattern c) [ucast tid, en] = Inr (fragment_name (path c) (ucast tid) en)"
    by (simp add: c_sprintf_plain c_sprintf_suffix fragment_name_def)
  moreover have "length (fragment_name (path c) (ucast tid) en) + 1 \<le> length (pattern c) + FORMAT_EXPANSION_SPACE"
    using length_dec_int_u32 [of "ucast tid"] length_dec_int_u32 [of en]
    by (simp add: fragment_name_def FORMAT_EXPANSION_SPACE_def pat length_suffix)
  ultimately show ?thesis by (simp add: format_file_name_def)
qed

lemma append_sep_inject:
  assumes "a @ c # b = a' @ c # b'" and "c \<notin> set a" and "c \<notin> set a'"
  shows "a = a' \<and> b = b'"
  using assms
proof (induction a arbitrary: a')
  case Nil
  then show ?case by (cases a') auto
next
  case (Cons x a)
  then show ?case by (cases a') auto
qed

lemma fragment_name_inject:
  "fragment_name p t e = fragment_name p t' e' \<longleftrightarrow> t = t' \<and> e = e'"
proof
  assume "fragment_name p t e = fragment_name p t' e'"
  then have eq: "dec_int (sint t) @ CHR ''_'' # dec_int (sint e) @ CHR ''.'' # ''bin'' =
    dec_int (sint t') @ CHR ''_'' # dec_int (sint e') @ CHR ''.'' # ''bin''"
    by (simp add: fragment_name_def)
  have "dec_int (sint t) = dec_int (sint t') \<and>
      dec_int (sint e) @ CHR ''.'' # ''bin'' = dec_int (sint e') @ CHR ''.'' # ''bin''"
    using append_sep_inject [OF eq] dec_int_no_underscore by blast
  then have "sint t = sint t' \<and> sint e = sint e'"
    by (auto dest: append_sep_inject simp: dec_int_no_dot)
  then show "t = t' \<and> e = e'" by (auto intro: signed_word_eqI)
qed simp

lemma has_ext_fragment_name: "has_ext (''freezer_log_'' @ dec_int i @ ''_'' @ dec_int j @ ''.bin'') ''.bin''"
proof -
  have "\<exists>pre. ''freezer_log_'' @ dec_int i @ ''_'' @ dec_int j @ ''.bin'' = pre @ CHR ''.'' # ''bin''"
    by (rule exI [of _ "''freezer_log_'' @ dec_int i @ ''_'' @ dec_int j"]) simp
  then show ?thesis using has_ext_iff [of _ "''bin''"] by simp
qed

section \<open>Properties\<close>

text \<open>
  A path is accepted exactly when the path and the pattern made from it fit their 128-byte
  buffers with room to spare; then the pattern is the path followed by the file suffix, and an
  accepted path of any length leaves the terminating NUL inside both buffers.  A path that is
  refused leaves the configuration as it was.
\<close>

theorem set_path_fits:
  "coldtrace_set_path p c =
     (if length p < 105 then (True, c\<lparr>path := p, pattern := p @ COLDTRACE_FILE_SUFFIX\<rparr>) else (False, c))
   \<and> (fst (coldtrace_set_path p c) \<longleftrightarrow> length (p @ COLDTRACE_FILE_SUFFIX) + 1 < DEFAULT_PATH_SIZE)"
  by (auto simp: coldtrace_set_path_def length_suffix DEFAULT_PATH_SIZE_def)






lemma dir_exists_effect:
  assumes "ensure_dir_exists env p s = (0, s1)"
  shows "node_at s1 p = Some Dir" "q \<noteq> p \<Longrightarrow> node_at s1 q = node_at s q"
  using assms by (auto simp: ensure_dir_exists_def os_mkdir_def split: option.splits node.splits if_splits)

lemma cleaned_dir:
  assumes em: "ensure_dir_empty env p s1 = (0, s2)" and dir: "node_at s1 p = Some Dir" and len: "length p < 105"
    and short: "\<forall>q. node_at s1 q \<noteq> None \<longrightarrow> length q < MAX_PATH_LENGTH"
  shows "node_at s2 p = Some Dir" "\<not> is_reg (node_at s2 (fragment_name p t e))"
proof -
  have "length p + 3 < MAX_PATH_LENGTH" using len by (simp add: MAX_PATH_LENGTH_def)
  from ensure_dir_empty_spec [OF em short this]
  have emp: "\<forall>n. CHR ''/'' \<notin> set n \<and> has_ext n ''.bin'' \<longrightarrow> \<not> is_reg (node_at s2 (p @ ''/'' @ n))"
    and keep: "node_at s2 p = node_at s1 p \<or> is_reg (node_at s1 p)" by blast+
  show "node_at s2 p = Some Dir" using keep dir by (simp add: is_reg_def)
  let ?n = "''freezer_log_'' @ dec_int (sint t) @ ''_'' @ dec_int (sint e) @ ''.bin''"
  have "CHR ''/'' \<notin> set ?n" by (simp add: dec_int_no_slash)
  with emp has_ext_fragment_name [of "sint t" "sint e"] have "\<not> is_reg (node_at s2 (p @ ''/'' @ ?n))" by blast
  then show "\<not> is_reg (node_at s2 (fragment_name p t e))" by (simp add: fragment_name_def)
qed



end
