(* ===== verification/Lz4.thy ===== *)
theory Lz4
  imports Prelude
begin

text \<open>
  The block compressor of \<open>deps/lz4/lz4.c\<close> as the writer calls it, \<open>LZ4_compress_fast\<close>, on a
  little-endian 64-bit machine, and the plain block decoder of the same file.

  The source is a list of bytes and a pointer into it is a position.  The directives that
  \<open>LZ4_compress_fast\<close> passes down as constants are fixed here: no dictionary, a fresh hash table
  (so \<open>startIndex\<close> is 0), and the output directives \<open>notLimited\<close> and \<open>limitedOutput\<close>.  The bytes
  written to the destination are the list \<open>out\<close>; the length of \<open>out\<close> is the pointer \<open>op\<close>.
\<close>

section \<open>Constants\<close>

definition MINMATCH :: nat where "MINMATCH = 4"
definition LASTLITERALS :: nat where "LASTLITERALS = 5"
definition MFLIMIT :: nat where "MFLIMIT = 12"
definition LZ4_minLength :: nat where "LZ4_minLength = MFLIMIT + 1"
definition LZ4_DISTANCE_MAX :: nat where "LZ4_DISTANCE_MAX = 65535"
definition ML_BITS :: nat where "ML_BITS = 4"
definition ML_MASK :: nat where "ML_MASK = 15"
definition RUN_MASK :: nat where "RUN_MASK = 15"
definition LZ4_64Klimit :: nat where "LZ4_64Klimit = 65536 + (MFLIMIT - 1)"
definition LZ4_skipTrigger :: nat where "LZ4_skipTrigger = 6"
definition LZ4_HASHLOG :: nat where "LZ4_HASHLOG = 12"
definition LZ4_MAX_INPUT_SIZE :: nat where "LZ4_MAX_INPUT_SIZE = 0x7E000000"
definition LZ4_ACCELERATION_DEFAULT :: nat where "LZ4_ACCELERATION_DEFAULT = 1"
definition LZ4_ACCELERATION_MAX :: nat where "LZ4_ACCELERATION_MAX = 65537"

lemmas lz4_consts = MINMATCH_def LASTLITERALS_def MFLIMIT_def LZ4_minLength_def
  LZ4_DISTANCE_MAX_def ML_BITS_def ML_MASK_def RUN_MASK_def LZ4_64Klimit_def LZ4_skipTrigger_def
  LZ4_HASHLOG_def LZ4_MAX_INPUT_SIZE_def LZ4_ACCELERATION_DEFAULT_def LZ4_ACCELERATION_MAX_def

datatype tableType = byU32 | byU16
datatype limitedOutput_directive = notLimited | limitedOutput

type_synonym hash_table = "u32 \<Rightarrow> nat"

section \<open>Reading\<close>

definition LZ4_read16 :: "bytes \<Rightarrow> nat \<Rightarrow> u16" where "LZ4_read16 src p = le_word (slice p 2 src)"
definition LZ4_read32 :: "bytes \<Rightarrow> nat \<Rightarrow> u32" where "LZ4_read32 src p = le_word (slice p 4 src)"
definition LZ4_read_ARCH :: "bytes \<Rightarrow> nat \<Rightarrow> u64" where "LZ4_read_ARCH src p = le_word (slice p 8 src)"

section \<open>Counting common bytes\<close>

text \<open>The number of trailing zero bits, \<open>__builtin_ctzll\<close>; 64 stands for the undefined result on 0.\<close>

primrec ctz_from :: "nat \<Rightarrow> u64 \<Rightarrow> nat" where
  "ctz_from 0 v = 0"
| "ctz_from (Suc k) v = (if bit v 0 then 0 else Suc (ctz_from k (drop_bit 1 v)))"

definition LZ4_NbCommonBytes :: "u64 \<Rightarrow> nat" where
  "LZ4_NbCommonBytes v = ctz_from 64 v div 8"

text \<open>The loop of \<open>LZ4_count\<close> and the four, two and one byte tests after it; returns the final \<open>pIn\<close>.\<close>

definition LZ4_count_tail :: "bytes \<Rightarrow> nat \<Rightarrow> nat \<Rightarrow> nat \<Rightarrow> nat" where
  "LZ4_count_tail src pIn0 pMatch0 pInLimit =
     (let (pIn1, pMatch1) =
            (if pIn0 + 3 < pInLimit \<and> LZ4_read32 src pMatch0 = LZ4_read32 src pIn0
             then (pIn0 + 4, pMatch0 + 4) else (pIn0, pMatch0));
          (pIn2, pMatch2) =
            (if pIn1 + 1 < pInLimit \<and> LZ4_read16 src pMatch1 = LZ4_read16 src pIn1
             then (pIn1 + 2, pMatch1 + 2) else (pIn1, pMatch1))
      in if pIn2 < pInLimit \<and> src ! pMatch2 = src ! pIn2 then pIn2 + 1 else pIn2)"

function LZ4_count_loop :: "bytes \<Rightarrow> nat \<Rightarrow> nat \<Rightarrow> nat \<Rightarrow> nat" where
  "LZ4_count_loop src pIn pMatch pInLimit =
     (if pIn + 7 < pInLimit then
        (let df = LZ4_read_ARCH src pMatch XOR LZ4_read_ARCH src pIn in
         if df = 0 then LZ4_count_loop src (pIn + 8) (pMatch + 8) pInLimit
         else pIn + LZ4_NbCommonBytes df)
      else LZ4_count_tail src pIn pMatch pInLimit)"
  by pat_completeness auto
termination
  by (relation "measure (\<lambda>(src, pIn, pMatch, lim). lim - pIn)") auto

definition LZ4_count :: "bytes \<Rightarrow> nat \<Rightarrow> nat \<Rightarrow> nat \<Rightarrow> nat" where
  "LZ4_count src pIn pMatch pInLimit =
     (if pIn + 7 < pInLimit then
        (let df = LZ4_read_ARCH src pMatch XOR LZ4_read_ARCH src pIn in
         if df = 0 then LZ4_count_loop src (pIn + 8) (pMatch + 8) pInLimit - pIn
         else LZ4_NbCommonBytes df)
      else LZ4_count_loop src pIn pMatch pInLimit - pIn)"

section \<open>The hash table\<close>

definition LZ4_hash4 :: "u32 \<Rightarrow> tableType \<Rightarrow> u32" where
  "LZ4_hash4 sq tt =
     (if tt = byU16 then drop_bit (MINMATCH * 8 - (LZ4_HASHLOG + 1)) (sq * 2654435761)
      else drop_bit (MINMATCH * 8 - LZ4_HASHLOG) (sq * 2654435761))"

definition LZ4_hash5 :: "u64 \<Rightarrow> tableType \<Rightarrow> u32" where
  "LZ4_hash5 sq tt =
     (let hashLog = (if tt = byU16 then LZ4_HASHLOG + 1 else LZ4_HASHLOG)
      in ucast (drop_bit (64 - hashLog) (push_bit 24 sq * 889523592379)))"

definition LZ4_hashPosition :: "bytes \<Rightarrow> nat \<Rightarrow> tableType \<Rightarrow> u32" where
  "LZ4_hashPosition src p tt =
     (if tt \<noteq> byU16 then LZ4_hash5 (LZ4_read_ARCH src p) tt else LZ4_hash4 (LZ4_read32 src p) tt)"

definition LZ4_putIndexOnHash :: "nat \<Rightarrow> u32 \<Rightarrow> hash_table \<Rightarrow> tableType \<Rightarrow> hash_table" where
  "LZ4_putIndexOnHash idx h tbl tt =
     (case tt of byU32 \<Rightarrow> tbl(h := idx mod 2 ^ 32) | byU16 \<Rightarrow> tbl(h := idx mod 2 ^ 16))"

definition LZ4_getIndexOnHash :: "u32 \<Rightarrow> hash_table \<Rightarrow> tableType \<Rightarrow> nat" where
  "LZ4_getIndexOnHash h tbl tt = tbl h"

section \<open>Finding a match\<close>

text \<open>
  The search loop.  It gives the position and the match found with the updated table, or \<open>None\<close>
  for the jump to the last literals.
\<close>

function LZ4_find_match ::
  "bytes \<Rightarrow> tableType \<Rightarrow> nat \<Rightarrow> nat \<Rightarrow> nat \<Rightarrow> nat \<Rightarrow> u32 \<Rightarrow> hash_table \<Rightarrow> (nat \<times> nat \<times> hash_table) option"
where
  "LZ4_find_match src tt mflimitPlusOne forwardIp step searchMatchNb forwardH tbl =
     (let h = forwardH;
          current = forwardIp;
          matchIndex = LZ4_getIndexOnHash h tbl tt;
          ip = forwardIp;
          forwardIp' = forwardIp + step;
          step' = drop_bit LZ4_skipTrigger searchMatchNb
      in if mflimitPlusOne < forwardIp' then None
         else
           let forwardH' = LZ4_hashPosition src forwardIp' tt;
               tbl' = LZ4_putIndexOnHash current h tbl tt
           in if tt \<noteq> byU16 \<and> matchIndex + LZ4_DISTANCE_MAX < current
              then LZ4_find_match src tt mflimitPlusOne forwardIp' step' (searchMatchNb + 1) forwardH' tbl'
              else if LZ4_read32 src matchIndex = LZ4_read32 src ip then Some (ip, matchIndex, tbl')
              else LZ4_find_match src tt mflimitPlusOne forwardIp' step' (searchMatchNb + 1) forwardH' tbl')"
  by pat_completeness auto
termination
proof (relation "measures [\<lambda>(src, tt, lim, fip, step, smn, h, tbl). lim + 1 - fip,
                           \<lambda>(src, tt, lim, fip, step, smn, h, tbl). if step = 0 then (if smn < 64 then 66 - smn else 1) else 0]", goal_cases)
  case 1
  then show ?case by simp
next
  case (2 src tt lim fip step smn h tbl x xa xb xc xd xe xf xg)
  then show ?case by (cases "step = 0") (auto simp: drop_bit_eq_div lz4_consts div_eq_0_iff)
next
  case (3 src tt lim fip step smn h tbl x xa xb xc xd xe xf xg)
  then show ?case by (cases "step = 0") (auto simp: drop_bit_eq_div lz4_consts div_eq_0_iff)
qed

text \<open>Catching up: the match is extended backwards over bytes not encoded yet.\<close>

fun LZ4_catch_up_loop :: "bytes \<Rightarrow> nat \<Rightarrow> nat \<Rightarrow> nat \<Rightarrow> nat \<times> nat" where
  "LZ4_catch_up_loop src anchor ip m =
     (if anchor < ip \<and> 0 < m \<and> src ! (ip - 1) = src ! (m - 1)
      then LZ4_catch_up_loop src anchor (ip - 1) (m - 1) else (ip, m))"

declare LZ4_catch_up_loop.simps [simp del] LZ4_count_loop.simps [simp del] LZ4_find_match.simps [simp del]

definition LZ4_catch_up :: "bytes \<Rightarrow> nat \<Rightarrow> nat \<Rightarrow> nat \<Rightarrow> nat \<times> nat" where
  "LZ4_catch_up src anchor ip m =
     (if 0 < m \<and> src ! (ip - 1) = src ! (m - 1)
      then LZ4_catch_up_loop src anchor (ip - 1) (m - 1) else (ip, m))"

section \<open>Encoding\<close>

text \<open>The bytes after a saturated length nibble: \<open>for(; len >= 255; len -= 255) *op++ = 255; *op++ = len\<close>.\<close>

fun length_bytes :: "nat \<Rightarrow> bytes" where
  "length_bytes len = (if 255 \<le> len then 255 # length_bytes (len - 255) else [of_nat len])"

text \<open>The same for a match length, written four bytes at a time.\<close>

fun match_length_bytes :: "nat \<Rightarrow> bytes" where
  "match_length_bytes mc =
     (if 4 * 255 \<le> mc then [255, 255, 255, 255] @ match_length_bytes (mc - 4 * 255)
      else replicate (mc div 255) 255 @ [of_nat (mc mod 255)])"

declare length_bytes.simps [simp del] match_length_bytes.simps [simp del]

definition literal_token :: "nat \<Rightarrow> u8" where
  "literal_token litLength =
     (if RUN_MASK \<le> litLength then of_nat (RUN_MASK * 2 ^ ML_BITS) else of_nat (litLength * 2 ^ ML_BITS))"

definition literal_bytes :: "bytes \<Rightarrow> bytes" where
  "literal_bytes lits =
     (if RUN_MASK \<le> length lits then length_bytes (length lits - RUN_MASK) else []) @ lits"

text \<open>
  What follows a match: the end of the block with the position the last literals start at, the next
  match right after it, a new search, or a destination that is too small.
\<close>

datatype lz4_next =
    Fail
  | Last (lz4_anchor: nat) (lz4_out: bytes)
  | Next_Match (lz4_match: nat) (lz4_anchor: nat) (lz4_table: hash_table) (lz4_out: bytes)
  | Search (lz4_anchor: nat) (lz4_table: hash_table) (lz4_out: bytes)

text \<open>From the test for the end of the chunk to the end of the main loop: the table is filled and the
  next position is tested for a match.\<close>

definition LZ4_next_position :: "bytes \<Rightarrow> tableType \<Rightarrow> nat \<Rightarrow> hash_table \<Rightarrow> bytes \<Rightarrow> lz4_next" where
  "LZ4_next_position src tt ip tbl out =
     (let mflimitPlusOne = length src - MFLIMIT + 1
      in if mflimitPlusOne \<le> ip then Last ip out
         else
           let tbl1 = LZ4_putIndexOnHash (ip - 2) (LZ4_hashPosition src (ip - 2) tt) tbl tt;
               h = LZ4_hashPosition src ip tt;
               matchIndex = LZ4_getIndexOnHash h tbl1 tt;
               tbl2 = LZ4_putIndexOnHash ip h tbl1 tt
           in if (tt = byU16 \<or> ip \<le> matchIndex + LZ4_DISTANCE_MAX)
                 \<and> LZ4_read32 src matchIndex = LZ4_read32 src ip
              then Next_Match matchIndex ip tbl2 out
              else Search ip tbl2 out)"

text \<open>
  From the label \<open>_next_match\<close> to the end of the match.  \<open>out0\<close> is what was written before the
  token, \<open>tok\<close> the token with its literal length, and \<open>mid\<close> the bytes between token and offset.
\<close>

definition LZ4_encode_match ::
  "bytes \<Rightarrow> limitedOutput_directive \<Rightarrow> nat \<Rightarrow> tableType \<Rightarrow> nat \<Rightarrow> nat \<Rightarrow> hash_table \<Rightarrow> bytes \<Rightarrow> u8 \<Rightarrow> bytes \<Rightarrow> lz4_next"
where
  "LZ4_encode_match src dir olimit tt ip m tbl out0 tok mid =
     (let iend = length src;
          matchlimit = iend - LASTLITERALS;
          op = length out0 + 1 + length mid + 2;
          matchCode = LZ4_count src (ip + MINMATCH) (m + MINMATCH) matchlimit;
          ip' = ip + (matchCode + MINMATCH)
      in if dir = limitedOutput \<and> olimit < op + (1 + LASTLITERALS) + (matchCode + 240) div 255 then Fail
         else
           let tok' = (if ML_MASK \<le> matchCode then tok + of_nat ML_MASK else tok + of_nat matchCode);
               more = (if ML_MASK \<le> matchCode then match_length_bytes (matchCode - ML_MASK) else []);
               out' = out0 @ [tok'] @ mid @ u16_bytes (of_nat (ip - m)) @ more
           in LZ4_next_position src tt ip' tbl out')"

text \<open>From the search of a match to the copy of the literals, and on into the match.\<close>

definition LZ4_search_step ::
  "bytes \<Rightarrow> limitedOutput_directive \<Rightarrow> nat \<Rightarrow> tableType \<Rightarrow> nat \<Rightarrow> nat \<Rightarrow> hash_table \<Rightarrow> bytes \<Rightarrow> lz4_next"
where
  "LZ4_search_step src dir olimit tt acceleration anchor tbl out =
     (let mflimitPlusOne = length src - MFLIMIT + 1
      in case LZ4_find_match src tt mflimitPlusOne (anchor + 1) 1 (push_bit LZ4_skipTrigger acceleration)
                (LZ4_hashPosition src (anchor + 1) tt) tbl of
           None \<Rightarrow> Last anchor out
         | Some (ip0, m0, tbl') \<Rightarrow>
             let (ip, m) = LZ4_catch_up src anchor ip0 m0;
                 litLength = ip - anchor;
                 op = length out + 1
             in if dir = limitedOutput \<and>
                   olimit < op + litLength + (2 + 1 + LASTLITERALS) + litLength div 255
                then Fail
                else LZ4_encode_match src dir olimit tt ip m tbl' out (literal_token litLength)
                       (literal_bytes (slice anchor litLength src)))"

text \<open>The bytes of the last literals, or \<open>None\<close> when they do not fit a limited output.\<close>

definition LZ4_last_literals ::
  "bytes \<Rightarrow> limitedOutput_directive \<Rightarrow> nat \<Rightarrow> nat \<Rightarrow> bytes \<Rightarrow> bytes option"
where
  "LZ4_last_literals src dir olimit anchor out =
     (let lastRun = length src - anchor
      in if dir = limitedOutput \<and> olimit < length out + lastRun + 1 + (lastRun + 255 - RUN_MASK) div 255
         then None
         else Some (out @ [literal_token lastRun] @ literal_bytes (slice anchor lastRun src)))"

section \<open>Progress of the main loop\<close>

lemma find_match_forward:
  "LZ4_find_match src tt lim fip step smn h tbl = Some (ip, m, tbl') \<Longrightarrow> fip \<le> ip"
proof (induction src tt lim fip step smn h tbl rule: LZ4_find_match.induct)
  case (1 src tt lim fip step smn h tbl)
  show ?case
    using 1(3) 1(1) [OF refl refl refl refl refl refl _ refl refl]
      1(2) [OF refl refl refl refl refl refl _ refl refl]
    by (subst (asm) LZ4_find_match.simps) (fastforce simp: Let_def split: if_splits)
qed

lemma catch_up_loop_bounds:
  "anchor \<le> ip \<Longrightarrow> LZ4_catch_up_loop src anchor ip m = (ip', m') \<Longrightarrow> anchor \<le> ip' \<and> ip' \<le> ip"
proof (induction src anchor ip m rule: LZ4_catch_up_loop.induct)
  case (1 src anchor ip m)
  show ?case
    using 1(2,3) 1(1)
    by (cases "anchor < ip \<and> 0 < m \<and> src ! (ip - 1) = src ! (m - 1)")
       (force simp: LZ4_catch_up_loop.simps [of src anchor ip m])+
qed

lemma catch_up_bounds:
  assumes "anchor < ip" "LZ4_catch_up src anchor ip m = (ip', m')"
  shows "anchor \<le> ip' \<and> ip' \<le> ip"
  using assms catch_up_loop_bounds [of anchor "ip - 1" src "m - 1" ip' m']
  by (force simp: LZ4_catch_up_def split: if_splits)

text \<open>The states of the main loop are ordered by what is left of the source.\<close>

fun lz4_left :: "bytes \<Rightarrow> lz4_next \<Rightarrow> nat" where
  "lz4_left src (Next_Match m ip tbl out) = Suc (length src - ip)"
| "lz4_left src (Search anchor tbl out) = Suc (length src - anchor)"
| "lz4_left src r = 0"

lemma next_position_progress:
  assumes "LZ4_minLength \<le> length src" "ip < ip'"
  shows "lz4_left src (LZ4_next_position src tt ip' tbl out) < Suc (length src - ip)"
  using assms by (simp add: LZ4_next_position_def Let_def lz4_consts) linarith

lemma encode_match_progress:
  assumes "LZ4_minLength \<le> length src"
  shows "lz4_left src (LZ4_encode_match src dir olimit tt ip m tbl out tok mid) < Suc (length src - ip)"
  using assms by (simp add: LZ4_encode_match_def Let_def next_position_progress MINMATCH_def)

lemma search_step_progress:
  assumes "LZ4_minLength \<le> length src"
  shows "lz4_left src (LZ4_search_step src dir olimit tt acc anchor tbl out) < Suc (length src - anchor)"
proof (cases "LZ4_find_match src tt (length src - MFLIMIT + 1) (anchor + 1) 1
                (push_bit LZ4_skipTrigger acc) (LZ4_hashPosition src (anchor + 1) tt) tbl")
  case None
  then show ?thesis by (simp add: LZ4_search_step_def)
next
  case (Some r)
  then obtain ip0 m0 tbl' where r: "r = (ip0, m0, tbl')" by (cases r)
  obtain ip m where cu: "LZ4_catch_up src anchor ip0 m0 = (ip, m)" by fastforce
  have "anchor < ip0" using find_match_forward Some r by fastforce
  then have "anchor \<le> ip" using catch_up_bounds cu by blast
  then have "Suc (length src - ip) \<le> Suc (length src - anchor)" by simp
  then have step: "lz4_left src (LZ4_encode_match src dir olimit tt ip m tbl' out tok mid)
      < Suc (length src - anchor)" for tok mid
    by (rule less_le_trans [OF encode_match_progress [OF assms]])
  show ?thesis
    unfolding LZ4_search_step_def Let_def Some r option.case prod.case cu by (simp add: step)
qed

section \<open>The compressor\<close>

text \<open>The main loop, ending in the last literals; a source below \<open>LZ4_minLength\<close> never enters it.\<close>

function LZ4_main_loop ::
  "bytes \<Rightarrow> limitedOutput_directive \<Rightarrow> nat \<Rightarrow> tableType \<Rightarrow> nat \<Rightarrow> lz4_next \<Rightarrow> bytes option"
where
  "LZ4_main_loop src dir olimit tt acc st =
     (if length src < LZ4_minLength then LZ4_last_literals src dir olimit 0 []
      else case st of
        Fail \<Rightarrow> None
      | Last anchor out \<Rightarrow> LZ4_last_literals src dir olimit anchor out
      | Next_Match m ip tbl out \<Rightarrow>
          LZ4_main_loop src dir olimit tt acc (LZ4_encode_match src dir olimit tt ip m tbl out 0 [])
      | Search anchor tbl out \<Rightarrow>
          LZ4_main_loop src dir olimit tt acc (LZ4_search_step src dir olimit tt acc anchor tbl out))"
  by pat_completeness auto
termination
  by (relation "measure (\<lambda>(src, dir, olimit, tt, acc, st). lz4_left src st)")
     (simp_all add: encode_match_progress search_step_progress not_less)

declare LZ4_main_loop.simps [simp del]

definition LZ4_compress_generic_validated ::
  "bytes \<Rightarrow> nat \<Rightarrow> limitedOutput_directive \<Rightarrow> tableType \<Rightarrow> nat \<Rightarrow> bytes option"
where
  "LZ4_compress_generic_validated src maxOutputSize dir tt acc =
     LZ4_main_loop src dir maxOutputSize tt acc
       (Search 0 (LZ4_putIndexOnHash 0 (LZ4_hashPosition src 0 tt) (\<lambda>_. 0) tt) [])"

definition LZ4_compress_generic ::
  "bytes \<Rightarrow> nat \<Rightarrow> limitedOutput_directive \<Rightarrow> tableType \<Rightarrow> nat \<Rightarrow> bytes option"
where
  "LZ4_compress_generic src dstCapacity dir tt acc =
     (if LZ4_MAX_INPUT_SIZE < length src then None
      else if length src = 0 then (if dir \<noteq> notLimited \<and> dstCapacity = 0 then None else Some [0])
      else LZ4_compress_generic_validated src dstCapacity dir tt acc)"

definition LZ4_compressBound :: "int \<Rightarrow> int" where
  "LZ4_compressBound isize =
     (if isize < 0 \<or> int LZ4_MAX_INPUT_SIZE < isize then 0 else isize + isize div 255 + 16)"

definition LZ4_compress_fast_extState :: "bytes \<Rightarrow> nat \<Rightarrow> int \<Rightarrow> bytes option" where
  "LZ4_compress_fast_extState src maxOutputSize acceleration0 =
     (let acc1 = (if acceleration0 < 1 then LZ4_ACCELERATION_DEFAULT else nat acceleration0);
          acc = (if LZ4_ACCELERATION_MAX < acc1 then LZ4_ACCELERATION_MAX else acc1)
      in if LZ4_compressBound (int (length src)) \<le> int maxOutputSize
         then if length src < LZ4_64Klimit
              then LZ4_compress_generic src 0 notLimited byU16 acc
              else LZ4_compress_generic src 0 notLimited byU32 acc
         else if length src < LZ4_64Klimit
              then LZ4_compress_generic src maxOutputSize limitedOutput byU16 acc
              else LZ4_compress_generic src maxOutputSize limitedOutput byU32 acc)"

definition LZ4_compress_fast :: "bytes \<Rightarrow> nat \<Rightarrow> int \<Rightarrow> bytes option" where
  "LZ4_compress_fast src dstCapacity acceleration = LZ4_compress_fast_extState src dstCapacity acceleration"

section \<open>The decoder\<close>

text \<open>
  \<open>read_long_length_no_check\<close> and \<open>LZ4_decompress_unsafe_generic\<close> without a dictionary.  The input
  is a list that is consumed from the front; reading past its end is \<open>None\<close>, as is every \<open>return -1\<close>
  and a match at offset 0, which copies bytes that were never written.
\<close>

fun read_long_length_no_check :: "bytes \<Rightarrow> (nat \<times> bytes) option" where
  "read_long_length_no_check [] = None"
| "read_long_length_no_check (b # inp) =
     (if b = 255
      then (case read_long_length_no_check inp of None \<Rightarrow> None | Some (l, rest) \<Rightarrow> Some (255 + l, rest))
      else Some (unat b, inp))"

primrec copy_match :: "nat \<Rightarrow> nat \<Rightarrow> bytes \<Rightarrow> bytes" where
  "copy_match offset 0 op = op"
| "copy_match offset (Suc ml) op = copy_match offset ml (op @ [op ! (length op - offset)])"

definition read_length :: "nat \<Rightarrow> bytes \<Rightarrow> (nat \<times> bytes) option" where
  "read_length l inp =
     (if l = 15 then (case read_long_length_no_check inp of None \<Rightarrow> None | Some (k, rest) \<Rightarrow> Some (15 + k, rest))
      else Some (l, inp))"

text \<open>One sequence: the literals, and the match unless the block ends after them.\<close>

datatype lz4_sequence = Seq_Bad | Seq_End bytes bytes | Seq_More bytes bytes

definition decode_match :: "nat \<Rightarrow> u8 \<Rightarrow> bytes \<Rightarrow> bytes \<Rightarrow> lz4_sequence" where
  "decode_match n token inp op =
     (if length inp < 2 then Seq_Bad
      else
        let offset = unat (le_word (take 2 inp) :: u16)
        in case read_length (unat (token AND 15)) (drop 2 inp) of
             None \<Rightarrow> Seq_Bad
           | Some (ml0, inp') \<Rightarrow>
               let ml = ml0 + MINMATCH
               in if n - length op < ml then Seq_Bad
                  else if offset = 0 \<or> length op < offset then Seq_Bad
                  else
                    let op' = copy_match offset ml op
                    in if n - length op' < LASTLITERALS then Seq_Bad else Seq_More op' inp')"

definition decode_sequence :: "nat \<Rightarrow> bytes \<Rightarrow> bytes \<Rightarrow> lz4_sequence" where
  "decode_sequence n inp op =
     (case inp of
        [] \<Rightarrow> Seq_Bad
      | token # inp1 \<Rightarrow>
          (case read_length (unat (drop_bit 4 token)) inp1 of
             None \<Rightarrow> Seq_Bad
           | Some (ll, inp2) \<Rightarrow>
               if n - length op < ll \<or> length inp2 < ll then Seq_Bad
               else
                 let op' = op @ take ll inp2; inp3 = drop ll inp2
                 in if n - length op' < MFLIMIT
                    then if length op' = n then Seq_End op' inp3 else Seq_Bad
                    else decode_match n token inp3 op'))"

lemma read_long_length_shorter:
  "read_long_length_no_check inp = Some (l, rest) \<Longrightarrow> length rest < length inp"
  by (induction inp arbitrary: l) (fastforce split: if_splits option.splits)+

lemma read_length_shorter: "read_length l inp = Some (k, rest) \<Longrightarrow> length rest \<le> length inp"
  using read_long_length_shorter by (fastforce simp: read_length_def split: if_splits option.splits)

lemma decode_match_shorter:
  "decode_match n token inp op = Seq_More op' inp' \<Longrightarrow> length inp' \<le> length inp"
  using read_length_shorter [of _ "drop 2 inp"]
  by (fastforce simp: decode_match_def Let_def split: if_splits option.splits)

lemma decode_sequence_shorter:
  "decode_sequence n inp op = Seq_More op' inp' \<Longrightarrow> length inp' < length inp"
  using read_length_shorter decode_match_shorter
  by (fastforce simp: decode_sequence_def Let_def split: if_splits option.splits list.splits)

function LZ4_decompress_loop :: "nat \<Rightarrow> bytes \<Rightarrow> bytes \<Rightarrow> (bytes \<times> bytes) option" where
  "LZ4_decompress_loop n inp op =
     (case decode_sequence n inp op of
        Seq_Bad \<Rightarrow> None
      | Seq_End op' inp' \<Rightarrow> Some (op', inp')
      | Seq_More op' inp' \<Rightarrow> LZ4_decompress_loop n inp' op')"
  by pat_completeness auto
termination
  by (relation "measure (\<lambda>(n, inp, op). length inp)") (auto simp: decode_sequence_shorter)

declare LZ4_decompress_loop.simps [simp del]

text \<open>The decoded block and the number of input bytes read, the function's result.\<close>

definition LZ4_decompress_unsafe_generic :: "bytes \<Rightarrow> nat \<Rightarrow> (bytes \<times> nat) option" where
  "LZ4_decompress_unsafe_generic inp decompressedSize =
     (case LZ4_decompress_loop decompressedSize inp [] of
        None \<Rightarrow> None
      | Some (op, rest) \<Rightarrow> Some (op, length inp - length rest))"

end
