(* ===== verification/Lz4_Correct.thy ===== *)
theory Lz4_Correct
  imports Lz4
begin

text \<open>
  Correctness of the block compressor: \<open>LZ4_count\<close> computes the length of the common prefix, every
  match the compressor uses lies behind the position it is used at, decoding a compressed block gives
  the source back, and the compressed block stays within \<open>LZ4_compressBound\<close>.
\<close>

section \<open>Words as byte sequences\<close>

lemma bit_le_word_Cons:
  "bit (le_word (b # bs) :: 'a::len word) i \<longleftrightarrow>
     i < LENGTH('a) \<and> (if i < 8 then bit b i else bit (le_word bs :: 'a word) (i - 8))"
proof -
  have "\<not> bit b i" if "8 \<le> i" using that bit_imp_le_length [of b i] by auto
  then show ?thesis by (auto simp: bit_or_iff bit_push_bit_iff bit_ucast_iff)
qed

lemma bit_le_word:
  "8 * length bs \<le> LENGTH('a) \<Longrightarrow>
   bit (le_word bs :: 'a::len word) i \<longleftrightarrow> i < 8 * length bs \<and> bit (bs ! (i div 8)) (i mod 8)"
proof (induction bs arbitrary: i)
  case Nil
  then show ?case by simp
next
  case (Cons b bs)
  show ?case
  proof (cases "i < 8")
    case True
    then show ?thesis using Cons.prems by (simp add: bit_le_word_Cons del: le_word.simps)
  next
    case False
    then obtain k where k: "i = k + 8" by (metis add.commute le_Suc_ex not_le)
    have "bit (le_word (b # bs) :: 'a word) i \<longleftrightarrow> k + 8 < LENGTH('a) \<and> bit (le_word bs :: 'a word) k"
      unfolding bit_le_word_Cons k by simp
    moreover have "bit (le_word bs :: 'a word) k \<longleftrightarrow> k < 8 * length bs \<and> bit (bs ! (k div 8)) (k mod 8)"
      using Cons by simp
    moreover have "(k + 8) div 8 = Suc (k div 8)" by simp
    ultimately show ?thesis using Cons.prems k by auto
  qed
qed
lemma le_word_inject:
  assumes "length xs = length ys" "8 * length ys \<le> LENGTH('a)"
  shows "(le_word xs :: 'a::len word) = le_word ys \<longleftrightarrow> xs = ys"
proof
  assume eq: "(le_word xs :: 'a word) = le_word ys"
  show "xs = ys"
  proof (rule nth_equalityI)
    fix j assume j: "j < length xs"
    show "xs ! j = ys ! j"
    proof (rule bit_word_eqI)
      fix b assume b: "b < LENGTH(8)"
      have "bit (le_word xs :: 'a word) (8 * j + b) = bit (le_word ys :: 'a word) (8 * j + b)"
        using eq by simp
      then show "bit (xs ! j) b = bit (ys ! j) b"
        using assms j b by (simp add: bit_le_word)
    qed
  qed (rule assms)
qed simp

lemma slice_eq_iff:
  assumes "p + n \<le> length src" "q + n \<le> length src"
  shows "slice p n src = slice q n src \<longleftrightarrow> (\<forall>i<n. src ! (p + i) = src ! (q + i))"
  using assms by (auto simp: list_eq_iff_nth_eq nth_slice)

lemma read_eq_iff:
  assumes "p \<le> q"
  shows "q + 8 \<le> length src \<Longrightarrow>
           LZ4_read_ARCH src p = LZ4_read_ARCH src q \<longleftrightarrow> (\<forall>i<8. src ! (p + i) = src ! (q + i))"
    and "q + 4 \<le> length src \<Longrightarrow>
           LZ4_read32 src p = LZ4_read32 src q \<longleftrightarrow> (\<forall>i<4. src ! (p + i) = src ! (q + i))"
    and "q + 2 \<le> length src \<Longrightarrow>
           LZ4_read16 src p = LZ4_read16 src q \<longleftrightarrow> (\<forall>i<2. src ! (p + i) = src ! (q + i))"
  using assms
  by (simp_all add: LZ4_read_ARCH_def LZ4_read32_def LZ4_read16_def le_word_inject slice_eq_iff)

lemma ctz_from_eq:
  "bit v j \<Longrightarrow> j < k \<Longrightarrow> (\<And>i. i < j \<Longrightarrow> \<not> bit v i) \<Longrightarrow> ctz_from k v = j"
proof (induction k arbitrary: v j)
  case 0
  then show ?case by simp
next
  case (Suc k)
  show ?case
  proof (cases j)
    case 0
    then show ?thesis using Suc.prems by simp
  next
    case (Suc j')
    have "ctz_from k (drop_bit 1 v) = j'"
      using Suc.prems Suc by (intro Suc.IH) (auto simp: bit_simps)
    then show ?thesis using Suc.prems(3) [of 0] Suc by simp
  qed
qed

lemma word_first_diff_bit:
  assumes "a \<noteq> (b :: u8)"
  obtains k where "k < 8" "bit a k \<noteq> bit b k" "\<And>i. i < k \<Longrightarrow> bit a i = bit b i"
proof -
  let ?P = "\<lambda>k. bit a k \<noteq> bit b k"
  have ex: "\<exists>k. ?P k" using assms by (metis bit_word_eqI)
  have "(LEAST k. ?P k) < 8"
    using LeastI_ex [OF ex] bit_imp_le_length [of a "LEAST k. ?P k"] bit_imp_le_length [of b "LEAST k. ?P k"]
    by auto
  then show ?thesis
    using that [of "LEAST k. ?P k"] LeastI_ex [OF ex] not_less_Least by blast
qed

lemma NbCommonBytes_eq:
  assumes len: "length xs = 8" "length ys = 8" and j: "j < 8" "xs ! j \<noteq> ys ! j"
    and same: "\<And>i. i < j \<Longrightarrow> xs ! i = ys ! i"
  shows "LZ4_NbCommonBytes (le_word xs XOR le_word ys) = j"
proof -
  obtain k where k: "k < 8" "bit (xs ! j) k \<noteq> bit (ys ! j) k" "\<And>i. i < k \<Longrightarrow> bit (xs ! j) i = bit (ys ! j) i"
    using word_first_diff_bit [OF j(2)] by blast
  have "ctz_from 64 (le_word xs XOR le_word ys) = 8 * j + k"
  proof (rule ctz_from_eq)
    show "bit (le_word xs XOR le_word ys :: u64) (8 * j + k)"
      using k j len by (simp add: bit_xor_iff bit_le_word)
  next
    fix i assume i: "i < 8 * j + k"
    have "xs ! (i div 8) = ys ! (i div 8) \<or> (i div 8 = j \<and> i mod 8 < k)"
    proof (cases "i div 8 < j")
      case False
      then have "i div 8 = j" using i k(1) by auto
      then show ?thesis using i by (metis add_less_cancel_left mult_div_mod_eq)
    qed (simp add: same)
    then show "\<not> bit (le_word xs XOR le_word ys :: u64) i"
      using k(3) len by (auto simp: bit_xor_iff bit_le_word)
  qed (use j k in simp)
  then show ?thesis using k(1) by (simp add: LZ4_NbCommonBytes_def)
qed

section \<open>Counting common bytes\<close>

text \<open>The reference: the length of the longest common prefix of two lists.\<close>

fun common_prefix :: "'a list \<Rightarrow> 'a list \<Rightarrow> nat" where
  "common_prefix (x # xs) (y # ys) = (if x = y then Suc (common_prefix xs ys) else 0)"
| "common_prefix xs ys = 0"

lemma common_prefix_eq:
  "n \<le> length xs \<Longrightarrow> n \<le> length ys \<Longrightarrow> (\<And>i. i < n \<Longrightarrow> xs ! i = ys ! i) \<Longrightarrow>
   n = length xs \<or> n = length ys \<or> xs ! n \<noteq> ys ! n \<Longrightarrow> common_prefix xs ys = n"
proof (induction xs ys arbitrary: n rule: common_prefix.induct)
  case (1 x xs y ys)
  show ?case
  proof (cases n)
    case 0
    then show ?thesis using 1(5) by auto
  next
    case (Suc k)
    have "x = y" using 1(4) [of 0] Suc by simp
    moreover have "common_prefix xs ys = k"
      using 1(1) [OF \<open>x = y\<close>, of k] 1(2,3,5) 1(4) [of "Suc _"] Suc by fastforce
    ultimately show ?thesis using Suc by simp
  qed
qed auto

text \<open>\<open>r\<close> is where the bytes from \<open>pIn\<close> stop agreeing with those from \<open>pMatch\<close>, at most at \<open>lim\<close>.\<close>

definition match_end :: "bytes \<Rightarrow> nat \<Rightarrow> nat \<Rightarrow> nat \<Rightarrow> nat \<Rightarrow> bool" where
  "match_end src pIn pMatch lim r \<longleftrightarrow>
     pIn \<le> r \<and> r \<le> lim \<and> (\<forall>i < r - pIn. src ! (pMatch + i) = src ! (pIn + i)) \<and>
     (r < lim \<longrightarrow> src ! (pMatch + (r - pIn)) \<noteq> src ! r)"

lemma match_end_skip:
  assumes "\<And>i. i < k \<Longrightarrow> src ! (pMatch + i) = src ! (pIn + i)"
    and "match_end src (pIn + k) (pMatch + k) lim r"
  shows "match_end src pIn pMatch lim r"
proof -
  have r: "pIn + k \<le> r" "r \<le> lim" using assms(2) by (auto simp: match_end_def)
  have "src ! (pMatch + i) = src ! (pIn + i)" if "i < r - pIn" for i
  proof (cases "i < k")
    case False
    then obtain j where j: "i = k + j" by (metis le_Suc_ex not_le)
    have "j < r - (pIn + k)" using that j by simp
    then show ?thesis using assms(2) j by (simp add: match_end_def ac_simps)
  qed (rule assms(1))
  moreover have "pMatch + (r - pIn) = pMatch + k + (r - (pIn + k))" using r by simp
  ultimately show ?thesis using assms(2) r by (simp add: match_end_def)
qed

lemma match_end_stop: "pIn \<le> lim \<Longrightarrow> (pIn < lim \<Longrightarrow> src ! pMatch \<noteq> src ! pIn) \<Longrightarrow> match_end src pIn pMatch lim pIn"
  by (simp add: match_end_def)

lemma match_end_count:
  assumes "match_end src pIn pMatch lim r" "lim \<le> length src" "pMatch \<le> pIn"
  shows "common_prefix (slice pMatch (lim - pIn) src) (slice pIn (lim - pIn) src) = r - pIn"
proof (rule common_prefix_eq)
  show "r - pIn = length (slice pMatch (lim - pIn) src) \<or> r - pIn = length (slice pIn (lim - pIn) src) \<or>
        slice pMatch (lim - pIn) src ! (r - pIn) \<noteq> slice pIn (lim - pIn) src ! (r - pIn)"
    using assms by (cases "r = lim") (auto simp: match_end_def nth_slice)
qed (use assms in \<open>auto simp: match_end_def nth_slice\<close>)

lemma all_less_numeral:
  "(\<forall>i<2::nat. P i) \<longleftrightarrow> P 0 \<and> P 1"
  "(\<forall>i<4::nat. P i) \<longleftrightarrow> P 0 \<and> P 1 \<and> P 2 \<and> P 3"
  by (auto simp: less_Suc_eq numeral_eq_Suc)

text \<open>The one, two and four byte tests, each with what the tests before it leave open.\<close>

lemma tail_one:
  assumes "p \<le> lim" "lim \<le> p + 1 \<or> src ! m \<noteq> src ! p \<or> src ! (m + 1) \<noteq> src ! (p + 1)"
  shows "match_end src p m lim (if p < lim \<and> src ! m = src ! p then p + 1 else p)"
proof (cases "p < lim \<and> src ! m = src ! p")
  case True
  have "match_end src (p + 1) (m + 1) lim (p + 1)"
    using True assms by (intro match_end_stop) auto
  then show ?thesis using True by (auto intro: match_end_skip [of 1])
next
  case False
  then show ?thesis using assms by (auto intro: match_end_stop)
qed

lemma tail_two:
  assumes "p \<le> lim" "m \<le> p" "lim \<le> length src"
    and "lim \<le> p + 3 \<or> \<not> (\<forall>i<4. src ! (m + i) = src ! (p + i))"
  shows "match_end src p m lim
     (let (p2, m2) = (if p + 1 < lim \<and> LZ4_read16 src m = LZ4_read16 src p then (p + 2, m + 2) else (p, m))
      in if p2 < lim \<and> src ! m2 = src ! p2 then p2 + 1 else p2)"
proof (cases "p + 1 < lim \<and> LZ4_read16 src m = LZ4_read16 src p")
  case True
  then have eq: "src ! m = src ! p" "src ! (m + 1) = src ! (p + 1)"
    using assms read_eq_iff(3) [OF assms(2), of src] by (auto simp: all_less_numeral)
  have "match_end src (p + 2) (m + 2) lim
          (if p + 2 < lim \<and> src ! (m + 2) = src ! (p + 2) then (p + 2) + 1 else p + 2)"
    using assms(4) [unfolded all_less_numeral] True eq
    by (intro tail_one) (auto simp: numeral_eq_Suc)
  moreover have "src ! (m + i) = src ! (p + i)" if "i < 2" for i
    using eq that by (auto simp: less_2_cases_iff)
  ultimately have "match_end src p m lim (if p + 2 < lim \<and> src ! (m + 2) = src ! (p + 2) then (p + 2) + 1 else p + 2)"
    by (metis match_end_skip)
  then show ?thesis
    using True by (auto split: if_splits)
next
  case False
  have "match_end src p m lim (if p < lim \<and> src ! m = src ! p then p + 1 else p)"
    using assms False read_eq_iff(3) [OF assms(2), of src] by (intro tail_one) (auto simp: all_less_numeral)
  then show ?thesis using False by auto
qed

lemma count_tail_end:
  assumes "p \<le> lim" "m \<le> p" "lim \<le> length src" "lim \<le> p + 7"
  shows "match_end src p m lim (LZ4_count_tail src p m lim)"
proof (cases "p + 3 < lim \<and> LZ4_read32 src m = LZ4_read32 src p")
  case True
  then have eq: "\<forall>i<4. src ! (m + i) = src ! (p + i)"
    using assms read_eq_iff(2) [OF assms(2), of src] by auto
  show ?thesis
    using assms True eq tail_two [of "p + 4" lim "m + 4" src]
    by (simp add: LZ4_count_tail_def match_end_skip [of 4])
next
  case False
  then have "lim \<le> p + 3 \<or> \<not> (\<forall>i<4. src ! (m + i) = src ! (p + i))"
    using assms read_eq_iff(2) [OF assms(2), of src] by auto
  then show ?thesis
    using assms False tail_two [of p lim m src] by (auto simp: LZ4_count_tail_def)
qed

lemma NbCommonBytes_end:
  assumes "m \<le> p" "p + 7 < lim" "lim \<le> length src" "LZ4_read_ARCH src m \<noteq> LZ4_read_ARCH src p"
  shows "match_end src p m lim (p + LZ4_NbCommonBytes (LZ4_read_ARCH src m XOR LZ4_read_ARCH src p))"
proof -
  have "\<exists>i. i < 8 \<and> src ! (m + i) \<noteq> src ! (p + i)"
    using assms read_eq_iff(1) [OF assms(1), of src] by auto
  then obtain j where j: "j < 8" "src ! (m + j) \<noteq> src ! (p + j)"
      "\<forall>i<j. \<not> (i < 8 \<and> src ! (m + i) \<noteq> src ! (p + i))"
    using exists_least_iff [of "\<lambda>i. i < 8 \<and> src ! (m + i) \<noteq> src ! (p + i)"] by blast
  then have same: "src ! (m + i) = src ! (p + i)" if "i < j" for i
    using that by auto
  have "LZ4_NbCommonBytes (LZ4_read_ARCH src m XOR LZ4_read_ARCH src p) = j"
    unfolding LZ4_read_ARCH_def
    using assms j(1,2) same by (intro NbCommonBytes_eq) (auto simp: nth_slice)
  then show ?thesis using assms j(1,2) same by (auto simp: match_end_def)
qed

lemma xor_eq_0: "a XOR b = 0 \<longleftrightarrow> a = b" for a b :: "'a::len word"
  by (auto simp: bit_eq_iff bit_xor_iff)

lemma count_loop_end:
  "p \<le> lim \<Longrightarrow> m \<le> p \<Longrightarrow> lim \<le> length src \<Longrightarrow> match_end src p m lim (LZ4_count_loop src p m lim)"
proof (induction src p m lim rule: LZ4_count_loop.induct)
  case (1 src p m lim)
  show ?case
  proof (cases "p + 7 < lim")
    case True
    show ?thesis
    proof (cases "LZ4_read_ARCH src m = LZ4_read_ARCH src p")
      case eq: True
      then have "\<forall>i<8. src ! (m + i) = src ! (p + i)"
        using 1 True read_eq_iff(1) [of m p src] by simp
      moreover have "match_end src (p + 8) (m + 8) lim (LZ4_count_loop src (p + 8) (m + 8) lim)"
        using 1(1) [OF True refl] 1(2-) True eq by simp
      ultimately show ?thesis
        using True eq by (simp add: LZ4_count_loop.simps [of src p m lim] Let_def match_end_skip [of 8])
    next
      case False
      then show ?thesis
        using 1(2-) True NbCommonBytes_end [of m p lim src]
        by (simp add: LZ4_count_loop.simps [of src p m lim] Let_def xor_eq_0)
    qed
  next
    case False
    then show ?thesis
      using 1(2-) count_tail_end [of p lim m src] by (simp add: LZ4_count_loop.simps [of src p m lim])
  qed
qed

lemma count_via_loop: "LZ4_count src p m lim = LZ4_count_loop src p m lim - p"
  by (simp add: LZ4_count_def LZ4_count_loop.simps [of src p m lim] Let_def)

lemma count_common_prefix:
  assumes "p \<le> lim" "m \<le> p" "lim \<le> length src"
  shows "LZ4_count src p m lim = common_prefix (slice m (lim - p) src) (slice p (lim - p) src)"
  using match_end_count [OF count_loop_end [OF assms] assms(3,2)] by (simp add: count_via_loop)

lemma count_match_end:
  assumes "p \<le> lim" "m \<le> p" "lim \<le> length src"
  shows "match_end src p m lim (p + LZ4_count src p m lim)"
proof -
  have "match_end src p m lim (LZ4_count_loop src p m lim)"
    by (rule count_loop_end [OF assms])
  moreover from this have "p \<le> LZ4_count_loop src p m lim" by (simp add: match_end_def)
  ultimately show ?thesis by (simp add: count_via_loop)
qed

section \<open>The matches the compressor uses\<close>

text \<open>Every position in the table was hashed before \<open>p\<close>; the asserts on \<open>matchIndex\<close> rest on this.\<close>

definition table_below :: "hash_table \<Rightarrow> nat \<Rightarrow> bool" where
  "table_below tbl p \<longleftrightarrow> (\<forall>h. tbl h < p)"

lemma table_below_put: "table_below tbl p \<Longrightarrow> idx < p \<Longrightarrow> table_below (LZ4_putIndexOnHash idx h tbl tt) p"
  by (auto simp: table_below_def LZ4_putIndexOnHash_def split: tableType.splits intro: le_less_trans [OF mod_less_eq_dividend])

lemma table_below_mono: "table_below tbl p \<Longrightarrow> p \<le> q \<Longrightarrow> table_below tbl q"
  by (auto simp: table_below_def intro: less_le_trans)

lemma table_below_get: "table_below tbl p \<Longrightarrow> LZ4_getIndexOnHash h tbl tt < p"
  by (simp add: table_below_def LZ4_getIndexOnHash_def)

definition usable_match :: "bytes \<Rightarrow> nat \<Rightarrow> nat \<Rightarrow> bool" where
  "usable_match src ip m \<longleftrightarrow> m < ip \<and> ip - m \<le> LZ4_DISTANCE_MAX \<and> LZ4_read32 src m = LZ4_read32 src ip"

lemma find_match_usable:
  "LZ4_find_match src tt lim fip step smn h tbl = Some (ip, m, tbl') \<Longrightarrow>
   0 < step \<Longrightarrow> 64 \<le> smn \<Longrightarrow> table_below tbl fip \<Longrightarrow> (tt = byU16 \<longrightarrow> lim \<le> 65536) \<Longrightarrow>
   ip < lim \<and> usable_match src ip m \<and> table_below tbl' (ip + 1)"
proof (induction src tt lim fip step smn h tbl rule: LZ4_find_match.induct)
  case (1 src tt lim fip step smn h tbl)
  let ?mi = "LZ4_getIndexOnHash h tbl tt"
  let ?tbl' = "LZ4_putIndexOnHash fip h tbl tt"
  let ?again = "LZ4_find_match src tt lim (fip + step) (drop_bit LZ4_skipTrigger smn) (smn + 1)
                  (LZ4_hashPosition src (fip + step) tt) ?tbl'"
  have lim: "\<not> lim < fip + step" using 1(3) by (subst (asm) LZ4_find_match.simps) (auto simp: Let_def)
  have mi: "?mi < fip" by (rule table_below_get [OF 1(6)])
  have tbl': "table_below ?tbl' (fip + 1)"
    using 1(6) by (intro table_below_put) (auto intro: table_below_mono)
  have again: "?case" if "?again = Some (ip, m, tbl')"
      "(tt \<noteq> byU16 \<and> ?mi + LZ4_DISTANCE_MAX < fip) \<or> LZ4_read32 src ?mi \<noteq> LZ4_read32 src fip"
    using that 1(1) [OF refl refl refl refl refl refl lim refl refl]
      1(2) [OF refl refl refl refl refl refl lim refl refl] 1(4,5,7) table_below_mono [OF tbl', of "fip + step"]
    by (cases "tt \<noteq> byU16 \<and> ?mi + LZ4_DISTANCE_MAX < fip") (auto simp: drop_bit_eq_div lz4_consts)
  show ?case
  proof (cases "(tt \<noteq> byU16 \<and> ?mi + LZ4_DISTANCE_MAX < fip) \<or> LZ4_read32 src ?mi \<noteq> LZ4_read32 src fip")
    case True
    then have "?again = Some (ip, m, tbl')"
      using 1(3) lim by (subst (asm) LZ4_find_match.simps) (auto simp: Let_def split: if_splits)
    then show ?thesis using again True by blast
  next
    case False
    then have "Some (ip, m, tbl') = Some (fip, ?mi, ?tbl')"
      using 1(3) lim by (subst (asm) LZ4_find_match.simps) (auto simp: Let_def split: if_splits)
    then show ?thesis
      using False lim mi tbl' 1(4,7) by (cases tt) (auto simp: usable_match_def lz4_consts)
  qed
qed

text \<open>A match moved back from \<open>(ip, m)\<close> to \<open>(ip', m')\<close> over equal bytes.\<close>

definition moved_back :: "bytes \<Rightarrow> nat \<Rightarrow> nat \<Rightarrow> nat \<Rightarrow> nat \<Rightarrow> bool" where
  "moved_back src ip m ip' m' \<longleftrightarrow>
     ip' \<le> ip \<and> m' \<le> m \<and> ip - ip' = m - m' \<and> (\<forall>i < ip - ip'. src ! (m' + i) = src ! (ip' + i))"

lemma moved_back_refl: "moved_back src ip m ip m"
  by (simp add: moved_back_def)

lemma moved_back_step:
  assumes "moved_back src (ip - 1) (m - 1) ip' m'" "0 < ip" "0 < m" "src ! (ip - 1) = src ! (m - 1)"
  shows "moved_back src ip m ip' m'"
proof -
  have b: "ip' \<le> ip - 1" "m' \<le> m - 1" "ip - 1 - ip' = m - 1 - m'"
      "\<forall>i < ip - 1 - ip'. src ! (m' + i) = src ! (ip' + i)"
    using assms(1) by (auto simp: moved_back_def)
  have "src ! (m' + i) = src ! (ip' + i)" if "i < ip - ip'" for i
  proof (cases "i < ip - 1 - ip'")
    case False
    then have "ip' + i = ip - 1" "m' + i = m - 1" using that b assms by linarith+
    then show ?thesis using assms by simp
  qed (use b in blast)
  then show ?thesis using b assms by (auto simp: moved_back_def)
qed

lemma catch_up_loop_moved_back:
  "LZ4_catch_up_loop src anchor ip m = (ip', m') \<Longrightarrow> moved_back src ip m ip' m'"
proof (induction src anchor ip m rule: LZ4_catch_up_loop.induct)
  case (1 src anchor ip m)
  show ?case
  proof (cases "anchor < ip \<and> 0 < m \<and> src ! (ip - 1) = src ! (m - 1)")
    case True
    then have "LZ4_catch_up_loop src anchor (ip - 1) (m - 1) = (ip', m')"
      using 1(2) by (simp add: LZ4_catch_up_loop.simps [of src anchor ip m])
    then show ?thesis using 1(1) [OF True] True by (auto intro: moved_back_step)
  next
    case False
    then have "(ip, m) = (ip', m')" using 1(2) LZ4_catch_up_loop.simps [of src anchor ip m] by argo
    then show ?thesis by (simp add: moved_back_refl)
  qed
qed

lemma catch_up_moved_back:
  assumes "LZ4_catch_up src anchor ip m = (ip', m')" "m < ip"
  shows "moved_back src ip m ip' m'"
proof (cases "0 < m \<and> src ! (ip - 1) = src ! (m - 1)")
  case True
  then have "LZ4_catch_up_loop src anchor (ip - 1) (m - 1) = (ip', m')"
    using assms by (simp add: LZ4_catch_up_def)
  from catch_up_loop_moved_back [OF this] show ?thesis
    by (rule moved_back_step) (use True assms in auto)
next
  case False
  then have "(ip, m) = (ip', m')" using assms unfolding LZ4_catch_up_def by argo
  then show ?thesis by (simp add: moved_back_refl)
qed

section \<open>Decoding one sequence\<close>

lemma length_bytes_add: "length_bytes (n + 255) = 255 # length_bytes n"
  by (subst length_bytes.simps) simp

lemma length_bytes_replicate: "length_bytes n = replicate (n div 255) 255 @ [of_nat (n mod 255)]"
proof (induction n rule: less_induct)
  case (less n)
  show ?case
  proof (cases "n < 255")
    case True
    then show ?thesis by (subst length_bytes.simps) simp
  next
    case False
    then obtain j where j: "n = j + 255" by (metis add.commute le_Suc_ex not_le)
    have "(j + 255) div 255 = Suc (j div 255)" by simp
    then show ?thesis using less [of j] j by (simp only: length_bytes_add) simp
  qed
qed

lemma match_length_bytes_eq: "match_length_bytes n = length_bytes n"
proof (induction n rule: less_induct)
  case (less n)
  show ?case
  proof (cases "n < 4 * 255")
    case True
    then show ?thesis by (subst match_length_bytes.simps) (simp add: length_bytes_replicate)
  next
    case False
    then obtain j where j: "n = j + 255 + 255 + 255 + 255"
      using le_Suc_ex [of "4 * 255" n] by fastforce
    have "match_length_bytes n = [255, 255, 255, 255] @ match_length_bytes j"
      unfolding j by (subst match_length_bytes.simps) simp
    also have "\<dots> = length_bytes n"
      using less [of j] unfolding j length_bytes_add by simp
    finally show ?thesis .
  qed
qed

lemma length_length_bytes: "length (length_bytes n) = n div 255 + 1"
proof (induction n rule: length_bytes.induct)
  case (1 n)
  then show ?case
    using le_div_geq [of 255 n] by (subst length_bytes.simps) auto
qed

lemma read_long_length_bytes: "read_long_length_no_check (length_bytes n @ rest) = Some (n, rest)"
proof (induction n rule: length_bytes.induct)
  case (1 n)
  have "of_nat n \<noteq> (255 :: u8) \<and> unat (of_nat n :: u8) = n" if "n < 255"
  proof -
    have "unat (of_nat n :: u8) = n" using that by (intro unat_of_nat_small) simp
    then show ?thesis using that by auto
  qed
  then show ?case using 1 by (subst length_bytes.simps) auto
qed

lemma token_nibbles:
  assumes "l \<le> 15" "k \<le> 15"
  shows "unat (drop_bit 4 (of_nat (l * 2 ^ 4) + of_nat k :: u8)) = l"
    and "unat ((of_nat (l * 2 ^ 4) + of_nat k :: u8) AND 15) = k"
proof -
  let ?t = "of_nat (l * 2 ^ 4) + of_nat k :: u8"
  have "?t = of_nat (l * 16 + k)" by simp
  moreover have "l * 16 + k < 2 ^ LENGTH(8)" using assms by simp
  ultimately have t: "unat ?t = l * 16 + k" by (metis unat_of_nat_small)
  show "unat (drop_bit 4 ?t) = l"
    unfolding unat_drop_bit_eq t using assms by (simp add: drop_bit_eq_div)
  have "?t AND 15 = take_bit 4 ?t" by (simp add: take_bit_eq_mask mask_eq_exp_minus_1)
  then have "unat (?t AND 15) = take_bit 4 (unat ?t)" by (metis unsigned_take_bit_eq)
  then show "unat (?t AND 15) = k" unfolding t using assms by (simp add: take_bit_eq_mod)
qed

lemma literal_token_eq: "literal_token n = of_nat (min n 15 * 2 ^ 4)"
  by (auto simp: literal_token_def lz4_consts min_def)

text \<open>The bytes that complete a length whose nibble is saturated.\<close>

definition saturated_bytes :: "nat \<Rightarrow> bytes" where
  "saturated_bytes n = (if 15 \<le> n then length_bytes (n - 15) else [])"

lemma read_length_saturated: "read_length (min n 15) (saturated_bytes n @ rest) = Some (n, rest)"
  by (auto simp: saturated_bytes_def read_length_def read_long_length_bytes min_def)

lemma literal_bytes_eq: "literal_bytes lits = saturated_bytes (length lits) @ lits"
  by (simp add: literal_bytes_def saturated_bytes_def lz4_consts)

lemma copy_match_source:
  "m < ip \<Longrightarrow> ip + ml \<le> length src \<Longrightarrow> (\<And>i. i < ml \<Longrightarrow> src ! (m + i) = src ! (ip + i)) \<Longrightarrow>
   copy_match (ip - m) ml (take ip src) = take (ip + ml) src"
proof (induction ml arbitrary: ip m)
  case 0
  then show ?case by simp
next
  case (Suc ml)
  have "take ip src ! (length (take ip src) - (ip - m)) = src ! ip"
    using Suc.prems(1,2) Suc.prems(3) [of 0] by simp
  then have "take ip src @ [take ip src ! (length (take ip src) - (ip - m))] = take (Suc ip) src"
    using Suc.prems(2) by (simp add: take_Suc_conv_app_nth)
  moreover have "copy_match (Suc ip - Suc m) ml (take (Suc ip) src) = take (Suc ip + ml) src"
    using Suc.prems(1,2) Suc.prems(3) [of "Suc _"] by (intro Suc.IH) auto
  ultimately show ?case by simp
qed

text \<open>The bytes of one sequence as \<open>LZ4_encode_match\<close> writes them.\<close>

definition sequence_bytes :: "bytes \<Rightarrow> u16 \<Rightarrow> nat \<Rightarrow> bytes" where
  "sequence_bytes lits offset matchCode =
     [literal_token (length lits) + of_nat (min matchCode 15)] @ literal_bytes lits @
     u16_bytes offset @ saturated_bytes matchCode"

lemma decode_match_bytes:
  assumes "m < ip" "unat w = ip - m" "ip + (mc + 4) + 5 \<le> length src"
    and "\<And>i. i < mc + 4 \<Longrightarrow> src ! (m + i) = src ! (ip + i)"
    and "unat (token AND 15) = min mc 15"
  shows "decode_match (length src) token (u16_bytes w @ saturated_bytes mc @ rest) (take ip src)
         = Seq_More (take (ip + (mc + 4)) src) rest"
proof -
  have copy: "copy_match (ip - m) (mc + 4) (take ip src) = take (ip + (mc + 4)) src"
    using assms by (intro copy_match_source) auto
  have "\<not> length src - (ip + (mc + 4)) < 5" "\<not> length src - ip < mc + 4" "\<not> ip < ip - m"
    using assms(1,3) by linarith+
  then show ?thesis
    using assms(1,3)
    by (simp add: decode_match_def Let_def c16.dec_enc assms(2,5) read_length_saturated copy lz4_consts
          del: copy_match.simps)
qed

lemma decode_literals:
  assumes "unat (drop_bit 4 token) = min (length lits) 15" "length op + length lits \<le> n"
  shows "decode_sequence n ([token] @ literal_bytes lits @ rest) op =
           (if n < length (op @ lits) + 12
            then if length (op @ lits) = n then Seq_End (op @ lits) rest else Seq_Bad
            else decode_match n token rest (op @ lits))"
  using assms by (auto simp: decode_sequence_def literal_bytes_eq read_length_saturated Let_def lz4_consts)

lemma decode_sequence_bytes:
  assumes "anchor \<le> ip" "m < ip" "unat w = ip - m" "ip + 12 \<le> length src" "ip + (mc + 4) + 5 \<le> length src"
    and "\<And>i. i < mc + 4 \<Longrightarrow> src ! (m + i) = src ! (ip + i)"
  shows "decode_sequence (length src) (sequence_bytes (slice anchor (ip - anchor) src) w mc @ rest) (take anchor src)
         = Seq_More (take (ip + (mc + 4)) src) rest"
proof -
  let ?lits = "slice anchor (ip - anchor) src"
  have len: "length ?lits = ip - anchor" using assms by simp
  have lits: "take anchor src @ ?lits = take ip src"
    using assms(1) slice_add [of 0 anchor "ip - anchor" src] by (simp add: slice_take)
  let ?tok = "of_nat (min (ip - anchor) 15 * 2 ^ 4) + of_nat (min mc 15) :: u8"
  have tok: "unat (drop_bit 4 ?tok) = min (length ?lits) 15" "unat (?tok AND 15) = min mc 15"
    unfolding len by (rule token_nibbles; simp)+
  have "decode_sequence (length src) ([?tok] @ literal_bytes ?lits @ u16_bytes w @ saturated_bytes mc @ rest) (take anchor src)
        = decode_match (length src) ?tok (u16_bytes w @ saturated_bytes mc @ rest) (take ip src)"
    using assms by (subst decode_literals [OF tok(1)]) (simp_all add: lits)
  also have "\<dots> = Seq_More (take (ip + (mc + 4)) src) rest"
    by (rule decode_match_bytes [OF assms(2,3,5) _ tok(2)]) (rule assms(6))
  finally show ?thesis
    unfolding sequence_bytes_def append_assoc literal_token_eq len .
qed

section \<open>The round trip\<close>

text \<open>What was written so far decodes to the first \<open>anchor\<close> bytes of the source, whatever follows.\<close>

definition decodes :: "bytes \<Rightarrow> nat \<Rightarrow> bytes \<Rightarrow> bool" where
  "decodes src anchor out \<longleftrightarrow>
     (\<forall>rest. LZ4_decompress_loop (length src) (out @ rest) []
             = LZ4_decompress_loop (length src) rest (take anchor src))"

lemma decodes_Nil: "decodes src 0 []"
  by (simp add: decodes_def)

lemma decodes_sequence:
  assumes "decodes src anchor out"
    and "\<And>rest. decode_sequence (length src) (sq @ rest) (take anchor src) = Seq_More (take ip src) rest"
  shows "decodes src ip (out @ sq)"
  using assms by (simp add: decodes_def LZ4_decompress_loop.simps [of "length src" "sq @ _"])

lemma length_saturated_bytes: "length (saturated_bytes n) = (n + 240) div 255"
proof (cases "15 \<le> n")
  case True
  then obtain k where "n = k + 15" by (metis add.commute le_Suc_ex)
  then show ?thesis by (simp add: saturated_bytes_def length_length_bytes)
qed (simp add: saturated_bytes_def)

lemma length_sequence_bytes:
  "length (sequence_bytes lits w mc) \<le> length lits + (mc + 4) + length lits div 255"
proof -
  have "length (sequence_bytes lits w mc) = 3 + (length lits + 240) div 255 + length lits + (mc + 240) div 255"
    by (simp add: sequence_bytes_def literal_bytes_eq length_saturated_bytes)
  moreover have "(length lits + 240) div 255 \<le> length lits div 255 + 1" by linarith
  moreover have "(mc + 240) div 255 \<le> mc" by linarith
  ultimately show ?thesis by linarith
qed

text \<open>The invariant of the main loop.\<close>

definition lz4_progress :: "bytes \<Rightarrow> nat \<Rightarrow> bytes \<Rightarrow> bool" where
  "lz4_progress src anchor out \<longleftrightarrow>
     anchor \<le> length src \<and> decodes src anchor out \<and> length out \<le> anchor + anchor div 255"

fun lz4_inv :: "bytes \<Rightarrow> lz4_next \<Rightarrow> bool" where
  "lz4_inv src Fail = True"
| "lz4_inv src (Last anchor out) = lz4_progress src anchor out"
| "lz4_inv src (Search anchor tbl out) =
     (lz4_progress src anchor out \<and> table_below tbl (anchor + 1))"
| "lz4_inv src (Next_Match m ip tbl out) =
     (lz4_progress src ip out \<and> table_below tbl (ip + 1) \<and> usable_match src ip m \<and> ip + MFLIMIT \<le> length src)"

text \<open>
  The extent of a match.  \<open>q\<close> is the last position put into the table; the match covers the four
  bytes found there, also after catching up.
\<close>

lemma match_extent:
  assumes "m < ip" "ip \<le> q" "q + 12 \<le> length src"
    and "\<And>i. i < q + 4 - ip \<Longrightarrow> src ! (m + i) = src ! (ip + i)"
    and mc: "mc = LZ4_count src (ip + 4) (m + 4) (length src - 5)"
  shows "ip + (mc + 4) + 5 \<le> length src" "q + 4 \<le> ip + (mc + 4)"
    and "i < mc + 4 \<Longrightarrow> src ! (m + i) = src ! (ip + i)"
proof -
  have me: "match_end src (ip + 4) (m + 4) (length src - 5) (ip + 4 + mc)"
    unfolding mc using assms(1-3) by (intro count_match_end) auto
  then show "ip + (mc + 4) + 5 \<le> length src" using assms(2,3) by (auto simp: match_end_def)
  show "q + 4 \<le> ip + (mc + 4)"
  proof (rule ccontr)
    assume "\<not> q + 4 \<le> ip + (mc + 4)"
    then have "src ! (m + (mc + 4)) = src ! (ip + (mc + 4))" "ip + 4 + mc < length src - 5"
      using assms(3) by (auto intro!: assms(4))
    then show False using me by (auto simp: match_end_def ac_simps)
  qed
  show "src ! (m + i) = src ! (ip + i)" if "i < mc + 4"
  proof (cases "i < 4")
    case True
    then show ?thesis using assms(2) by (auto intro!: assms(4))
  next
    case False
    then show ?thesis using me that by (auto simp: match_end_def dest!: spec [of _ "i - 4"])
  qed
qed

lemma progress_sequence:
  assumes "lz4_progress src anchor out" "anchor \<le> ip" "m < ip" "ip - m \<le> 65535" "ip + 12 \<le> length src"
    and "ip + (mc + 4) + 5 \<le> length src" "\<And>i. i < mc + 4 \<Longrightarrow> src ! (m + i) = src ! (ip + i)"
  shows "lz4_progress src (ip + (mc + 4))
           (out @ sequence_bytes (slice anchor (ip - anchor) src) (of_nat (ip - m)) mc)"
proof -
  let ?lits = "slice anchor (ip - anchor) src" and ?w = "of_nat (ip - m) :: u16"
  have "unat ?w = ip - m" using assms(4) by (intro unat_of_nat_small) simp
  then have dec: "decodes src (ip + (mc + 4)) (out @ sequence_bytes ?lits ?w mc)"
    using decode_sequence_bytes [OF assms(2,3) _ assms(5,6,7)] assms(1)
    by (auto simp: lz4_progress_def intro!: decodes_sequence)
  have "length out \<le> anchor + anchor div 255" using assms(1) by (simp add: lz4_progress_def)
  moreover have "length (sequence_bytes ?lits ?w mc) \<le> (ip - anchor) + (mc + 4) + (ip - anchor) div 255"
    using length_sequence_bytes [of ?lits ?w mc] assms(2,5) by simp
  moreover have "anchor div 255 + (ip - anchor) div 255 \<le> (ip + (mc + 4)) div 255"
    using assms(2) by linarith
  ultimately have "length (out @ sequence_bytes ?lits ?w mc) \<le> ip + (mc + 4) + (ip + (mc + 4)) div 255"
    using assms(2) unfolding length_append by linarith
  then show ?thesis using dec assms(6) by (simp add: lz4_progress_def)
qed

text \<open>What \<open>LZ4_encode_match\<close> appends to the output is one sequence.\<close>

lemma encode_match_sequence:
  assumes "anchor \<le> ip" "ip \<le> length src" "mc = LZ4_count src (ip + 4) (m + 4) (length src - 5)"
  shows "LZ4_encode_match src dir olimit tt ip m tbl out (literal_token (ip - anchor))
           (literal_bytes (slice anchor (ip - anchor) src)) =
         (if dir = limitedOutput \<and>
             olimit < length out + 1 + length (literal_bytes (slice anchor (ip - anchor) src)) + 8 + (mc + 240) div 255
          then Fail
          else LZ4_next_position src tt (ip + (mc + 4)) tbl
                 (out @ sequence_bytes (slice anchor (ip - anchor) src) (of_nat (ip - m)) mc))"
proof -
  have len: "length (slice anchor (ip - anchor) src) = ip - anchor" using assms by simp
  have mc: "LZ4_count src (ip + MINMATCH) (m + MINMATCH) (length src - LASTLITERALS) = mc"
    by (simp add: assms(3) lz4_consts)
  have tok: "(if ML_MASK \<le> mc then t + of_nat ML_MASK else t + of_nat mc) = t + of_nat (min mc 15)" for t :: u8
    by (simp add: lz4_consts min_def)
  have more: "(if ML_MASK \<le> mc then match_length_bytes (mc - ML_MASK) else []) = saturated_bytes mc"
    by (simp add: lz4_consts saturated_bytes_def match_length_bytes_eq)
  show ?thesis
    unfolding LZ4_encode_match_def Let_def mc tok more sequence_bytes_def len
    by (simp add: lz4_consts del: of_nat_diff)
qed

lemma next_position_inv:
  assumes "lz4_progress src ip out" "table_below tbl ip" "2 \<le> ip" "tt = byU16 \<Longrightarrow> length src < LZ4_64Klimit"
  shows "lz4_inv src (LZ4_next_position src tt ip tbl out)"
proof -
  let ?tbl1 = "LZ4_putIndexOnHash (ip - 2) (LZ4_hashPosition src (ip - 2) tt) tbl tt"
  let ?mi = "LZ4_getIndexOnHash (LZ4_hashPosition src ip tt) ?tbl1 tt"
  have tbl1: "table_below ?tbl1 ip" using assms(2,3) by (intro table_below_put) auto
  then have tbl2: "table_below (LZ4_putIndexOnHash ip (LZ4_hashPosition src ip tt) ?tbl1 tt) (ip + 1)"
    by (intro table_below_put table_below_mono [OF tbl1]) auto
  have mi: "?mi < ip" by (rule table_below_get [OF tbl1])
  have "usable_match src ip ?mi \<and> ip + MFLIMIT \<le> length src"
    if "\<not> length src - MFLIMIT + 1 \<le> ip" "tt = byU16 \<or> ip \<le> ?mi + LZ4_DISTANCE_MAX"
       "LZ4_read32 src ?mi = LZ4_read32 src ip"
    using that mi assms(4) by (cases tt) (auto simp: usable_match_def lz4_consts)
  then show ?thesis
    using assms(1) tbl2 by (auto simp: LZ4_next_position_def Let_def)
qed

lemma encode_match_inv:
  assumes "ip + 12 \<le> length src" "tt = byU16 \<Longrightarrow> length src < LZ4_64Klimit"
    and "lz4_progress src anchor out" "anchor \<le> ip" "m < ip" "ip - m \<le> 65535"
    and "ip \<le> q" "q + 12 \<le> length src" "table_below tbl (q + 1)"
    and "\<And>i. i < q + 4 - ip \<Longrightarrow> src ! (m + i) = src ! (ip + i)"
  shows "lz4_inv src (LZ4_encode_match src dir olimit tt ip m tbl out (literal_token (ip - anchor))
           (literal_bytes (slice anchor (ip - anchor) src)))"
proof -
  define mc where mc: "mc = LZ4_count src (ip + 4) (m + 4) (length src - 5)"
  note ext = match_extent [OF assms(5,7,8,10) mc]
  have "lz4_progress src (ip + (mc + 4)) (out @ sequence_bytes (slice anchor (ip - anchor) src) (of_nat (ip - m)) mc)"
    using assms(3-6,1) ext(1,3) by (rule progress_sequence)
  moreover have "table_below tbl (ip + (mc + 4))"
    using assms(9) ext(2) by (auto intro: table_below_mono)
  ultimately have "lz4_inv src (LZ4_next_position src tt (ip + (mc + 4)) tbl
      (out @ sequence_bytes (slice anchor (ip - anchor) src) (of_nat (ip - m)) mc))"
    using assms(2) by (intro next_position_inv) auto
  then show ?thesis
    using assms(1,4) by (subst encode_match_sequence [OF _ _ mc]) (auto simp del: of_nat_diff)
qed

lemma usable_match_bytes:
  "usable_match src ip m \<Longrightarrow> ip + 4 \<le> length src \<Longrightarrow> i < 4 \<Longrightarrow> src ! (m + i) = src ! (ip + i)"
  using read_eq_iff(2) [of m ip src] by (auto simp: usable_match_def)

lemma next_match_inv:
  assumes "lz4_inv src (Next_Match m ip tbl out)" "tt = byU16 \<Longrightarrow> length src < LZ4_64Klimit"
  shows "lz4_inv src (LZ4_encode_match src dir olimit tt ip m tbl out 0 [])"
proof -
  have "literal_token (ip - ip) = 0" "literal_bytes (slice ip (ip - ip) src) = []"
    by (simp_all add: literal_token_def literal_bytes_def lz4_consts)
  then show ?thesis
    using encode_match_inv [of ip src tt ip out m ip tbl dir olimit] assms usable_match_bytes [of src ip m]
    by (auto simp: usable_match_def lz4_consts)
qed

lemma search_step_inv:
  assumes "lz4_inv src (Search anchor tbl out)" "tt = byU16 \<Longrightarrow> length src < LZ4_64Klimit"
    and "0 < acc" "LZ4_minLength \<le> length src"
  shows "lz4_inv src (LZ4_search_step src dir olimit tt acc anchor tbl out)"
proof (cases "LZ4_find_match src tt (length src - MFLIMIT + 1) (anchor + 1) 1
                (push_bit LZ4_skipTrigger acc) (LZ4_hashPosition src (anchor + 1) tt) tbl")
  case None
  then show ?thesis using assms(1) by (simp add: LZ4_search_step_def)
next
  case (Some r)
  then obtain q m0 tbl' where r: "r = (q, m0, tbl')" by (cases r)
  obtain ip m where cu: "LZ4_catch_up src anchor q m0 = (ip, m)" by fastforce
  have u16: "tt = byU16 \<longrightarrow> length src - 12 \<le> 65535"
    using assms(2) by (auto simp: lz4_consts)
  have found: "q < length src - MFLIMIT + 1" "usable_match src q m0" "table_below tbl' (q + 1)"
    using find_match_usable [OF Some [unfolded r]] assms u16 by (auto simp: push_bit_eq_mult lz4_consts)
  have "anchor < q" using find_match_forward [OF Some [unfolded r]] by simp
  then have ip: "anchor \<le> ip" "ip \<le> q" using catch_up_bounds cu by blast+
  have mb: "moved_back src q m0 ip m" using cu found(2) by (auto simp: usable_match_def intro: catch_up_moved_back)
  have same: "src ! (m + i) = src ! (ip + i)" if "i < q + 4 - ip" for i
  proof (cases "i < q - ip")
    case False
    have "m0 + (i - (q - ip)) = m + i" "q + (i - (q - ip)) = ip + i"
      using False mb by (auto simp: moved_back_def)
    moreover have "i - (q - ip) < 4" "q + 4 \<le> length src" using False that ip(2) found(1) assms(4) by (auto simp: lz4_consts)
    ultimately show ?thesis using usable_match_bytes [OF found(2), of "i - (q - ip)"] by metis
  qed (use mb in \<open>auto simp: moved_back_def\<close>)
  have "m < ip" "ip - m \<le> 65535" "q + 12 \<le> length src"
    using mb found assms(4) by (auto simp: moved_back_def usable_match_def lz4_consts)
  then have "lz4_inv src (LZ4_encode_match src dir olimit tt ip m tbl' out (literal_token (ip - anchor))
           (literal_bytes (slice anchor (ip - anchor) src)))"
    using assms(1,2) ip found(3) same by (intro encode_match_inv [of ip src tt anchor out m q tbl']) auto
  then show ?thesis
    unfolding LZ4_search_step_def Let_def Some r option.case prod.case cu by simp
qed

lemma last_literals_correct:
  assumes "lz4_progress src anchor out" "LZ4_last_literals src dir olimit anchor out = Some out'"
  shows "LZ4_decompress_loop (length src) (out' @ rest) [] = Some (src, rest)"
    and "length out' \<le> length src + length src div 255 + 16"
    and "dir = limitedOutput \<Longrightarrow> length out' \<le> olimit"
proof -
  let ?lits = "slice anchor (length src - anchor) src" and ?n = "length src - anchor"
  have a: "anchor \<le> length src" "length out \<le> anchor + anchor div 255" using assms(1) by (auto simp: lz4_progress_def)
  then have len: "length ?lits = ?n" by simp
  have out': "out' = out @ [literal_token ?n] @ literal_bytes ?lits"
    using assms(2) by (auto simp: LZ4_last_literals_def Let_def split: if_splits)
  have lits: "take anchor src @ ?lits = src"
    using slice_add [of 0 anchor ?n src] a(1) by (simp add: slice_take)
  have tok: "unat (drop_bit 4 (literal_token ?n)) = min (length ?lits) 15"
    using token_nibbles(1) [of "min ?n 15" 0] by (simp add: literal_token_eq len)
  have "LZ4_decompress_loop (length src) (out' @ rest) [] =
        LZ4_decompress_loop (length src) ([literal_token ?n] @ literal_bytes ?lits @ rest) (take anchor src)"
    using assms(1) by (simp add: out' lz4_progress_def decodes_def)
  also have "\<dots> = Some (src, rest)"
    using a(1) lits by (subst LZ4_decompress_loop.simps, subst decode_literals [OF tok]) auto
  finally show "LZ4_decompress_loop (length src) (out' @ rest) [] = Some (src, rest)" .
  have L: "length out' = length out + 1 + (?n + 240) div 255 + ?n"
    by (simp add: out' literal_bytes_eq length_saturated_bytes len)
  have "anchor div 255 + (?n + 240) div 255 \<le> length src div 255 + 1" using a(1) by linarith
  then show "length out' \<le> length src + length src div 255 + 16" using L a by linarith
  show "length out' \<le> olimit" if "dir = limitedOutput"
    using assms(2) that L by (auto simp: LZ4_last_literals_def Let_def lz4_consts split: if_splits)
qed

lemma small_source_progress: "lz4_progress src 0 []"
  by (simp add: lz4_progress_def decodes_Nil)

lemma main_loop_correct:
  assumes "LZ4_main_loop src dir olimit tt acc st = Some out"
    and "lz4_inv src st" "0 < acc" "tt = byU16 \<Longrightarrow> length src < LZ4_64Klimit"
  shows "LZ4_decompress_loop (length src) (out @ rest) [] = Some (src, rest) \<and>
         length out \<le> length src + length src div 255 + 16 \<and> (dir = limitedOutput \<longrightarrow> length out \<le> olimit)"
  using assms
proof (induction src dir olimit tt acc st rule: LZ4_main_loop.induct)
  case (1 src dir olimit tt acc st)
  show ?case
  proof (cases "length src < LZ4_minLength")
    case True
    then have "LZ4_last_literals src dir olimit 0 [] = Some out"
      using 1(3) by (simp add: LZ4_main_loop.simps [of src])
    then show ?thesis using last_literals_correct [OF small_source_progress] by blast
  next
    case long: False
    show ?thesis
    proof (cases st)
      case Fail
      then show ?thesis using 1(3) long by (simp add: LZ4_main_loop.simps [of src])
    next
      case (Last anchor out0)
      then have "LZ4_last_literals src dir olimit anchor out0 = Some out" "lz4_progress src anchor out0"
        using 1(3,4) long by (simp_all add: LZ4_main_loop.simps [of src])
      then show ?thesis using last_literals_correct by blast
    next
      case (Next_Match m ip tbl out0)
      have "LZ4_main_loop src dir olimit tt acc (LZ4_encode_match src dir olimit tt ip m tbl out0 0 []) = Some out"
        using 1(3) long Next_Match
        by (simp add: LZ4_main_loop.simps [of src dir olimit tt acc "Next_Match m ip tbl out0"])
      moreover have "lz4_inv src (LZ4_encode_match src dir olimit tt ip m tbl out0 0 [])"
        using 1(4,6) Next_Match by (intro next_match_inv) auto
      ultimately show ?thesis using 1(1) [OF long Next_Match] 1(5,6) by blast
    next
      case (Search anchor tbl out0)
      have "LZ4_main_loop src dir olimit tt acc (LZ4_search_step src dir olimit tt acc anchor tbl out0) = Some out"
        using 1(3) long Search
        by (simp add: LZ4_main_loop.simps [of src dir olimit tt acc "Search anchor tbl out0"])
      moreover have "lz4_inv src (LZ4_search_step src dir olimit tt acc anchor tbl out0)"
        using 1(4-6) long Search by (intro search_step_inv) auto
      ultimately show ?thesis using 1(2) [OF long Search] 1(5,6) by blast
    qed
  qed
qed

lemma main_loop_not_limited:
  assumes "st \<noteq> Fail"
  shows "\<exists>out. LZ4_main_loop src notLimited olimit tt acc st = Some out"
  using assms
proof (induction src notLimited olimit tt acc st rule: LZ4_main_loop.induct)
  case (1 src olimit tt acc st)
  have next_ok: "LZ4_next_position src tt ip tbl out \<noteq> Fail" for ip tbl out
    by (auto simp: LZ4_next_position_def Let_def)
  then have "LZ4_encode_match src notLimited olimit tt ip m tbl out tok mid \<noteq> Fail" for ip m tbl out tok mid
    by (simp add: LZ4_encode_match_def Let_def)
  moreover from this have "LZ4_search_step src notLimited olimit tt acc anchor tbl out \<noteq> Fail" for anchor tbl out
    by (auto simp: LZ4_search_step_def Let_def split: option.splits prod.splits)
  ultimately show ?case
    using 1 by (cases st) (simp_all add: LZ4_main_loop.simps [of src notLimited] LZ4_last_literals_def Let_def)
qed

section \<open>The contract of a block codec\<close>

text \<open>
  What the writer and the readers of a trace rely on: decompression undoes compression, a compressed
  block fits the capacity it was given, and a capacity of \<open>bound\<close> is always enough.
\<close>

locale block_codec =
  fixes compress :: "bytes \<Rightarrow> nat \<Rightarrow> bytes option"
    and decompress :: "bytes \<Rightarrow> nat \<Rightarrow> bytes option"
    and bound :: "nat \<Rightarrow> nat"
    and max_input :: nat
  assumes decompress_compress: "compress src cap = Some out \<Longrightarrow> decompress out (length src) = Some src"
    and compress_fits: "compress src cap = Some out \<Longrightarrow> length out \<le> cap"
    and compress_succeeds: "length src \<le> max_input \<Longrightarrow> bound (length src) \<le> cap \<Longrightarrow> \<exists>out. compress src cap = Some out"
begin

lemma compress_inject:
  assumes "compress a cap = Some out" "compress b cap' = Some out" "length a = length b"
  shows "a = b"
  using assms decompress_compress by (metis option.inject)

lemma compress_roundtrip:
  assumes "length src \<le> max_input" "bound (length src) \<le> cap"
  obtains out where "compress src cap = Some out" "length out \<le> cap" "decompress out (length src) = Some src"
  using compress_succeeds [OF assms] compress_fits decompress_compress by blast

end

lemma compress_generic_correct:
  assumes "LZ4_compress_generic src cap dir tt acc = Some out" "0 < acc" "tt = byU16 \<Longrightarrow> length src < LZ4_64Klimit"
  shows "LZ4_decompress_loop (length src) (out @ rest) [] = Some (src, rest)"
    and "length out \<le> length src + length src div 255 + 16"
    and "dir = limitedOutput \<Longrightarrow> length out \<le> cap"
proof -
  let ?st = "Search 0 (LZ4_putIndexOnHash 0 (LZ4_hashPosition src 0 tt) (\<lambda>_. 0) tt) []"
  have "LZ4_decompress_loop (length src) (out @ rest) [] = Some (src, rest) \<and>
        length out \<le> length src + length src div 255 + 16 \<and> (dir = limitedOutput \<longrightarrow> length out \<le> cap)"
  proof (cases "length src = 0")
    case True
    then have "out = [0]" "dir = limitedOutput \<longrightarrow> 0 < cap"
      using assms(1) by (auto simp: LZ4_compress_generic_def split: if_splits)
    moreover have "LZ4_decompress_loop 0 ([0] @ rest) [] = Some ([], rest)"
      by (subst LZ4_decompress_loop.simps) (simp add: decode_sequence_def read_length_def Let_def lz4_consts)
    ultimately show ?thesis using True by auto
  next
    case False
    have "table_below (LZ4_putIndexOnHash 0 (LZ4_hashPosition src 0 tt) (\<lambda>_. 0) tt) 1"
      by (intro table_below_put) (auto simp: table_below_def)
    then have "lz4_inv src ?st" by (simp add: small_source_progress)
    moreover have "LZ4_main_loop src dir cap tt acc ?st = Some out"
      using assms(1) False
      by (simp add: LZ4_compress_generic_def LZ4_compress_generic_validated_def split: if_splits)
    ultimately show ?thesis using main_loop_correct assms(2,3) by blast
  qed
  then show "LZ4_decompress_loop (length src) (out @ rest) [] = Some (src, rest)"
    "length out \<le> length src + length src div 255 + 16" "dir = limitedOutput \<Longrightarrow> length out \<le> cap"
    by auto
qed

lemma compress_generic_not_limited:
  "length src \<le> LZ4_MAX_INPUT_SIZE \<Longrightarrow> \<exists>out. LZ4_compress_generic src cap notLimited tt acc = Some out"
  by (auto simp: LZ4_compress_generic_def LZ4_compress_generic_validated_def intro: main_loop_not_limited)

text \<open>The directive and the table \<open>LZ4_compress_fast\<close> chooses, with the acceleration it uses.\<close>

lemma compress_fast_generic:
  obtains dir tt k cap' where
    "LZ4_compress_fast src cap acc = LZ4_compress_generic src cap' dir tt k"
    "0 < k" "tt = byU16 \<longrightarrow> length src < LZ4_64Klimit"
    "dir = notLimited \<longleftrightarrow> LZ4_compressBound (int (length src)) \<le> int cap"
    "dir = limitedOutput \<longrightarrow> cap' = cap"
proof -
  define acc1 where "acc1 = (if acc < 1 then LZ4_ACCELERATION_DEFAULT else nat acc)"
  define k where "k = (if LZ4_ACCELERATION_MAX < acc1 then LZ4_ACCELERATION_MAX else acc1)"
  define tt where "tt = (if length src < LZ4_64Klimit then byU16 else byU32)"
  define dir where "dir = (if LZ4_compressBound (int (length src)) \<le> int cap then notLimited else limitedOutput)"
  define cap' where "cap' = (if LZ4_compressBound (int (length src)) \<le> int cap then 0 else cap)"
  have "LZ4_compress_fast src cap acc = LZ4_compress_generic src cap' dir tt k"
    by (simp add: LZ4_compress_fast_def LZ4_compress_fast_extState_def Let_def k_def acc1_def tt_def dir_def cap'_def)
  then show ?thesis
    by (rule that) (auto simp: k_def acc1_def tt_def dir_def cap'_def lz4_consts)
qed

lemma compress_fast_correct:
  assumes "LZ4_compress_fast src cap acc = Some out"
  shows "LZ4_decompress_unsafe_generic out (length src) = Some (src, length out)" "length out \<le> cap"
proof -
  obtain dir tt k cap' where c: "LZ4_compress_fast src cap acc = LZ4_compress_generic src cap' dir tt k"
      "0 < k" "tt = byU16 \<longrightarrow> length src < LZ4_64Klimit"
      "dir = notLimited \<longleftrightarrow> LZ4_compressBound (int (length src)) \<le> int cap" "dir = limitedOutput \<longrightarrow> cap' = cap"
    by (rule compress_fast_generic)
  note g = compress_generic_correct [OF assms [unfolded c(1)] c(2)]
  show "LZ4_decompress_unsafe_generic out (length src) = Some (src, length out)"
    using g(1) [of "[]"] c(3) by (simp add: LZ4_decompress_unsafe_generic_def)
  have "length src \<le> LZ4_MAX_INPUT_SIZE"
    using assms [unfolded c(1)] by (auto simp: LZ4_compress_generic_def split: if_splits)
  then show "length out \<le> cap"
    using g(2,3) c(3-5) by (cases dir) (auto simp: LZ4_compressBound_def zdiv_int)
qed

lemma compress_fast_succeeds:
  assumes "length src \<le> LZ4_MAX_INPUT_SIZE" "LZ4_compressBound (int (length src)) \<le> int cap"
  shows "\<exists>out. LZ4_compress_fast src cap acc = Some out"
  using compress_fast_generic [of src cap acc] compress_generic_not_limited [OF assms(1)] assms(2) by metis

definition lz4_decompress :: "bytes \<Rightarrow> nat \<Rightarrow> bytes option" where
  "lz4_decompress inp n = map_option fst (LZ4_decompress_unsafe_generic inp n)"

interpretation lz4: block_codec "\<lambda>src cap. LZ4_compress_fast src cap 1" lz4_decompress
  "\<lambda>n. nat (LZ4_compressBound (int n))" LZ4_MAX_INPUT_SIZE
proof unfold_locales
  show "lz4_decompress out (length src) = Some src" if "LZ4_compress_fast src cap 1 = Some out" for src cap out
    using compress_fast_correct(1) [OF that] by (simp add: lz4_decompress_def)
  show "\<exists>out. LZ4_compress_fast src cap 1 = Some out"
    if "length src \<le> LZ4_MAX_INPUT_SIZE" "nat (LZ4_compressBound (int (length src))) \<le> cap" for src cap
    using that by (intro compress_fast_succeeds) auto
qed (rule compress_fast_correct(2))

section \<open>Expansion\<close>

text \<open>Every input byte accounts for at most 255 bytes of output.\<close>

lemma long_length_ratio: "read_long_length_no_check inp = Some (l, rest) \<Longrightarrow> l + 255 * length rest \<le> 255 * length inp"
proof (induction inp arbitrary: l)
  case Nil
  then show ?case by simp
next
  case (Cons b inp)
  show ?case
  proof (cases "b = 255")
    case True
    then obtain k where "read_long_length_no_check inp = Some (k, rest)" "l = 255 + k"
      using Cons.prems by (auto split: option.splits)
    then show ?thesis using Cons.IH [of k] by simp
  next
    case False
    then have "l = unat b" "rest = inp" using Cons.prems by auto
    moreover have "unat b < 256" using unat_bound [of b] by simp
    ultimately show ?thesis by simp
  qed
qed

lemma length_ratio: "read_length l inp = Some (k, rest) \<Longrightarrow> l \<le> 15 \<Longrightarrow> k + 255 * length rest \<le> 15 + 255 * length inp"
  by (fastforce simp: read_length_def split: if_splits option.splits dest: long_length_ratio)

lemma length_copy_match [simp]: "length (copy_match offset ml op) = length op + ml"
  by (induction ml arbitrary: op) simp_all

lemma nibble_le: "unat (drop_bit 4 (token :: u8)) \<le> 15" "unat (token AND 15) \<le> 15"
proof -
  have "unat (drop_bit 4 token) = unat token div 16"
    unfolding unsigned_drop_bit_eq take_bit_nat_eq_self [OF unat_bound] by (simp add: drop_bit_eq_div)
  moreover have "unat token < 256" using unat_bound [of token] by simp
  ultimately show "unat (drop_bit 4 token) \<le> 15" by simp
  have "token AND 15 \<le> 15" by (rule word_and_le1)
  then show "unat (token AND 15) \<le> 15" by (simp add: word_le_nat_alt)
qed

lemma match_ratio:
  assumes "decode_match n token inp op = Seq_More op' inp'"
  shows "length op' + 255 * length inp' \<le> length op + 255 * length inp"
proof -
  obtain ml0 where "read_length (unat (token AND 15)) (drop 2 inp) = Some (ml0, inp')" "length op' = length op + (ml0 + 4)" "2 \<le> length inp"
    using assms by (auto simp: decode_match_def Let_def MINMATCH_def split: if_splits option.splits)
  then show ?thesis using length_ratio [of _ "drop 2 inp" ml0 inp'] nibble_le(2) [of token] by fastforce
qed

lemma sequence_ratio:
  "decode_sequence n inp op = Seq_More op' inp' \<Longrightarrow> length op' + 255 * length inp' \<le> length op + 255 * length inp"
  "decode_sequence n inp op = Seq_End op' inp' \<Longrightarrow> length op' + 255 * length inp' \<le> length op + 255 * length inp"
proof -
  have lit: "length (op @ take ll inp2) + 255 * length (drop ll inp2) \<le> length op + 255 * length inp"
    if "inp = token # inp1" "read_length (unat (drop_bit 4 token)) inp1 = Some (ll, inp2)" "ll \<le> length inp2" for token inp1 ll inp2
    using that length_ratio [OF that(2) nibble_le(1)] by simp
  show "decode_sequence n inp op = Seq_More op' inp' \<Longrightarrow> length op' + 255 * length inp' \<le> length op + 255 * length inp"
    using lit by (fastforce simp: decode_sequence_def Let_def split: list.splits option.splits if_splits dest!: match_ratio)
  show "decode_sequence n inp op = Seq_End op' inp' \<Longrightarrow> length op' + 255 * length inp' \<le> length op + 255 * length inp"
    using lit by (fastforce simp: decode_sequence_def Let_def decode_match_def split: list.splits option.splits if_splits)
qed

lemma loop_ratio:
  "LZ4_decompress_loop n inp op = Some (out, rest) \<Longrightarrow> length out + 255 * length rest \<le> length op + 255 * length inp"
proof (induction n inp op rule: LZ4_decompress_loop.induct)
  case (1 n inp op)
  show ?case
  proof (cases "decode_sequence n inp op")
    case (Seq_More op' inp')
    then show ?thesis using 1 sequence_ratio(1) [OF Seq_More] by (fastforce simp: LZ4_decompress_loop.simps [of n inp op])
  next
    case (Seq_End op' inp')
    then show ?thesis using 1 sequence_ratio(2) [OF Seq_End] by (simp add: LZ4_decompress_loop.simps [of n inp op])
  qed (use 1 in \<open>simp add: LZ4_decompress_loop.simps [of n inp op]\<close>)
qed

lemma decompress_ratio: "lz4_decompress inp n = Some out \<Longrightarrow> length out \<le> 255 * length inp"
  by (auto simp: lz4_decompress_def LZ4_decompress_unsafe_generic_def split: option.splits dest!: loop_ratio)

section \<open>Properties\<close>

text \<open>
  C21: Decompressing what the block compressor produced gives the source back, byte for byte, and reads
  exactly the bytes that were written; the block never exceeds the capacity it was given.
\<close>

theorem lz4_roundtrip:
  assumes "LZ4_compress_fast src cap acc = Some out"
  shows "LZ4_decompress_unsafe_generic out (length src) = Some (src, length out) \<and> length out \<le> cap"
  using compress_fast_correct [OF assms] by simp

theorem lz4_roundtrip_witness:
  "\<exists>out. LZ4_compress_fast [1, 2, 3] 64 1 = Some out \<and>
         LZ4_decompress_unsafe_generic out 3 = Some ([1, 2, 3], length out) \<and> length out \<le> 64"
proof -
  obtain out where "LZ4_compress_fast [1, 2, 3] 64 1 = Some out"
    using compress_fast_succeeds [of "[1, 2, 3]" 64 1] by (auto simp: LZ4_compressBound_def lz4_consts)
  then show ?thesis using lz4_roundtrip [of "[1, 2, 3]" 64 1 out] by (simp add: numeral_3_eq_3)
qed

text \<open>
  C22: A destination of \<open>LZ4_compressBound\<close> bytes is always enough: compression of any supported source
  returns a block, and the block is within the bound.
\<close>

theorem lz4_bound_suffices:
  assumes "length src \<le> LZ4_MAX_INPUT_SIZE" "LZ4_compressBound (int (length src)) \<le> int cap"
  shows "\<exists>out. LZ4_compress_fast src cap acc = Some out \<and> int (length out) \<le> LZ4_compressBound (int (length src))"
proof -
  obtain out where out: "LZ4_compress_fast src cap acc = Some out" using compress_fast_succeeds [OF assms] by blast
  obtain dir tt k cap' where c: "LZ4_compress_fast src cap acc = LZ4_compress_generic src cap' dir tt k"
      "0 < k" "tt = byU16 \<longrightarrow> length src < LZ4_64Klimit"
    by (rule compress_fast_generic)
  have "length out \<le> length src + length src div 255 + 16"
    using compress_generic_correct(2) [OF out [unfolded c(1)] c(2)] c(3) by blast
  then show ?thesis using out assms(1) by (auto simp: LZ4_compressBound_def zdiv_int)
qed

theorem lz4_bound_suffices_witness:
  "\<exists>out. LZ4_compress_fast (replicate 300 7) 320 1 = Some out \<and> int (length out) \<le> LZ4_compressBound 300"
  using lz4_bound_suffices [of "replicate 300 7" 320 1] by (simp add: LZ4_compressBound_def lz4_consts)

text \<open>
  C24: \<open>LZ4_count\<close>, which compares eight bytes at a time and takes the first difference from the
  trailing zeros of an exclusive or, computes the length of the common prefix of the two ranges.
\<close>

theorem lz4_count_is_common_prefix:
  assumes "pMatch \<le> pIn" "pIn \<le> pInLimit" "pInLimit \<le> length src"
  shows "LZ4_count src pIn pMatch pInLimit =
         common_prefix (slice pMatch (pInLimit - pIn) src) (slice pIn (pInLimit - pIn) src)"
  using assms by (intro count_common_prefix)

theorem lz4_count_is_common_prefix_witness:
  "LZ4_count (replicate 20 7) 4 0 15 = common_prefix (slice 0 11 (replicate 20 7)) (slice 4 11 (replicate 20 (7 :: u8)))"
  using lz4_count_is_common_prefix [of 0 4 15 "replicate 20 7"] by simp

text \<open>
  C23: A block expands at most 255-fold.  The compressor never packs more than 255 source bytes into one
  byte of the block, so a reader that refuses a larger ratio as corrupt accepts every block it wrote.
\<close>

theorem lz4_expansion_bounded:
  assumes "LZ4_compress_fast src cap acc = Some out"
  shows "length src \<le> 255 * length out"
proof -
  have "lz4_decompress out (length src) = Some src"
    using compress_fast_correct [OF assms] by (simp add: lz4_decompress_def)
  then show ?thesis by (rule decompress_ratio)
qed

theorem lz4_expansion_bounded_witness:
  "\<exists>out. LZ4_compress_fast (replicate 300 7) 320 1 = Some out \<and> 2 \<le> length out"
proof -
  obtain out where out: "LZ4_compress_fast (replicate 300 7) 320 1 = Some out"
    using compress_fast_succeeds [of "replicate 300 7" 320 1] by (auto simp: LZ4_compressBound_def lz4_consts)
  from lz4_expansion_bounded [OF this] out show ?thesis by auto
qed

end
