(* ===== verification/Writer.thy ===== *)
theory Writer
  imports Entries Config Lz4_Correct
begin

text \<open>
  The trace writer of \<open>src/writer.c\<close>: a buffer that entries are reserved in, flushed to one
  compressed file per fragment.

  The two allocations of a writer are byte lists, \<open>None\<close> for a null pointer.  A reserved region is
  the offset of its first byte.  Dereferencing a null pointer and leaving a block are faults.  The
  hook \<open>coldtrace_writer_close\<close> is a weak symbol with an empty body and has no effect here.
\<close>

section \<open>State\<close>

record writer_impl =
  w_initd :: bool
  w_failed :: bool
  w_mmapped :: bool
  w_buffer :: "bytes option"
  w_comp_buf :: "bytes option"
  w_size :: u64
  w_offset :: u64
  w_tid :: u64
  w_enumerator :: u32
  w_md :: u64

text \<open>
  What the writer takes from outside the repository: the outcomes of the system calls, the version
  header whose constants the build generates, the thread id of a thread's metadata (\<open>self_id\<close>), the id
  of the main thread (\<open>MAIN_THREAD\<close>), the atomic increment of a counter (\<open>vatomic64_get_inc\<close>: the value
  returned and the value stored) and the spin lock (\<open>caslock_acquire\<close> on a lock word, \<open>None\<close> while it
  spins, and \<open>caslock_release\<close>).
\<close>

record host =
  h_env :: os_env
  h_version :: version_header
  h_self_id :: "u64 \<Rightarrow> u64"
  h_main_thread :: u64
  h_get_inc :: "u64 \<Rightarrow> u64 \<times> u64"
  h_acquire :: "bool \<Rightarrow> bool option"
  h_release :: "bool \<Rightarrow> bool"

definition zero_writer :: writer_impl where
  "zero_writer = \<lparr>w_initd = False, w_failed = False, w_mmapped = False, w_buffer = None, w_comp_buf = None,
     w_size = 0, w_offset = 0, w_tid = 0, w_enumerator = 0, w_md = 0\<rparr>"

definition FRAG_HDR_SIZE :: nat where "FRAG_HDR_SIZE = sizeof_version_header + 4"

definition LZ4_ACCELERATION :: int where "LZ4_ACCELERATION = 1"

text \<open>The conversion \<open>(int)\<close> of a 64-bit size.\<close>

definition c_int :: "u64 \<Rightarrow> int" where "c_int n = sint (ucast n :: u32)"

section \<open>Fragments\<close>

definition validate_trace_size :: "u64 \<Rightarrow> bool \<Rightarrow> bool" where
  "validate_trace_size sz compressed =
     (if unat sz < sizeof_version_header then False
      else if compressed \<and> LZ4_MAX_INPUT_SIZE < unat sz then False
      else True)"

definition release_buffers :: "writer_impl \<Rightarrow> writer_impl" where
  "release_buffers w = w\<lparr>w_buffer := None, w_comp_buf := None\<rparr>"

definition fail :: "writer_impl \<Rightarrow> writer_impl" where
  "fail w = (release_buffers w)\<lparr>w_failed := True\<rparr>"

text \<open>The loop of \<open>first_fragment_\<close>; the enumerator wraps around.\<close>

fun first_fragment_loop ::
  "nat \<Rightarrow> host \<Rightarrow> config \<Rightarrow> writer_impl \<Rightarrow> os \<Rightarrow> (bool \<times> writer_impl \<times> os) res"
where
  "first_fragment_loop 0 h c w s = Inl No_Progress"
| "first_fragment_loop (Suc k) h c w s =
     bindR (format_file_name c (w_tid w) (w_enumerator w)) (\<lambda>file_name.
       case os_open_excl (h_env h) file_name s of
         (Inr _, s') \<Rightarrow> Inr (True, w, s')
       | (Inl e, s') \<Rightarrow>
           if e \<noteq> EEXIST then Inr (False, w, s')
           else first_fragment_loop k h c (w\<lparr>w_enumerator := w_enumerator w + 1\<rparr>) s')"

definition first_fragment :: "host \<Rightarrow> config \<Rightarrow> writer_impl \<Rightarrow> os \<Rightarrow> (bool \<times> writer_impl \<times> os) res" where
  "first_fragment h c w s = first_fragment_loop (ev_fuel (h_env h)) h c w s"

fun write_all :: "nat \<Rightarrow> host \<Rightarrow> string \<Rightarrow> bytes \<Rightarrow> os \<Rightarrow> (bool \<times> os) res" where
  "write_all 0 h fd p s = (if length p = 0 then Inr (True, s) else Inl No_Progress)"
| "write_all (Suc k) h fd p s =
     (if length p = 0 then Inr (True, s)
      else case os_write (h_env h) fd p s of
        (Inl e, s') \<Rightarrow> if e = EINTR then write_all k h fd p s' else Inr (False, s')
      | (Inr w, s') \<Rightarrow> write_all k h fd (drop w p) s')"

text \<open>The call of \<open>LZ4_compress_fast\<close>: the source starts after the header; \<open>None\<close> for a result of 0.\<close>

definition compress_entries :: "bytes \<Rightarrow> u64 \<Rightarrow> u64 \<Rightarrow> bytes option res" where
  "compress_entries buf raw sz =
     (if c_int raw < 0 \<or> int LZ4_MAX_INPUT_SIZE < c_int raw then Inr None
      else bindR (load sizeof_version_header (nat (c_int raw)) buf) (\<lambda>src.
        Inr (LZ4_compress_fast src (nat (LZ4_compressBound (c_int sz))) LZ4_ACCELERATION)))"

text \<open>The image of the fragment file in the compression buffer, and its length; \<open>None\<close> when
  compression failed.\<close>

definition fragment_image :: "host \<Rightarrow> writer_impl \<Rightarrow> (bytes \<times> nat option) res" where
  "fragment_image h w =
     (case (w_buffer w, w_comp_buf w) of
        (Some buf, Some comp_buf) \<Rightarrow>
          (let raw = w_offset w - of_nat sizeof_version_header in
           bindR (store 0 (version_header_bytes (h_version h)) comp_buf) (\<lambda>cb1.
           bindR (store sizeof_version_header (u32_bytes (ucast raw)) cb1) (\<lambda>cb2.
           bindR (compress_entries buf raw (w_size w)) (\<lambda>comp.
             case comp of
               None \<Rightarrow> Inr (cb2, None)
             | Some out \<Rightarrow>
                 bindR (store FRAG_HDR_SIZE out cb2) (\<lambda>cb3. Inr (cb3, Some (FRAG_HDR_SIZE + length out)))))))
      | _ \<Rightarrow> Inl Out_Of_Bounds)"

definition flush :: "host \<Rightarrow> config \<Rightarrow> writer_impl \<Rightarrow> os \<Rightarrow> (writer_impl \<times> os) res" where
  "flush h c w s =
     (if \<not> w_mmapped w then Inr (w, s)
      else
        bindR (fragment_image h w) (\<lambda>(cb, len).
          let w1 = w\<lparr>w_comp_buf := Some cb\<rparr> in
          case len of
            None \<Rightarrow> Inr (fail w1, s)
          | Some n \<Rightarrow>
              bindR (format_file_name c (w_tid w1) (w_enumerator w1)) (\<lambda>file_name.
                case os_open_trunc (h_env h) file_name s of
                  (Inl e, s1) \<Rightarrow> Inr (fail w1, s1)
                | (Inr _, s1) \<Rightarrow>
                    bindR (load 0 n cb) (\<lambda>img.
                    bindR (write_all (ev_fuel (h_env h)) h file_name img s1) (\<lambda>(ok, s2).
                      if \<not> ok then Inr (fail w1, os_unlink file_name s2)
                      else Inr (w1, s2))))))"

definition begin_fragment :: "host \<Rightarrow> writer_impl \<Rightarrow> writer_impl res" where
  "begin_fragment h w =
     (case w_buffer w of
        None \<Rightarrow> Inl Out_Of_Bounds
      | Some b \<Rightarrow>
          bindR (store 0 (version_header_bytes (h_version h)) b) (\<lambda>b'.
            Inr (w\<lparr>w_buffer := Some b', w_offset := of_nat sizeof_version_header\<rparr>)))"

text \<open>The two ways \<open>ensure_buffer_\<close> gets its memory.\<close>

definition ensure_pool_buffer :: "host \<Rightarrow> writer_impl \<Rightarrow> os \<Rightarrow> (bool \<times> writer_impl \<times> os) res" where
  "ensure_pool_buffer h w s =
     (case os_alloc (h_env h) (w_size w) s of
        (None, s1) \<Rightarrow> Inr (False, w\<lparr>w_buffer := None, w_mmapped := False\<rparr>, s1)
      | (Some b, s1) \<Rightarrow>
          bindR (begin_fragment h (w\<lparr>w_buffer := Some b, w_mmapped := False\<rparr>)) (\<lambda>w1. Inr (True, w1, s1)))"

definition ensure_mapped_buffer :: "host \<Rightarrow> config \<Rightarrow> writer_impl \<Rightarrow> os \<Rightarrow> (bool \<times> writer_impl \<times> os) res" where
  "ensure_mapped_buffer h c w s =
     (case os_mmap (h_env h) (w_size w) s of
        (None, s1) \<Rightarrow> Inr (False, w\<lparr>w_buffer := None, w_failed := True\<rparr>, s1)
      | (Some b, s1) \<Rightarrow>
          let w1 = w\<lparr>w_buffer := Some b, w_mmapped := True\<rparr> in
          (case os_alloc (h_env h) (of_nat FRAG_HDR_SIZE + of_int (LZ4_compressBound (c_int (w_size w1)))) s1 of
             (None, s2) \<Rightarrow> Inr (False, fail (w1\<lparr>w_comp_buf := None\<rparr>), s2)
           | (Some cb, s2) \<Rightarrow>
               bindR (first_fragment h c (w1\<lparr>w_comp_buf := Some cb\<rparr>) s2) (\<lambda>(ok, w2, s3).
                 if \<not> ok then Inr (False, fail w2, s3)
                 else bindR (begin_fragment h w2) (\<lambda>w3. Inr (True, w3, s3)))))"

definition ensure_buffer :: "host \<Rightarrow> config \<Rightarrow> writer_impl \<Rightarrow> os \<Rightarrow> (bool \<times> writer_impl \<times> os) res" where
  "ensure_buffer h c w s =
     (if \<not> w_initd w then Inr (False, w, s)
      else if w_failed w then Inr (False, w, s)
      else if w_buffer w \<noteq> None then Inr (True, w, s)
      else
        let disabled = coldtrace_writes_disabled c;
            w1 = w\<lparr>w_size := coldtrace_get_trace_size c, w_offset := 0, w_enumerator := 0\<rparr>
        in if \<not> validate_trace_size (w_size w1) (\<not> disabled)
           then Inr (False, w1\<lparr>w_failed := True\<rparr>, s)
           else if disabled then ensure_pool_buffer h w1 s
           else ensure_mapped_buffer h c w1 s)"

definition advance_fragment :: "host \<Rightarrow> config \<Rightarrow> writer_impl \<Rightarrow> os \<Rightarrow> (writer_impl \<times> os) res" where
  "advance_fragment h c w s =
     (if \<not> w_mmapped w then
        let sz = coldtrace_get_trace_size c in
        if w_size w \<noteq> sz \<and> validate_trace_size sz False then
          (case os_alloc (h_env h) sz s of
             (Some b, s1) \<Rightarrow> Inr (w\<lparr>w_buffer := Some b, w_size := sz, w_offset := 0\<rparr>, s1)
           | (None, s1) \<Rightarrow> Inr (w\<lparr>w_offset := 0\<rparr>, s1))
        else Inr (w\<lparr>w_offset := 0\<rparr>, s)
      else if coldtrace_get_max c = 0 then Inl Div_By_Zero
      else Inr (w\<lparr>w_enumerator := (w_enumerator w + 1) mod coldtrace_get_max c\<rparr>, s))"

definition new_trace :: "host \<Rightarrow> config \<Rightarrow> writer_impl \<Rightarrow> os \<Rightarrow> (writer_impl \<times> os) res" where
  "new_trace h c w s =
     bindR (flush h c w s) (\<lambda>(w1, s1).
       if w_buffer w1 = None then Inr (w1, s1)
       else bindR (advance_fragment h c w1 s1) (\<lambda>(w2, s2).
            bindR (begin_fragment h w2) (\<lambda>w3. Inr (w3, s2))))"

section \<open>Interface\<close>

definition coldtrace_writer_new_trace :: "config \<Rightarrow> writer_impl \<Rightarrow> u64 \<Rightarrow> bool" where
  "coldtrace_writer_new_trace c w n =
     (let sz = coldtrace_get_trace_size c;
          limit = (if sz < w_size w then sz else w_size w)
      in limit < w_offset w + n)"

definition coldtrace_writer_reserve ::
  "host \<Rightarrow> config \<Rightarrow> u64 \<Rightarrow> writer_impl \<Rightarrow> os \<Rightarrow> (u64 option \<times> writer_impl \<times> os) res"
where
  "coldtrace_writer_reserve h c n w s =
     bindR (ensure_buffer h c w s) (\<lambda>(ok, w1, s1).
       if \<not> ok then Inr (None, w1, s1)
       else if coldtrace_writer_new_trace c w1 n then
         bindR (new_trace h c w1 s1) (\<lambda>(w2, s2).
           if w_buffer w2 = None then Inr (None, w2, s2)
           else Inr (Some (w_offset w2), w2\<lparr>w_offset := w_offset w2 + n\<rparr>, s2))
       else Inr (Some (w_offset w1), w1\<lparr>w_offset := w_offset w1 + n\<rparr>, s1))"

definition coldtrace_writer_init :: "host \<Rightarrow> u64 option \<Rightarrow> writer_impl \<Rightarrow> writer_impl" where
  "coldtrace_writer_init h md w =
     (case md of
        None \<Rightarrow> w\<lparr>w_initd := False, w_buffer := None, w_comp_buf := None\<rparr>
      | Some m \<Rightarrow> \<lparr>w_initd = True, w_failed = False, w_mmapped = False, w_buffer = None, w_comp_buf = None,
                   w_size = 0, w_offset = 0, w_tid = h_self_id h m, w_enumerator = 0, w_md = m\<rparr>)"

definition coldtrace_writer_fini :: "host \<Rightarrow> config \<Rightarrow> writer_impl \<Rightarrow> os \<Rightarrow> (writer_impl \<times> os) res" where
  "coldtrace_writer_fini h c w s =
     (if \<not> w_initd w then Inr (w, s)
      else
        bindR (if w_buffer w \<noteq> None then flush h c w s else Inr (w, s)) (\<lambda>(w1, s1).
          Inr ((release_buffers w1)\<lparr>w_initd := False\<rparr>, s1)))"

text \<open>The stores a caller makes through the pointer that \<open>coldtrace_writer_reserve\<close> returned.\<close>

definition writer_store :: "nat \<Rightarrow> bytes \<Rightarrow> writer_impl \<Rightarrow> writer_impl res" where
  "writer_store off bs w =
     (case w_buffer w of
        None \<Rightarrow> Inl Out_Of_Bounds
      | Some b \<Rightarrow> bindR (store off bs b) (\<lambda>b'. Inr (w\<lparr>w_buffer := Some b'\<rparr>)))"

end
