(* ===== verification/Writer_Correct.thy ===== *)
theory Writer_Correct
  imports Writer
begin

text \<open>
  Correctness of the writer: the loops over \<open>write\<close> and over the fragment names, the invariant of the
  writer and its preservation by every operation, the contents of a flushed fragment file, and the
  failure paths.
\<close>

lemma sizeof_version_header_eq [simp]: "sizeof_version_header = 8"
  by (simp add: sizeof_version_header_def)

lemma FRAG_HDR_SIZE_eq [simp]: "FRAG_HDR_SIZE = 12"
  by (simp add: FRAG_HDR_SIZE_def)

section \<open>Writing a whole buffer\<close>

text \<open>A call of \<open>write\<close> that is neither interrupted nor writes nothing.\<close>

definition productive :: "os_env \<Rightarrow> nat \<Rightarrow> bool" where
  "productive env t \<longleftrightarrow> (case ev_write env t of Wrote n \<Rightarrow> 0 < n | Write_Intr \<Rightarrow> False | Write_Err \<Rightarrow> True)"

definition productive_calls :: "os_env \<Rightarrow> nat \<Rightarrow> nat \<Rightarrow> nat" where
  "productive_calls env t k = length (filter (productive env) [t..<t + k])"

lemma productive_calls_Suc:
  "productive_calls env t (Suc k) = (if productive env t then 1 else 0) + productive_calls env (Suc t) k"
  by (simp add: productive_calls_def upt_conv_Cons del: upt_Suc)

lemma write_all_returns:
  "length p \<le> productive_calls (h_env h) (clock s) k \<Longrightarrow> \<exists>r. write_all k h fd p s = Inr r"
proof (induction k arbitrary: p s)
  case 0
  then show ?case by (auto simp: productive_calls_def)
next
  case (Suc k)
  show ?case
  proof (cases "ev_write (h_env h) (clock s)")
    case (Wrote n)
    have "length (drop (min n (length p)) p) \<le> productive_calls (h_env h) (Suc (clock s)) k"
      using Suc.prems Wrote by (auto simp: productive_calls_Suc productive_def split: if_splits)
    then show ?thesis
      using Suc.IH [of "drop (min n (length p)) p" "tick (append_file fd (take n p) s)"] Wrote
      by (auto simp: os_write_def)
  next
    case Write_Intr
    then show ?thesis
      using Suc.IH [of p "tick s"] Suc.prems by (auto simp: os_write_def productive_calls_Suc productive_def)
  next
    case Write_Err
    then show ?thesis by (auto simp: os_write_def)
  qed
qed

lemma write_all_contents:
  "write_all k h fd p s = Inr (ok, s') \<Longrightarrow> node_at s fd = Some (Reg old) \<Longrightarrow>
   (\<exists>n. node_at s' fd = Some (Reg (old @ take n p)) \<and> (ok \<longrightarrow> length p \<le> n)) \<and>
   (\<forall>q. q \<noteq> fd \<longrightarrow> node_at s' q = node_at s q)"
proof (induction k arbitrary: p s old)
  case 0
  then show ?case by (auto split: if_splits intro: exI [of _ 0])
next
  case (Suc k)
  show ?case
  proof (cases "p = []")
    case True
    then show ?thesis using Suc.prems by auto
  next
    case False
    show ?thesis
    proof (cases "ev_write (h_env h) (clock s)")
      case (Wrote n)
      let ?m = "min n (length p)" and ?s1 = "tick (append_file fd (take n p) s)"
      have "write_all k h fd (drop ?m p) ?s1 = Inr (ok, s')"
        using Suc.prems(1) False Wrote by (simp add: os_write_def)
      moreover have "node_at ?s1 fd = Some (Reg (old @ take ?m p))"
        using Suc.prems(2) by (simp add: node_at_append_file min_def)
      ultimately obtain j where j: "node_at s' fd = Some (Reg ((old @ take ?m p) @ take j (drop ?m p)))"
          "ok \<longrightarrow> length (drop ?m p) \<le> j" "\<forall>q. q \<noteq> fd \<longrightarrow> node_at s' q = node_at ?s1 q"
        using Suc.IH by blast
      have "take ?m p @ take j (drop ?m p) = take (?m + j) p" by (simp only: take_add)
      then have "node_at s' fd = Some (Reg (old @ take (?m + j) p))" using j(1) by simp
      moreover have "ok \<longrightarrow> length p \<le> ?m + j" using j(2) by auto
      ultimately show ?thesis using j(3) Suc.prems(2) by (auto simp: node_at_append_file)
    next
      case Write_Intr
      then show ?thesis
        using Suc.IH [of p "tick s" old] Suc.prems False by (simp add: os_write_def)
    next
      case Write_Err
      then have "ok = False" "s' = tick s" using Suc.prems(1) False by (auto simp: os_write_def)
      then show ?thesis using Suc.prems(2) by (auto intro: exI [of _ 0])
    qed
  qed
qed

lemma write_all_more_fuel: "write_all k h fd p s = Inr r \<Longrightarrow> write_all (k + j) h fd p s = Inr r"
proof (induction k arbitrary: p s)
  case 0
  then show ?case by (cases j) (auto split: if_splits)
next
  case (Suc k)
  then show ?case by (auto split: if_splits sum.splits prod.splits)
qed

section \<open>Choosing the first fragment\<close>

abbreviation name_of :: "config \<Rightarrow> writer_impl \<Rightarrow> u32 \<Rightarrow> string" where
  "name_of c w e \<equiv> fragment_name (path c) (ucast (w_tid w)) e"

text \<open>The file \<open>p\<close> was absent and is empty now, the others are as before; or nothing changed.\<close>

definition created_only :: "bool \<Rightarrow> string \<Rightarrow> os \<Rightarrow> os \<Rightarrow> bool" where
  "created_only ok p s s' \<longleftrightarrow>
     (if ok then node_at s p = None \<and> node_at s' = (node_at s)(p \<mapsto> Reg []) else node_at s' = node_at s)"

lemma created_only_tick: "created_only ok p (tick s) s' = created_only ok p s s'"
  by (simp add: created_only_def fun_eq_iff)

lemma first_fragment_loop_result:
  "first_fragment_loop k h c w s = Inr (ok, w', s') \<Longrightarrow> config_path_ok c \<Longrightarrow>
   \<exists>j. w' = w\<lparr>w_enumerator := w_enumerator w + of_nat j\<rparr> \<and>
       (\<forall>i<j. node_at s (name_of c w (w_enumerator w + of_nat i)) \<noteq> None) \<and>
       created_only ok (name_of c w (w_enumerator w')) s s'"
proof (induction k arbitrary: w s)
  case 0
  then show ?case by simp
next
  case (Suc k)
  let ?n = "name_of c w (w_enumerator w)"
  let ?w1 = "w\<lparr>w_enumerator := w_enumerator w + 1\<rparr>"
  have nm: "format_file_name c (w_tid w) (w_enumerator w) = Inr ?n" by (rule format_file_name_ok [OF Suc.prems(2)])
  consider (err) "ev_open_err (h_env h) (clock s)"
    | (free) "\<not> ev_open_err (h_env h) (clock s)" "node_at s ?n = None"
    | (taken) x where "\<not> ev_open_err (h_env h) (clock s)" "node_at s ?n = Some x"
    by fastforce
  then show ?case
  proof cases
    case err
    then show ?thesis
      using Suc.prems(1) nm by (auto simp: os_open_excl_def created_only_def fun_eq_iff intro!: exI [of _ 0])
  next
    case free
    then show ?thesis
      using Suc.prems(1) nm by (auto simp: os_open_excl_def created_only_def fun_eq_iff intro!: exI [of _ 0])
  next
    case taken
    then have "first_fragment_loop k h c ?w1 (tick s) = Inr (ok, w', s')"
      using Suc.prems(1) nm by (simp add: os_open_excl_def)
    from Suc.IH [OF this Suc.prems(2)] obtain j where
      j: "w' = ?w1\<lparr>w_enumerator := w_enumerator ?w1 + of_nat j\<rparr>"
        "\<forall>i<j. node_at s (name_of c w (w_enumerator ?w1 + of_nat i)) \<noteq> None"
        "created_only ok (name_of c w (w_enumerator w')) s s'"
      by (auto simp: created_only_tick)
    have "node_at s (name_of c w (w_enumerator w + of_nat i)) \<noteq> None" if "i < Suc j" for i
      using that j(2) taken(2) by (cases i) (auto simp: ac_simps)
    then show ?thesis using j(1,3) by (intro exI [of _ "Suc j"]) (simp add: ac_simps)
  qed
qed

lemma first_fragment_loop_returns:
  "config_path_ok c \<Longrightarrow> i < k \<Longrightarrow> node_at s (name_of c w (w_enumerator w + of_nat i)) = None \<Longrightarrow>
   \<exists>r. first_fragment_loop k h c w s = Inr r"
proof (induction k arbitrary: w s i)
  case 0
  then show ?case by simp
next
  case (Suc k)
  let ?w1 = "w\<lparr>w_enumerator := w_enumerator w + 1\<rparr>"
  have "\<exists>r. first_fragment_loop k h c ?w1 (tick s) = Inr r"
    if "node_at s (name_of c w (w_enumerator w)) \<noteq> None"
  proof (cases i)
    case 0
    then show ?thesis using that Suc.prems by simp
  next
    case (Suc i')
    then show ?thesis using Suc.IH [of i' "tick s" ?w1] Suc.prems by (simp add: ac_simps)
  qed
  then show ?case
    using format_file_name_ok [OF Suc.prems(1), of "w_tid w" "w_enumerator w"]
    by (auto simp: os_open_excl_def split: option.splits)
qed

text \<open>With fewer files than attempts one of the names tried is free.\<close>

lemma free_name:
  assumes "length (fs s) < k" "k \<le> 2 ^ 32"
  obtains i where "i < k" "node_at s (name_of c w (e + of_nat i)) = None"
proof -
  let ?f = "\<lambda>i. name_of c w (e + of_nat i)"
  have "inj_on ?f {..<k}"
  proof (rule inj_onI)
    fix i j assume ij: "i \<in> {..<k}" "j \<in> {..<k}" "?f i = ?f j"
    then have "(of_nat i :: u32) = of_nat j" by (simp add: fragment_name_inject)
    moreover have "unat (of_nat i :: u32) = i" "unat (of_nat j :: u32) = j"
      using ij assms(2) by (auto intro!: unat_of_nat_small)
    ultimately show "i = j" by metis
  qed
  then have "card (?f ` {..<k}) = k" by (simp add: card_image)
  moreover have "card (fst ` set (fs s)) \<le> length (fs s)"
    by (metis card_length length_map list.set_map)
  ultimately have "\<not> ?f ` {..<k} \<subseteq> fst ` set (fs s)"
    using assms(1) card_mono [of "fst ` set (fs s)" "?f ` {..<k}"] by auto
  then show ?thesis using that by (auto simp: node_at_def map_of_eq_None_iff)
qed

section \<open>The invariant\<close>

definition comp_capacity :: "writer_impl \<Rightarrow> nat" where
  "comp_capacity w = nat (LZ4_compressBound (int (unat (w_size w))))"

lemma comp_capacity_update [simp]:
  "comp_capacity (w\<lparr>w_buffer := x\<rparr>) = comp_capacity w" "comp_capacity (w\<lparr>w_offset := o'\<rparr>) = comp_capacity w"
  "comp_capacity (w\<lparr>w_enumerator := e\<rparr>) = comp_capacity w" "comp_capacity (w\<lparr>w_comp_buf := y\<rparr>) = comp_capacity w"
  by (simp_all add: comp_capacity_def)

text \<open>
  A writer without a buffer owns no memory.  With a buffer it has not failed, the buffer has the
  recorded size and starts with the version header, the offset is between the header and the end,
  and a mapped buffer comes with a compression buffer that is large enough for any contents.
\<close>

definition block_ok :: "writer_impl \<Rightarrow> bytes \<Rightarrow> bool" where
  "block_ok w b \<longleftrightarrow>
     w_initd w \<and> \<not> w_failed w \<and> length b = unat (w_size w) \<and> 8 \<le> length b \<and> length b < 2 ^ 63 \<and>
     (if w_mmapped w
      then unat (w_size w) \<le> LZ4_MAX_INPUT_SIZE \<and>
           map_option length (w_comp_buf w) = Some (12 + comp_capacity w)
      else w_comp_buf w = None)"

definition buffer_ok :: "host \<Rightarrow> writer_impl \<Rightarrow> bytes \<Rightarrow> bool" where
  "buffer_ok h w b \<longleftrightarrow>
     block_ok w b \<and> 8 \<le> unat (w_offset w) \<and> unat (w_offset w) \<le> length b \<and>
     take 8 b = version_header_bytes (h_version h)"

definition writer_inv :: "host \<Rightarrow> writer_impl \<Rightarrow> bool" where
  "writer_inv h w \<longleftrightarrow> (case w_buffer w of None \<Rightarrow> w_comp_buf w = None | Some b \<Rightarrow> buffer_ok h w b)"

lemma writer_inv_Some: "writer_inv h w \<Longrightarrow> w_buffer w = Some b \<Longrightarrow> buffer_ok h w b"
  by (simp add: writer_inv_def)

lemma inv_no_buffer: "w_buffer w = None \<Longrightarrow> w_comp_buf w = None \<Longrightarrow> writer_inv h w"
  by (simp add: writer_inv_def)

lemma fail_simps [simp]:
  "w_buffer (fail w) = None" "w_comp_buf (fail w) = None" "w_failed (fail w)" "w_initd (fail w) = w_initd w"
  "w_tid (fail w) = w_tid w" "w_md (fail w) = w_md w"
  by (simp_all add: fail_def release_buffers_def)

lemma inv_fail: "writer_inv h (fail w)"
  by (simp add: inv_no_buffer)

lemma inv_init: "writer_inv h (coldtrace_writer_init h md w)"
  by (simp add: coldtrace_writer_init_def inv_no_buffer split: option.splits)

lemma c_int_small:
  assumes "unat n < 2 ^ 31"
  shows "c_int n = int (unat n)"
proof -
  have n: "uint n < 2 ^ 31"
    using assms by (metis of_nat_less_iff of_nat_numeral of_nat_power of_nat_unat)
  then have "uint (ucast n :: u32) = uint n"
    by (simp add: unsigned_ucast_eq take_bit_int_eq_self)
  moreover have "signed_take_bit 31 (uint n) = uint n"
    using n order_trans [of "- (2 ^ 31)" 0 "uint n"] by (intro signed_take_bit_int_eq_self) auto
  ultimately show ?thesis by (simp add: c_int_def sint_uint)
qed

lemma LZ4_MAX_small: "n \<le> LZ4_MAX_INPUT_SIZE \<Longrightarrow> n < 2 ^ 31"
  by (simp add: LZ4_MAX_INPUT_SIZE_def)

lemma compressBound_nonneg: "0 \<le> LZ4_compressBound z"
  using pos_imp_zdiv_nonneg_iff [of 255 z] by (auto simp: LZ4_compressBound_def)

lemma compressBound_mono: "a \<le> b \<Longrightarrow> b \<le> int LZ4_MAX_INPUT_SIZE \<Longrightarrow> LZ4_compressBound a \<le> LZ4_compressBound b"
  by (simp add: LZ4_compressBound_def zdiv_mono1 add_mono)

section \<open>Flushing a fragment\<close>

text \<open>The entries of the current fragment: the bytes between the header and the offset.\<close>

definition entries_of :: "writer_impl \<Rightarrow> bytes" where
  "entries_of w = (case w_buffer w of None \<Rightarrow> [] | Some b \<Rightarrow> slice 8 (unat (w_offset w) - 8) b)"

definition compressed :: "writer_impl \<Rightarrow> bytes" where
  "compressed w =
     (case LZ4_compress_fast (entries_of w) (comp_capacity w) LZ4_ACCELERATION of None \<Rightarrow> [] | Some out \<Rightarrow> out)"

text \<open>The contents the fragment file is meant to have.\<close>

definition fragment_file :: "host \<Rightarrow> writer_impl \<Rightarrow> bytes" where
  "fragment_file h w =
     version_header_bytes (h_version h) @ u32_bytes (of_nat (length (entries_of w))) @ compressed w"

lemma length_entries_of: "buffer_ok h w b \<Longrightarrow> w_buffer w = Some b \<Longrightarrow> length (entries_of w) = unat (w_offset w) - 8"
  by (simp add: entries_of_def buffer_ok_def block_ok_def)

text \<open>Compression of a fragment cannot fail: the destination has room for the worst case.\<close>

lemma compressed_ok:
  assumes "buffer_ok h w b" "w_buffer w = Some b" "w_mmapped w"
  shows "LZ4_compress_fast (entries_of w) (comp_capacity w) LZ4_ACCELERATION = Some (compressed w)"
    and "length (compressed w) \<le> comp_capacity w"
    and "lz4_decompress (compressed w) (length (entries_of w)) = Some (entries_of w)"
proof -
  have sz: "unat (w_size w) \<le> LZ4_MAX_INPUT_SIZE" and len: "length (entries_of w) \<le> unat (w_size w)"
    using assms length_entries_of [OF assms(1,2)] by (auto simp: buffer_ok_def block_ok_def)
  have "LZ4_compressBound (int (length (entries_of w))) \<le> LZ4_compressBound (int (unat (w_size w)))"
    using sz len by (intro compressBound_mono) (auto simp del: of_nat_unat)
  then have "nat (LZ4_compressBound (int (length (entries_of w)))) \<le> comp_capacity w"
    by (simp add: comp_capacity_def)
  then obtain out where out: "LZ4_compress_fast (entries_of w) (comp_capacity w) 1 = Some out"
      "length out \<le> comp_capacity w" "lz4_decompress out (length (entries_of w)) = Some (entries_of w)"
    using lz4.compress_roundtrip [of "entries_of w" "comp_capacity w"] sz len by auto
  then show "LZ4_compress_fast (entries_of w) (comp_capacity w) LZ4_ACCELERATION = Some (compressed w)"
    "length (compressed w) \<le> comp_capacity w"
    "lz4_decompress (compressed w) (length (entries_of w)) = Some (entries_of w)"
    by (simp_all add: compressed_def LZ4_ACCELERATION_def)
qed

lemma offset_minus_header:
  assumes "buffer_ok h w b"
  shows "unat (w_offset w - 8) = unat (w_offset w) - 8"
proof -
  have "(8 :: u64) \<le> w_offset w" using assms by (simp add: buffer_ok_def block_ok_def word_le_nat_alt)
  then show ?thesis by (simp add: unat_sub_small)
qed

lemma compress_entries_ok:
  assumes "buffer_ok h w b" "w_buffer w = Some b" "w_mmapped w"
  shows "compress_entries b (w_offset w - 8) (w_size w) = Inr (Some (compressed w))"
proof -
  have sz: "unat (w_size w) \<le> LZ4_MAX_INPUT_SIZE" and off: "unat (w_offset w) \<le> unat (w_size w)" "length b = unat (w_size w)"
    "8 \<le> unat (w_offset w)"
    using assms by (auto simp: buffer_ok_def block_ok_def)
  note raw = offset_minus_header [OF assms(1)]
  have "c_int (w_offset w - 8) = int (unat (w_offset w) - 8)" "c_int (w_size w) = int (unat (w_size w))"
    using sz off raw LZ4_MAX_small by (auto simp: c_int_small)
  then show ?thesis
    using off sz compressed_ok(1) [OF assms] assms(2)
    by (simp add: compress_entries_def entries_of_def comp_capacity_def del: of_nat_unat of_nat_diff)
qed

lemma fragment_image_ok:
  assumes "buffer_ok h w b" "w_buffer w = Some b" "w_mmapped w"
  obtains cb where "fragment_image h w = Inr (cb, Some (length (fragment_file h w)))"
    "take (length (fragment_file h w)) cb = fragment_file h w" "length cb = 12 + comp_capacity w"
proof -
  obtain cb0 where cb0: "w_comp_buf w = Some cb0" "length cb0 = 12 + comp_capacity w"
    using assms by (auto simp: buffer_ok_def block_ok_def split: option.splits)
  let ?v = "version_header_bytes (h_version h)" and ?r = "u32_bytes (ucast (w_offset w - 8))"
  have len: "length (compressed w) \<le> comp_capacity w" by (rule compressed_ok(2) [OF assms])
  have r: "?r = u32_bytes (of_nat (length (entries_of w)))"
    using length_entries_of [OF assms(1,2)] offset_minus_header [OF assms(1)] by (metis of_nat_unat)
  have 1: "splice 8 ?r (splice 0 ?v cb0) = splice 0 (?v @ ?r) cb0"
    using splice_adjacent [of 0 ?v ?r cb0] cb0(2) by simp
  have 2: "splice 12 (compressed w) (splice 0 (?v @ ?r) cb0) = splice 0 (fragment_file h w) cb0"
    using splice_adjacent [of 0 "?v @ ?r" "compressed w" cb0] cb0(2) len r by (simp add: fragment_file_def)
  have ff: "length (fragment_file h w) = 12 + length (compressed w)" by (simp add: fragment_file_def)
  have "fragment_image h w = Inr (splice 0 (fragment_file h w) cb0, Some (length (fragment_file h w)))"
    using cb0 len assms(2) compress_entries_ok [OF assms]
    by (simp add: fragment_image_def 1 2 [simplified] ff)
  then show ?thesis
    using that cb0(2) len ff by (simp add: splice_def)
qed

lemma fail_comp_buf [simp]: "fail (w\<lparr>w_comp_buf := x\<rparr>) = fail w"
  by (simp add: fail_def release_buffers_def)

lemma flush_mapped:
  assumes ok: "buffer_ok h w b" "w_buffer w = Some b" "w_mmapped w" and c: "config_path_ok c"
  obtains cb where "length cb = 12 + comp_capacity w"
    "flush h c w s =
       (if ev_open_err (h_env h) (clock s) \<or> node_at s (name_of c w (w_enumerator w)) = Some Dir
        then Inr (fail w, tick s)
        else bindR (write_all (ev_fuel (h_env h)) h (name_of c w (w_enumerator w)) (fragment_file h w)
                     (tick (set_node (name_of c w (w_enumerator w)) (Reg []) s)))
               (\<lambda>(fin, s2). if \<not> fin then Inr (fail w, os_unlink (name_of c w (w_enumerator w)) s2)
                            else Inr (w\<lparr>w_comp_buf := Some cb\<rparr>, s2)))"
proof -
  obtain cb where cb: "fragment_image h w = Inr (cb, Some (length (fragment_file h w)))"
      "take (length (fragment_file h w)) cb = fragment_file h w" "length cb = 12 + comp_capacity w"
    using fragment_image_ok [OF ok] by blast
  have nm: "format_file_name c (w_tid w) (w_enumerator w) = Inr (name_of c w (w_enumerator w))"
    using c by (rule format_file_name_ok)
  have "load 0 (length (fragment_file h w)) cb = Inr (fragment_file h w)"
    using cb(2) by (metis add_0 length_take load_ok min.cobounded1 slice_take)
  then show ?thesis
    using ok(3)
    by (intro that [OF cb(3)], cases "ev_open_err (h_env h) (clock s) \<or> node_at s (name_of c w (w_enumerator w)) = Some Dir")
       (simp_all add: flush_def cb(1) nm os_open_trunc_def Let_def cong: if_cong)
qed

text \<open>What a flush does: nothing to a pool buffer; else the file is written or the writer fails.\<close>

lemma flush_cases:
  assumes ok: "buffer_ok h w b" "w_buffer w = Some b" and c: "w_mmapped w \<longrightarrow> config_path_ok c"
    and fl: "flush h c w s = Inr (w', s')"
  obtains (pool) "\<not> w_mmapped w" "w' = w" "s' = s"
  | (written) cb where "w_mmapped w" "w' = w\<lparr>w_comp_buf := Some cb\<rparr>" "length cb = 12 + comp_capacity w"
      "node_at s' = (node_at s)(name_of c w (w_enumerator w) \<mapsto> Reg (fragment_file h w))"
  | (failed) "w_mmapped w" "w' = fail w"
      "node_at s' = node_at s \<or> node_at s' = (node_at s)(name_of c w (w_enumerator w) := None)"
proof (cases "w_mmapped w")
  case False
  then have "w' = w" "s' = s" using fl by (simp_all add: flush_def)
  then show ?thesis by (rule pool [OF False])
next
  case m: True
  let ?n = "name_of c w (w_enumerator w)"
  let ?s1 = "tick (set_node ?n (Reg []) s)"
  obtain cb where cb: "length cb = 12 + comp_capacity w"
    and run: "flush h c w s =
       (if ev_open_err (h_env h) (clock s) \<or> node_at s ?n = Some Dir then Inr (fail w, tick s)
        else bindR (write_all (ev_fuel (h_env h)) h ?n (fragment_file h w) ?s1)
               (\<lambda>(fin, s2). if \<not> fin then Inr (fail w, os_unlink ?n s2) else Inr (w\<lparr>w_comp_buf := Some cb\<rparr>, s2)))"
    using flush_mapped [OF ok m c [rule_format, OF m]] by blast
  show ?thesis
  proof (cases "ev_open_err (h_env h) (clock s) \<or> node_at s ?n = Some Dir")
    case True
    then have "w' = fail w" "s' = tick s" using run fl by simp_all
    then show ?thesis using failed m by (simp add: fun_eq_iff)
  next
    case False
    obtain fin s2 where wr: "write_all (ev_fuel (h_env h)) h ?n (fragment_file h w) ?s1 = Inr (fin, s2)"
    proof (cases "write_all (ev_fuel (h_env h)) h ?n (fragment_file h w) ?s1")
      case (Inl e)
      then show ?thesis using run fl False by simp
    next
      case (Inr x)
      then show ?thesis using that by (cases x) simp
    qed
    have res: "if fin then w' = w\<lparr>w_comp_buf := Some cb\<rparr> \<and> s' = s2 else w' = fail w \<and> s' = os_unlink ?n s2"
      using fl [unfolded run] False wr by (cases fin) simp_all
    from write_all_contents [OF wr, of "[]"] obtain k where
      k: "node_at s2 ?n = Some (Reg (take k (fragment_file h w)))" "fin \<longrightarrow> length (fragment_file h w) \<le> k"
        "\<forall>q. q \<noteq> ?n \<longrightarrow> node_at s2 q = node_at s q"
      by auto
    show ?thesis
    proof (cases "fin")
      case True
      then have "node_at s' = (node_at s)(?n \<mapsto> Reg (fragment_file h w))" using k res by (auto simp: fun_eq_iff)
      then show ?thesis using written m res cb True by simp
    next
      case False
      then have "node_at s' = (node_at s)(?n := None)" using k res by (auto simp: fun_eq_iff os_unlink_def)
      then show ?thesis using failed m res False by simp
    qed
  qed
qed

text \<open>From every point in time, \<open>n\<close> of the next calls of \<open>write\<close> make progress or fail.\<close>

definition env_live :: "host \<Rightarrow> nat \<Rightarrow> bool" where
  "env_live h n \<longleftrightarrow> (\<forall>t. n \<le> productive_calls (h_env h) t (ev_fuel (h_env h)))"

lemma length_fragment_file:
  "buffer_ok h w b \<Longrightarrow> w_buffer w = Some b \<Longrightarrow> w_mmapped w \<Longrightarrow> length (fragment_file h w) \<le> 12 + comp_capacity w"
  using compressed_ok(2) by (simp add: fragment_file_def)

lemma flush_returns:
  assumes ok: "buffer_ok h w b" "w_buffer w = Some b" and c: "w_mmapped w \<longrightarrow> config_path_ok c"
    and live: "env_live h (12 + comp_capacity w)"
  shows "\<exists>r. flush h c w s = Inr r"
proof (cases "w_mmapped w")
  case False
  then show ?thesis by (simp add: flush_def)
next
  case m: True
  let ?n = "name_of c w (w_enumerator w)" and ?s1 = "tick (set_node (name_of c w (w_enumerator w)) (Reg []) s)"
  have "length (fragment_file h w) \<le> productive_calls (h_env h) (clock ?s1) (ev_fuel (h_env h))"
    using live length_fragment_file [OF ok m] by (auto simp: env_live_def intro: order_trans)
  then obtain ok' s2 where "write_all (ev_fuel (h_env h)) h ?n (fragment_file h w) ?s1 = Inr (ok', s2)"
    using write_all_returns by fastforce
  then show ?thesis
    by (rule_tac flush_mapped [OF ok m c [rule_format, OF m], of s]) simp
qed

section \<open>Fresh fragments\<close>

lemma begin_fragment_ok:
  assumes "block_ok w b" "w_buffer w = Some b"
  obtains b' where "begin_fragment h w = Inr (w\<lparr>w_buffer := Some b', w_offset := 8\<rparr>)"
    "buffer_ok h (w\<lparr>w_buffer := Some b', w_offset := 8\<rparr>) b'" "length b' = length b"
proof
  let ?b = "splice 0 (version_header_bytes (h_version h)) b"
  have len: "8 \<le> length b" using assms(1) by (simp add: block_ok_def)
  show "begin_fragment h w = Inr (w\<lparr>w_buffer := Some ?b, w_offset := 8\<rparr>)"
    using assms(2) len by (simp add: begin_fragment_def)
  show "length ?b = length b" using len by simp
  have "take 8 ?b = version_header_bytes (h_version h)" by (simp add: splice_def)
  then show "buffer_ok h (w\<lparr>w_buffer := Some ?b, w_offset := 8\<rparr>) ?b"
    using assms(1) len by (simp add: buffer_ok_def block_ok_def)
qed

lemma advance_fragment_cases:
  assumes "block_ok w b" "w_buffer w = Some b" "advance_fragment h c w s = Inr (w', s')"
  obtains b' where "w_buffer w' = Some b'" "block_ok w' b'" "w_size w' = w_size w \<or> w_size w' = trace_size c"
    "w_mmapped w \<longrightarrow> w' = w\<lparr>w_enumerator := (w_enumerator w + 1) mod max_file_count c\<rparr> \<and> max_file_count c \<noteq> 0"
    "node_at s' = node_at s" "w_mmapped w' = w_mmapped w"
proof (cases "w_mmapped w")
  case True
  then show ?thesis
    using assms that by (auto simp: advance_fragment_def block_ok_def split: if_splits)
next
  case False
  show ?thesis
  proof (cases "w_size w \<noteq> trace_size c \<and> validate_trace_size (trace_size c) False")
    case True
    then have "8 \<le> unat (trace_size c)" by (auto simp: validate_trace_size_def split: if_splits)
    moreover obtain r s1 where al: "os_alloc (h_env h) (trace_size c) s = (r, s1)" by fastforce
    moreover have "node_at s1 = node_at s" using al by (simp add: fun_eq_iff)
    moreover have "length a = unat (trace_size c) \<and> unat (trace_size c) < 2 ^ 63" if "r = Some a" for a
      using os_alloc_length al that by blast
    ultimately show ?thesis
      using assms that True False by (cases r) (auto simp: advance_fragment_def block_ok_def)
  next
    case no: False
    then have "w' = w\<lparr>w_offset := 0\<rparr>" "s' = s"
      using assms(3) False by (auto simp: advance_fragment_def Let_def split: if_splits)
    then show ?thesis using assms(1,2) that False by (auto simp: block_ok_def)
  qed
qed

lemma advance_fragment_returns:
  "(w_mmapped w \<Longrightarrow> max_file_count c \<noteq> 0) \<Longrightarrow> \<exists>r. advance_fragment h c w s = Inr r"
  by (auto simp: advance_fragment_def Let_def split: option.splits prod.splits)

lemma block_ok_comp_buf:
  "buffer_ok h w b \<Longrightarrow> w_mmapped w \<Longrightarrow> length cb = 12 + comp_capacity w \<Longrightarrow> block_ok (w\<lparr>w_comp_buf := Some cb\<rparr>) b"
  by (simp add: buffer_ok_def block_ok_def comp_capacity_def)

text \<open>After a roll-over the writer has failed, or the next fragment is empty.\<close>

lemma new_trace_cases:
  assumes ok: "buffer_ok h w b" "w_buffer w = Some b" and c: "w_mmapped w \<longrightarrow> config_path_ok c"
    and run: "new_trace h c w s = Inr (w', s')"
  obtains (failed) "w_mmapped w" "w' = fail w"
      "node_at s' = node_at s \<or> node_at s' = (node_at s)(name_of c w (w_enumerator w) := None)"
  | (fresh) b' where "w_buffer w' = Some b'" "buffer_ok h w' b'" "w_offset w' = 8"
      "w_size w' = w_size w \<or> w_size w' = trace_size c"
      "node_at s' = (if w_mmapped w then (node_at s)(name_of c w (w_enumerator w) \<mapsto> Reg (fragment_file h w))
                     else node_at s)"
      "w_mmapped w \<longrightarrow> w_enumerator w' = (w_enumerator w + 1) mod max_file_count c \<and> max_file_count c \<noteq> 0"
      "w_mmapped w' = w_mmapped w"
proof -
  obtain w1 s1 where fl: "flush h c w s = Inr (w1, s1)"
    and rest: "(if w_buffer w1 = None then Inr (w1, s1)
       else bindR (advance_fragment h c w1 s1) (\<lambda>(w2, s2). bindR (begin_fragment h w2) (\<lambda>w3. Inr (w3, s2))))
      = Inr (w', s')"
    using run by (auto simp: new_trace_def)
  have fr: thesis if w1: "w_buffer w1 = Some b" "block_ok w1 b" "w_size w1 = w_size w" "w_mmapped w1 = w_mmapped w"
      "w_enumerator w1 = w_enumerator w" and
      s1: "node_at s1 = (if w_mmapped w then (node_at s)(name_of c w (w_enumerator w) \<mapsto> Reg (fragment_file h w)) else node_at s)"
  proof -
    obtain w2 s2 where adv: "advance_fragment h c w1 s1 = Inr (w2, s2)"
      and beg: "bindR (begin_fragment h w2) (\<lambda>w3. Inr (w3, s2)) = Inr (w', s')"
      using rest w1(1) by auto
    obtain b2 where w2: "w_buffer w2 = Some b2" "block_ok w2 b2" "w_size w2 = w_size w1 \<or> w_size w2 = trace_size c"
        "w_mmapped w1 \<longrightarrow> w2 = w1\<lparr>w_enumerator := (w_enumerator w1 + 1) mod max_file_count c\<rparr> \<and> max_file_count c \<noteq> 0"
        "node_at s2 = node_at s1" "w_mmapped w2 = w_mmapped w1"
      using advance_fragment_cases [OF w1(2,1) adv] by blast
    obtain b3 where "begin_fragment h w2 = Inr (w2\<lparr>w_buffer := Some b3, w_offset := 8\<rparr>)"
        "buffer_ok h (w2\<lparr>w_buffer := Some b3, w_offset := 8\<rparr>) b3"
      using begin_fragment_ok [OF w2(2,1)] by blast
    then show thesis using beg w1 w2 s1 by (intro fresh [of b3]) auto
  qed
  from ok c fl show thesis
  proof (cases rule: flush_cases)
    case pool
    then show ?thesis by (intro fr) (use ok pool in \<open>simp_all add: buffer_ok_def\<close>)
  next
    case (written cb)
    then show ?thesis using ok block_ok_comp_buf by (intro fr) auto
  next
    case fail: failed
    then show ?thesis using rest failed by auto
  qed
qed

section \<open>Getting a buffer\<close>

lemma validate_mapped:
  "validate_trace_size sz True \<longleftrightarrow> 8 \<le> unat sz \<and> unat sz \<le> LZ4_MAX_INPUT_SIZE"
  "validate_trace_size sz False \<longleftrightarrow> 8 \<le> unat sz"
  by (auto simp: validate_trace_size_def)

text \<open>The size asked for the compression buffer does not wrap around.\<close>

lemma comp_buf_size:
  assumes "unat (w_size w) \<le> LZ4_MAX_INPUT_SIZE"
  shows "unat (of_nat FRAG_HDR_SIZE + of_int (LZ4_compressBound (c_int (w_size w))) :: u64) = 12 + comp_capacity w"
proof -
  have c: "c_int (w_size w) = int (unat (w_size w))" using assms LZ4_MAX_small by (simp add: c_int_small)
  have "comp_capacity w \<le> 12 * LZ4_MAX_INPUT_SIZE"
    using assms by (auto simp: comp_capacity_def LZ4_compressBound_def LZ4_MAX_INPUT_SIZE_def)
  moreover have "(of_int (LZ4_compressBound (c_int (w_size w))) :: u64) = of_nat (comp_capacity w)"
    unfolding c comp_capacity_def by (rule of_nat_nat [OF compressBound_nonneg, symmetric])
  ultimately show ?thesis
    using unat_of_nat_small [of "12 + comp_capacity w", where 'a = 64]
    by (simp add: LZ4_MAX_INPUT_SIZE_def)
qed

lemma ensure_pool_buffer_cases:
  assumes w: "w_initd w" "\<not> w_failed w" "w_comp_buf w = None" "8 \<le> unat (w_size w)"
    and run: "ensure_pool_buffer h w s = Inr (ok, w', s')"
  obtains (no) "\<not> ok" "w_buffer w' = None" "w_comp_buf w' = None" "node_at s' = node_at s"
  | (got) b where "ok" "w_buffer w' = Some b" "buffer_ok h w' b" "w_offset w' = 8" "w_size w' = w_size w"
      "\<not> w_mmapped w'" "node_at s' = node_at s"
proof -
  obtain r s1 where al: "os_alloc (h_env h) (w_size w) s = (r, s1)" by fastforce
  have nd: "node_at s1 = node_at s" using al by (simp add: fun_eq_iff)
  show thesis
  proof (cases r)
    case None
    then show thesis using run al nd w(3) by (intro no) (auto simp: ensure_pool_buffer_def)
  next
    case (Some b)
    let ?w = "w\<lparr>w_buffer := Some b, w_mmapped := False\<rparr>"
    have "block_ok ?w b" using w os_alloc_length al Some by (auto simp: block_ok_def)
    then obtain b' where b': "begin_fragment h ?w = Inr (?w\<lparr>w_buffer := Some b', w_offset := 8\<rparr>)"
        "buffer_ok h (?w\<lparr>w_buffer := Some b', w_offset := 8\<rparr>) b'"
      using begin_fragment_ok [of ?w b h] by auto
    then show thesis using run al nd Some by (intro got [of b']) (auto simp: ensure_pool_buffer_def)
  qed
qed

lemma ensure_mapped_buffer_cases:
  assumes w: "w_initd w" "\<not> w_failed w" "w_comp_buf w = None" "8 \<le> unat (w_size w)" "unat (w_size w) \<le> LZ4_MAX_INPUT_SIZE"
    and c: "config_path_ok c"
    and run: "ensure_mapped_buffer h c w s = Inr (ok, w', s')"
  obtains (no) "\<not> ok" "w_buffer w' = None" "w_comp_buf w' = None" "node_at s' = node_at s"
  | (got) b where "ok" "w_buffer w' = Some b" "buffer_ok h w' b" "w_offset w' = 8" "w_size w' = w_size w"
      "w_mmapped w'" "w_tid w' = w_tid w" "created_only True (name_of c w (w_enumerator w')) s s'"
proof -
  obtain r s1 where mm: "os_mmap (h_env h) (w_size w) s = (r, s1)" by fastforce
  have nd1: "node_at s1 = node_at s" using mm by (simp add: fun_eq_iff)
  show thesis
  proof (cases r)
    case None
    then show thesis using run mm nd1 w(3) by (intro no) (auto simp: ensure_mapped_buffer_def)
  next
    case (Some b)
    let ?w1 = "w\<lparr>w_buffer := Some b, w_mmapped := True\<rparr>"
    let ?n = "of_nat FRAG_HDR_SIZE + of_int (LZ4_compressBound (c_int (w_size w))) :: u64"
    obtain r2 s2 where al: "os_alloc (h_env h) ?n s1 = (r2, s2)" by fastforce
    have nd2: "node_at s2 = node_at s" using al nd1 by (simp add: fun_eq_iff)
    show thesis
    proof (cases r2)
      case None
      then show thesis using run mm Some al nd2 by (intro no) (auto simp: ensure_mapped_buffer_def Let_def)
    next
      case cb: (Some cb)
      let ?w2 = "?w1\<lparr>w_comp_buf := Some cb\<rparr>"
      obtain fin w3 s3 where ff: "first_fragment h c ?w2 s2 = Inr (fin, w3, s3)"
        and rest: "(if \<not> fin then Inr (False, fail w3, s3)
                    else bindR (begin_fragment h w3) (\<lambda>w3. Inr (True, w3, s3))) = Inr (ok, w', s')"
        using run mm Some al cb by (auto simp: ensure_mapped_buffer_def Let_def)
      obtain j where j: "w3 = ?w2\<lparr>w_enumerator := w_enumerator ?w2 + of_nat j\<rparr>"
          "created_only fin (name_of c ?w2 (w_enumerator w3)) s2 s3"
        using first_fragment_loop_result [OF ff [unfolded first_fragment_def] c] by blast
      have co: "created_only fin (name_of c w (w_enumerator w3)) s s3"
        using j(2) nd2 by (auto simp: created_only_def split: if_splits)
      show thesis
      proof (cases fin)
        case False
        then show thesis using rest co by (intro no) (auto simp: created_only_def)
      next
        case True
        have "length cb = 12 + comp_capacity w" "length b = unat (w_size w)" "unat (w_size w) < 2 ^ 63"
          using os_alloc_length al cb comp_buf_size [OF w(5)] os_mmap_length mm Some by auto
        moreover have "comp_capacity w3 = comp_capacity w" by (simp add: j(1) comp_capacity_def)
        ultimately have "block_ok w3 b" using w by (simp add: j(1) block_ok_def)
        moreover have "w_buffer w3 = Some b" by (simp add: j(1))
        ultimately obtain b' where b': "begin_fragment h w3 = Inr (w3\<lparr>w_buffer := Some b', w_offset := 8\<rparr>)"
            "buffer_ok h (w3\<lparr>w_buffer := Some b', w_offset := 8\<rparr>) b'"
          using begin_fragment_ok by blast
        then have "w' = w3\<lparr>w_buffer := Some b', w_offset := 8\<rparr>" "s' = s3" "ok" using rest True by auto
        then show thesis using b' co True by (intro got [of b']) (auto simp: j(1))
      qed
    qed
  qed
qed

lemma ensure_buffer_cases:
  assumes inv: "writer_inv h w" and c: "\<not> disable_writes c \<longrightarrow> config_path_ok c"
    and run: "ensure_buffer h c w s = Inr (ok, w', s')"
  obtains (no) "\<not> ok" "w_buffer w' = None" "w_comp_buf w' = None" "node_at s' = node_at s"
  | (had) b where "ok" "w_buffer w = Some b" "w' = w" "s' = s"
  | (got) b where "ok" "w_buffer w = None" "w_buffer w' = Some b" "buffer_ok h w' b" "w_offset w' = 8"
      "w_size w' = trace_size c" "w_mmapped w' = (\<not> disable_writes c)"
      "if disable_writes c then node_at s' = node_at s
       else created_only True (name_of c w (w_enumerator w')) s s'"
proof (cases "\<not> w_initd w \<or> w_failed w")
  case True
  then have "w_buffer w = None" using inv by (auto simp: writer_inv_def buffer_ok_def block_ok_def split: option.splits)
  then show thesis using run True inv by (intro no) (auto simp: ensure_buffer_def writer_inv_def split: if_splits)
next
  case live: False
  show thesis
  proof (cases "w_buffer w")
    case (Some b)
    then show thesis using run live by (intro had) (auto simp: ensure_buffer_def)
  next
    case None
    then have cb: "w_comp_buf w = None" using inv by (simp add: writer_inv_def)
    let ?w1 = "w\<lparr>w_size := trace_size c, w_offset := 0, w_enumerator := 0\<rparr>"
    consider (bad) "\<not> validate_trace_size (trace_size c) (\<not> disable_writes c)"
      | (pool) "validate_trace_size (trace_size c) (\<not> disable_writes c)" "disable_writes c"
      | (mapped) "validate_trace_size (trace_size c) (\<not> disable_writes c)" "\<not> disable_writes c"
      by blast
    then show thesis
    proof cases
      case bad
      then show thesis using run live None cb by (intro no) (auto simp: ensure_buffer_def Let_def)
    next
      case pool
      then have r: "ensure_pool_buffer h ?w1 s = Inr (ok, w', s')" "8 \<le> unat (trace_size c)"
        using run live None by (auto simp: ensure_buffer_def Let_def validate_mapped)
      show thesis
        by (rule ensure_pool_buffer_cases [OF _ _ _ _ r(1)]) (use live cb pool r None no got in auto)
    next
      case mapped
      then have r: "ensure_mapped_buffer h c ?w1 s = Inr (ok, w', s')" "8 \<le> unat (trace_size c)"
          "unat (trace_size c) \<le> LZ4_MAX_INPUT_SIZE"
        using run live None by (auto simp: ensure_buffer_def Let_def validate_mapped)
      show thesis
        by (rule ensure_mapped_buffer_cases [OF _ _ _ _ _ _ r(1)]) (use live cb mapped r None c no got in auto)
    qed
  qed
qed

section \<open>Reserving\<close>

text \<open>An entry of \<open>n\<close> bytes fits an empty fragment, under the current buffer and under the configuration.\<close>

definition fits :: "config \<Rightarrow> writer_impl \<Rightarrow> u64 \<Rightarrow> bool" where
  "fits c w n \<longleftrightarrow>
     8 + unat n \<le> unat (trace_size c) \<and> (w_buffer w \<noteq> None \<longrightarrow> 8 + unat n \<le> unat (w_size w))"

definition path_ok :: "config \<Rightarrow> writer_impl \<Rightarrow> bool" where
  "path_ok c w \<longleftrightarrow> (\<not> disable_writes c \<or> w_mmapped w \<and> w_buffer w \<noteq> None \<longrightarrow> config_path_ok c)"

lemma reserve_advance:
  assumes "buffer_ok h w b" "w_buffer w = Some b" "unat (w_offset w) + unat n \<le> length b"
  shows "buffer_ok h (w\<lparr>w_offset := w_offset w + n\<rparr>) b" "unat (w_offset w + n) = unat (w_offset w) + unat n"
proof -
  have "length b < 2 ^ 63" using assms(1) by (simp add: buffer_ok_def block_ok_def)
  then show u: "unat (w_offset w + n) = unat (w_offset w) + unat n"
    using assms(3) by (intro unat_add_small) simp
  show "buffer_ok h (w\<lparr>w_offset := w_offset w + n\<rparr>) b"
    using assms by (simp add: buffer_ok_def block_ok_def u)
qed

lemma no_new_trace:
  assumes "buffer_ok h w b" "\<not> coldtrace_writer_new_trace c w n" "8 + unat n \<le> length b"
  shows "unat (w_offset w) + unat n \<le> length b"
proof -
  have b: "length b < 2 ^ 63" "length b = unat (w_size w)" "unat (w_offset w) \<le> length b"
    using assms(1) by (auto simp: buffer_ok_def block_ok_def)
  then have "unat (w_offset w + n) = unat (w_offset w) + unat n"
    using assms(3) by (intro unat_add_small) simp
  moreover have "w_offset w + n \<le> w_size w"
    using assms(2) by (auto simp: coldtrace_writer_new_trace_def Let_def not_less split: if_splits)
  ultimately show ?thesis using b by (simp add: word_le_nat_alt)
qed

text \<open>What a reservation does: no memory, a place after the entries so far, or the start of a fragment.\<close>

lemma reserve_cases:
  assumes inv: "writer_inv h w" and c: "path_ok c w" and n: "fits c w n"
    and run: "coldtrace_writer_reserve h c n w s = Inr (r, w', s')"
  obtains (null) "r = None" "w_buffer w' = None" "w_comp_buf w' = None" "w_buffer w \<noteq> None \<longrightarrow> w' = fail w"
      "node_at s' = node_at s \<or> node_at s' = (node_at s)(name_of c w (w_enumerator w) := None)"
  | (same) b where "w_buffer w = Some b" "r = Some (w_offset w)" "w' = w\<lparr>w_offset := w_offset w + n\<rparr>" "s' = s"
      "buffer_ok h w' b" "unat (w_offset w) + unat n \<le> length b" "\<not> coldtrace_writer_new_trace c w n"
  | (fresh) b where "r = Some 8" "w_buffer w' = Some b" "buffer_ok h w' b" "w_offset w' = 8 + n"
      "8 + unat n \<le> length b" "w_buffer w \<noteq> None \<longrightarrow> coldtrace_writer_new_trace c w n"
      "w_buffer w \<noteq> None \<and> w_mmapped w \<longrightarrow>
         w_enumerator w' = (w_enumerator w + 1) mod max_file_count c \<and> max_file_count c \<noteq> 0"
      "if w_buffer w \<noteq> None \<and> w_mmapped w
       then node_at s' = (node_at s)(name_of c w (w_enumerator w) \<mapsto> Reg (fragment_file h w))
       else node_at s' = node_at s \<or> (\<exists>e. created_only True (name_of c w e) s s')"
      "w_size w' = w_size w \<and> w_buffer w \<noteq> None \<or> w_size w' = trace_size c"
      "w_mmapped w' = (if w_buffer w = None then \<not> disable_writes c else w_mmapped w)"
proof -
  obtain ok w1 s1 where en: "ensure_buffer h c w s = Inr (ok, w1, s1)"
    and rest: "(if \<not> ok then Inr (None, w1, s1)
       else if coldtrace_writer_new_trace c w1 n then
         bindR (new_trace h c w1 s1) (\<lambda>(w2, s2).
           if w_buffer w2 = None then Inr (None, w2, s2)
           else Inr (Some (w_offset w2), w2\<lparr>w_offset := w_offset w2 + n\<rparr>, s2))
       else Inr (Some (w_offset w1), w1\<lparr>w_offset := w_offset w1 + n\<rparr>, s1)) = Inr (r, w', s')"
    using run by (auto simp: coldtrace_writer_reserve_def)
  have c1: "\<not> disable_writes c \<longrightarrow> config_path_ok c" using c by (simp add: path_ok_def)
  have none: "w_buffer w = None" if "\<not> ok"
    using en that by (auto simp: ensure_buffer_def split: if_splits) (use inv in \<open>auto simp: writer_inv_def buffer_ok_def block_ok_def split: option.splits\<close>)
  show thesis
  proof (rule ensure_buffer_cases [OF inv c1 en])
    assume "\<not> ok" "w_buffer w1 = None" "w_comp_buf w1 = None" "node_at s1 = node_at s"
    then show thesis using rest none by (intro null) auto
  next
    fix b assume had: "ok" "w_buffer w = Some b" "w1 = w" "s1 = s"
    then have bo: "buffer_ok h w b" using inv by (simp add: writer_inv_Some)
    have room: "8 + unat n \<le> unat (w_size w)" "8 + unat n \<le> unat (trace_size c)" using n had by (auto simp: fits_def)
    have len: "length b = unat (w_size w)" using bo by (simp add: buffer_ok_def block_ok_def)
    show thesis
    proof (cases "coldtrace_writer_new_trace c w n")
      case False
      have o: "unat (w_offset w) + unat n \<le> length b" using no_new_trace [OF bo False] room len by simp
      then show thesis using rest had False reserve_advance [OF bo had(2) o] by (intro same) auto
    next
      case True
      then obtain w2 s2 where nt: "new_trace h c w s = Inr (w2, s2)"
        and rest2: "(if w_buffer w2 = None then Inr (None, w2, s2)
           else Inr (Some (w_offset w2), w2\<lparr>w_offset := w_offset w2 + n\<rparr>, s2)) = (Inr (r, w', s') :: _ res)"
        using rest had by (auto split: prod.splits)
      have c2: "w_mmapped w \<longrightarrow> config_path_ok c" using c had by (auto simp: path_ok_def)
      show thesis
      proof (rule new_trace_cases [OF bo had(2) c2 nt])
        assume "w2 = fail w" "node_at s2 = node_at s \<or> node_at s2 = (node_at s)(name_of c w (w_enumerator w) := None)"
        then show thesis using rest2 had by (intro null) auto
      next
        fix b' assume b': "w_buffer w2 = Some b'" "buffer_ok h w2 b'" "w_offset w2 = 8"
          "w_size w2 = w_size w \<or> w_size w2 = trace_size c"
          "node_at s2 = (if w_mmapped w then (node_at s)(name_of c w (w_enumerator w) \<mapsto> Reg (fragment_file h w)) else node_at s)"
          "w_mmapped w \<longrightarrow> w_enumerator w2 = (w_enumerator w + 1) mod max_file_count c \<and> max_file_count c \<noteq> 0"
          "w_mmapped w2 = w_mmapped w"
        have "unat (w_offset w2) + unat n \<le> length b'" using b' room by (auto simp: buffer_ok_def block_ok_def)
        from reserve_advance [OF b'(2,1) this] this show thesis
          using rest2 b' had True by (intro fresh [of b']) auto
      qed
    qed
  next
    fix b assume got: "ok" "w_buffer w = None" "w_buffer w1 = Some b" "buffer_ok h w1 b" "w_offset w1 = 8"
      "w_size w1 = trace_size c" "if disable_writes c then node_at s1 = node_at s
       else created_only True (name_of c w (w_enumerator w1)) s s1" "w_mmapped w1 = (\<not> disable_writes c)"
    have o: "unat (w_offset w1) + unat n \<le> length b" using got n by (auto simp: fits_def buffer_ok_def block_ok_def)
    have "\<not> coldtrace_writer_new_trace c w1 n"
      using got(5,6) n reserve_advance(2) [OF got(4,3) o]
      by (auto simp: coldtrace_writer_new_trace_def Let_def fits_def word_less_nat_alt)
    then show thesis
      using rest got reserve_advance [OF got(4,3) o] o by (intro fresh [of b]) (auto split: if_splits)
  qed
qed

text \<open>The owner of a writer stays the same.\<close>

definition same_owner :: "writer_impl \<Rightarrow> writer_impl \<Rightarrow> bool" where
  "same_owner w w' \<longleftrightarrow> w_tid w' = w_tid w \<and> w_md w' = w_md w \<and> w_initd w' = w_initd w"

lemma same_owner_fail [simp]: "same_owner w (fail w') = same_owner w w'"
  by (simp add: same_owner_def fail_def release_buffers_def)

lemma first_fragment_owner: "first_fragment_loop k h c w s = Inr (ok, w', s') \<Longrightarrow> same_owner w w'"
proof (induction k arbitrary: w s)
  case (Suc k)
  obtain f where f: "format_file_name c (w_tid w) (w_enumerator w) = Inr f" using Suc.prems by auto
  obtain r s1 where op: "os_open_excl (h_env h) f s = (r, s1)" by fastforce
  have "same_owner (w\<lparr>w_enumerator := w_enumerator w + 1\<rparr>) w'"
    if "first_fragment_loop k h c (w\<lparr>w_enumerator := w_enumerator w + 1\<rparr>) s1 = Inr (ok, w', s')" using Suc.IH [OF that] .
  then show ?case using Suc.prems f op by (auto simp: same_owner_def split: sum.splits if_splits)
qed simp

lemma begin_fragment_owner: "begin_fragment h w = Inr w' \<Longrightarrow> same_owner w w'"
  by (auto simp: begin_fragment_def same_owner_def split: option.splits)

lemma flush_owner:
  assumes "flush h c w s = Inr (w', s')"
  shows "same_owner w w'"
proof (cases "w_mmapped w")
  case True
  then obtain cb len where fi: "fragment_image h w = Inr (cb, len)" using assms by (auto simp: flush_def)
  show ?thesis
  proof (cases len)
    case None
    then show ?thesis using assms True fi by (auto simp: flush_def same_owner_def)
  next
    case (Some n)
    then obtain f where f: "format_file_name c (w_tid w) (w_enumerator w) = Inr f" using assms True fi by (auto simp: flush_def Let_def)
    obtain r s1 where "os_open_trunc (h_env h) f s = (r, s1)" by fastforce
    then show ?thesis
      using assms True fi Some f by (auto simp: flush_def Let_def same_owner_def split: sum.splits if_splits)
  qed
qed (use assms in \<open>simp add: flush_def same_owner_def\<close>)

lemma advance_owner: "advance_fragment h c w s = Inr (w', s') \<Longrightarrow> same_owner w w'"
  by (auto simp: advance_fragment_def Let_def same_owner_def split: if_splits option.splits prod.splits)

lemma same_owner_trans: "same_owner w w' \<Longrightarrow> same_owner w' w'' \<Longrightarrow> same_owner w w''"
  by (simp add: same_owner_def)

lemma new_trace_owner: "new_trace h c w s = Inr (w', s') \<Longrightarrow> same_owner w w'"
  by (auto simp: new_trace_def split: if_splits dest!: flush_owner advance_owner begin_fragment_owner intro: same_owner_trans)

lemma ensure_mapped_owner: "ensure_mapped_buffer h c w s = Inr (ok, w', s') \<Longrightarrow> same_owner w w'"
  by (auto simp: ensure_mapped_buffer_def first_fragment_def Let_def split: option.splits prod.splits if_splits
        dest!: first_fragment_owner begin_fragment_owner) (auto simp: same_owner_def)

lemma ensure_buffer_owner: "ensure_buffer h c w s = Inr (ok, w', s') \<Longrightarrow> same_owner w w'"
  by (auto simp: ensure_buffer_def ensure_pool_buffer_def Let_def split: option.splits prod.splits if_splits
        dest!: ensure_mapped_owner begin_fragment_owner) (auto simp: same_owner_def)

lemma reserve_owner: "coldtrace_writer_reserve h c n w s = Inr (r, w', s') \<Longrightarrow> same_owner w w'"
  by (auto simp: coldtrace_writer_reserve_def split: if_splits dest!: ensure_buffer_owner new_trace_owner)
     (auto simp: same_owner_def)

text \<open>The end of a writer.\<close>

lemma fini_effect:
  assumes "writer_inv h w" "path_ok c w" "coldtrace_writer_fini h c w s = Inr (w', s')"
  shows "w_buffer w' = None" "w_comp_buf w' = None" "\<not> w_initd w'" "w_tid w' = w_tid w"
    and "\<forall>q. q \<noteq> name_of c w (w_enumerator w) \<longrightarrow> node_at s' q = node_at s q"
    and "if w_buffer w \<noteq> None \<and> w_mmapped w
         then w_failed w' \<or> node_at s' = (node_at s)(name_of c w (w_enumerator w) \<mapsto> Reg (fragment_file h w))
         else s' = s"
proof -
  have "w_buffer w' = None \<and> w_comp_buf w' = None \<and> \<not> w_initd w' \<and> w_tid w' = w_tid w \<and>
    (\<forall>q. q \<noteq> name_of c w (w_enumerator w) \<longrightarrow> node_at s' q = node_at s q) \<and>
    (if w_buffer w \<noteq> None \<and> w_mmapped w
     then w_failed w' \<or> node_at s' = (node_at s)(name_of c w (w_enumerator w) \<mapsto> Reg (fragment_file h w)) else s' = s)"
  proof (cases "w_buffer w")
    case None
    then show ?thesis
      using assms(1,3) by (auto simp: coldtrace_writer_fini_def writer_inv_def release_buffers_def split: if_splits)
  next
    case (Some b)
    have ok: "buffer_ok h w b" using assms(1) Some by (rule writer_inv_Some)
    then have "w_initd w" by (simp add: buffer_ok_def block_ok_def)
    then obtain w1 s1 where fl: "flush h c w s = Inr (w1, s1)" "w' = (release_buffers w1)\<lparr>w_initd := False\<rparr>" "s' = s1"
      using assms(3) Some by (auto simp: coldtrace_writer_fini_def)
    have "w_mmapped w \<longrightarrow> config_path_ok c" using assms(2) Some by (auto simp: path_ok_def)
    from ok Some this fl(1) show ?thesis
      by (cases rule: flush_cases) (use fl(2,3) Some in \<open>auto simp: release_buffers_def fail_def\<close>)
  qed
  then show "w_buffer w' = None" "w_comp_buf w' = None" "\<not> w_initd w'" "w_tid w' = w_tid w"
    "\<forall>q. q \<noteq> name_of c w (w_enumerator w) \<longrightarrow> node_at s' q = node_at s q"
    "if w_buffer w \<noteq> None \<and> w_mmapped w
     then w_failed w' \<or> node_at s' = (node_at s)(name_of c w (w_enumerator w) \<mapsto> Reg (fragment_file h w)) else s' = s"
    by auto
qed

section \<open>Totality\<close>

lemma begin_fragment_returns: "block_ok w b \<Longrightarrow> w_buffer w = Some b \<Longrightarrow> \<exists>w'. begin_fragment h w = Inr w'"
  by (metis begin_fragment_ok)

lemma new_trace_returns:
  assumes ok: "buffer_ok h w b" "w_buffer w = Some b" and c: "w_mmapped w \<longrightarrow> config_path_ok c"
    and live: "env_live h (12 + comp_capacity w)" and m: "w_mmapped w \<longrightarrow> max_file_count c \<noteq> 0"
  shows "\<exists>r. new_trace h c w s = Inr r"
proof -
  obtain w1 s1 where fl: "flush h c w s = Inr (w1, s1)" using flush_returns [OF ok c live] by (metis surj_pair)
  have go: ?thesis if w1: "w_buffer w1 = Some b" "block_ok w1 b" "w_mmapped w1 = w_mmapped w"
  proof -
    obtain w2 s2 where adv: "advance_fragment h c w1 s1 = Inr (w2, s2)"
      using advance_fragment_returns [of w1 c h s1] m w1(3) by (metis surj_pair)
    then obtain w3 where "begin_fragment h w2 = Inr w3"
      using advance_fragment_cases [OF w1(2,1) adv] begin_fragment_returns by metis
    then show ?thesis using fl adv w1(1) by (simp add: new_trace_def)
  qed
  show ?thesis
  proof (rule flush_cases [OF ok c fl])
    assume "w1 = w"
    then show ?thesis using ok by (intro go) (simp_all add: buffer_ok_def)
  next
    fix cb assume "w_mmapped w" "w1 = w\<lparr>w_comp_buf := Some cb\<rparr>" "length cb = 12 + comp_capacity w"
    then show ?thesis using ok block_ok_comp_buf by (intro go) auto
  next
    assume "w1 = fail w"
    then show ?thesis using fl by (simp add: new_trace_def)
  qed
qed

lemma first_fragment_returns:
  assumes "config_path_ok c" "length (fs s) < ev_fuel (h_env h)" "ev_fuel (h_env h) \<le> 2 ^ 32"
  shows "\<exists>r. first_fragment h c w s = Inr r"
proof -
  obtain i where "i < ev_fuel (h_env h)" "node_at s (name_of c w (w_enumerator w + of_nat i)) = None"
    using free_name [OF assms(2,3)] by blast
  then show ?thesis using first_fragment_loop_returns [OF assms(1)] by (simp add: first_fragment_def)
qed

lemma fs_alloc: "os_alloc env n s = (r, s') \<Longrightarrow> fs s' = fs s" "os_mmap env n s = (r, s') \<Longrightarrow> fs s' = fs s"
  by (auto simp: os_alloc_def os_mmap_def tick_def)

lemma ensure_buffer_returns:
  assumes inv: "writer_inv h w" and c: "\<not> disable_writes c \<longrightarrow> config_path_ok c"
    and f: "length (fs s) < ev_fuel (h_env h)" "ev_fuel (h_env h) \<le> 2 ^ 32"
  shows "\<exists>r. ensure_buffer h c w s = Inr r"
proof (cases "\<not> w_initd w \<or> w_failed w \<or> w_buffer w \<noteq> None \<or> \<not> validate_trace_size (trace_size c) (\<not> disable_writes c)")
  case True
  then show ?thesis by (auto simp: ensure_buffer_def Let_def)
next
  case go: False
  let ?w1 = "w\<lparr>w_size := trace_size c, w_offset := 0, w_enumerator := 0\<rparr>"
  have sz: "8 \<le> unat (trace_size c)" "\<not> disable_writes c \<longrightarrow> unat (trace_size c) \<le> LZ4_MAX_INPUT_SIZE"
    using go validate_mapped [of "trace_size c"] by (cases "disable_writes c"; simp)+
  have "\<exists>r. ensure_pool_buffer h ?w1 s = Inr r"
  proof -
    obtain r s1 where al: "os_alloc (h_env h) (trace_size c) s = (r, s1)" by fastforce
    have "block_ok (?w1\<lparr>w_buffer := Some b, w_mmapped := False\<rparr>) b" if "r = Some b" for b
      using that go al sz inv os_alloc_length by (auto simp: block_ok_def writer_inv_def)
    then show ?thesis
      using begin_fragment_returns al by (cases r) (fastforce simp: ensure_pool_buffer_def)+
  qed
  moreover have "\<exists>r. ensure_mapped_buffer h c ?w1 s = Inr r" if nd: "\<not> disable_writes c"
  proof (rule ccontr)
    assume no: "\<nexists>r. ensure_mapped_buffer h c ?w1 s = Inr r"
    let ?n = "of_nat FRAG_HDR_SIZE + of_int (LZ4_compressBound (c_int (trace_size c))) :: u64"
    obtain r s1 where mm: "os_mmap (h_env h) (trace_size c) s = (r, s1)" by fastforce
    obtain r2 s2 where al: "os_alloc (h_env h) ?n s1 = (r2, s2)" by fastforce
    obtain b cb where b: "r = Some b" "r2 = Some cb"
      using no mm al by (cases r; cases r2) (auto simp: ensure_mapped_buffer_def Let_def)
    let ?w2 = "?w1\<lparr>w_buffer := Some b, w_mmapped := True, w_comp_buf := Some cb\<rparr>"
    have "fs s2 = fs s" using fs_alloc mm al by metis
    then obtain fin w3 s3 where ff: "first_fragment h c ?w2 s2 = Inr (fin, w3, s3)"
      using first_fragment_returns [of c s2 h ?w2] c nd f by (metis surj_pair)
    obtain j where j: "w3 = ?w2\<lparr>w_enumerator := w_enumerator ?w2 + of_nat j\<rparr>"
      using first_fragment_loop_result [OF ff [unfolded first_fragment_def]] c nd by blast
    have "length cb = 12 + comp_capacity ?w2" "length b = unat (trace_size c)" "unat (trace_size c) < 2 ^ 63"
      using os_alloc_length [OF al [unfolded b]] comp_buf_size [of ?w2] os_mmap_length [OF mm [unfolded b]] sz nd by auto
    then have "block_ok w3 b" using go sz nd by (simp add: j block_ok_def comp_capacity_def)
    moreover have "w_buffer w3 = Some b" by (simp add: j)
    ultimately obtain w4 where "begin_fragment h w3 = Inr w4" using begin_fragment_returns by blast
    then show False using no mm al b ff by (cases fin) (auto simp: ensure_mapped_buffer_def Let_def)
  qed
  ultimately show ?thesis using go by (auto simp: ensure_buffer_def Let_def)
qed

end
