(* ===== verification/Writer_Props.thy ===== *)
theory Writer_Props
  imports Writer_Correct
begin

text \<open>
  The properties of the writer: the invariant over all its operations, the region a reservation
  hands out, the file a fragment is flushed to, the loops, and the failure paths.
\<close>

section \<open>A concrete writer\<close>

text \<open>A host on which every call succeeds, a configuration of a small trace, and a writer in use.\<close>

definition sample_host :: host where
  "sample_host = \<lparr>h_env = calm_env, h_version = current_version_header 0xC01D 1 2 3, h_self_id = (\<lambda>m. m),
     h_main_thread = 1, h_get_inc = (\<lambda>v. (v, v + 1)), h_acquire = (\<lambda>l. if l then None else Some True),
     h_release = (\<lambda>_. False)\<rparr>"

definition sample_config :: "bool \<Rightarrow> config" where
  "sample_config off = \<lparr>max_file_count = 4, trace_size = 32, disable_writes = off, path = ''/d'',
     pattern = ''/d'' @ COLDTRACE_FILE_SUFFIX\<rparr>"

definition sample_os :: os where
  "sample_os = \<lparr>fs = [(''/d'', Dir)], clock = 0\<rparr>"

definition sample_writer :: writer_impl where
  "sample_writer = \<lparr>w_initd = True, w_failed = False, w_mmapped = True,
     w_buffer = Some (version_header_bytes (h_version sample_host) @ replicate 24 7),
     w_comp_buf = Some (replicate 60 0), w_size = 32, w_offset = 24, w_tid = 1, w_enumerator = 0, w_md = 1\<rparr>"

lemma sample_path_ok: "config_path_ok (sample_config off)" "path_ok (sample_config off) w"
  by (simp_all add: config_path_ok_def DEFAULT_PATH_SIZE_def sample_config_def path_ok_def)

lemma sample_capacity: "comp_capacity sample_writer = 48"
  by (simp add: comp_capacity_def sample_writer_def LZ4_compressBound_def LZ4_MAX_INPUT_SIZE_def)

lemma sample_buffer_ok:
  "buffer_ok sample_host sample_writer (version_header_bytes (h_version sample_host) @ replicate 24 7)"
  by (simp add: buffer_ok_def block_ok_def sample_capacity) (simp add: sample_writer_def LZ4_MAX_INPUT_SIZE_def)

lemma sample_inv: "writer_inv sample_host sample_writer"
  using sample_buffer_ok by (simp add: writer_inv_def sample_writer_def)

lemma sample_live: "n \<le> 100 \<Longrightarrow> env_live sample_host n"
  by (simp add: env_live_def productive_calls_def productive_def sample_host_def calm_env_def)

lemma write_all_empty: "write_all k h fd [] s = Inr (True, s)"
  by (cases k) simp_all

lemma write_all_at_once:
  assumes "ev_write (h_env h) (clock s) = Wrote n" "0 < length p" "length p \<le> n" "0 < k"
  shows "write_all k h fd p s = Inr (True, tick (append_file fd p s))"
  using assms by (cases k) (auto simp: os_write_def write_all_empty)

lemma sample_flush:
  "\<exists>cb s'. flush sample_host (sample_config False) sample_writer sample_os = Inr (sample_writer\<lparr>w_comp_buf := Some cb\<rparr>, s')
     \<and> length cb = 60"
proof -
  let ?c = "sample_config False" and ?h = sample_host and ?w = sample_writer
  have w: "w_buffer ?w = Some (version_header_bytes (h_version ?h) @ replicate 24 7)" "w_mmapped ?w"
    by (simp_all add: sample_writer_def)
  have len: "length (fragment_file ?h ?w) \<le> 60"
    using length_fragment_file [OF sample_buffer_ok w] by (simp add: sample_capacity)
  have "ev_write (h_env ?h) t = Wrote 4096" "0 < ev_fuel (h_env ?h)" for t
    by (simp_all add: sample_host_def calm_env_def)
  moreover have "0 < length (fragment_file ?h ?w)" by (simp add: fragment_file_def)
  ultimately have wr: "\<exists>s'. write_all (ev_fuel (h_env ?h)) ?h fd (fragment_file ?h ?w) s = Inr (True, s')" for fd s
    using write_all_at_once [of ?h _ 4096 "fragment_file ?h ?w"] len by fastforce
  have no: "\<not> (ev_open_err (h_env ?h) (clock sample_os) \<or> node_at sample_os (name_of ?c ?w (w_enumerator ?w)) = Some Dir)"
    by (simp add: sample_host_def calm_env_def sample_os_def node_at_def fragment_name_def sample_config_def)
  show ?thesis
    by (rule flush_mapped [OF sample_buffer_ok w sample_path_ok(1), of False sample_os])
       (use no wr in \<open>fastforce simp: sample_capacity\<close>)
qed

lemma sample_rollover:
  "\<exists>w' s'. coldtrace_writer_reserve sample_host (sample_config False) 24 sample_writer sample_os = Inr (Some 8, w', s')"
proof -
  obtain cb s1 where fl: "flush sample_host (sample_config False) sample_writer sample_os
      = Inr (sample_writer\<lparr>w_comp_buf := Some cb\<rparr>, s1)" using sample_flush by blast
  then show ?thesis
    by (simp add: coldtrace_writer_reserve_def ensure_buffer_def coldtrace_writer_new_trace_def new_trace_def
          sample_writer_def sample_config_def advance_fragment_def begin_fragment_def del: bindR_eq_Inr)
qed

section \<open>Properties\<close>

text \<open>
  The operations of a writer as steps.  The configuration may be another one at every step, and the
  rest of the system may change the files between steps.
\<close>

inductive writer_step :: "host \<Rightarrow> writer_impl \<times> os \<Rightarrow> writer_impl \<times> os \<Rightarrow> bool" for h where
  step_init: "writer_step h (w, s) (coldtrace_writer_init h md w, s)"
| step_reserve: "path_ok c w \<Longrightarrow> fits c w n \<Longrightarrow> coldtrace_writer_reserve h c n w s = Inr (r, w', s') \<Longrightarrow>
     writer_step h (w, s) (w', s')"
| step_store: "8 \<le> off \<Longrightarrow> off + length bs \<le> unat (w_offset w) \<Longrightarrow> writer_store off bs w = Inr w' \<Longrightarrow>
     writer_step h (w, s) (w', s)"
| step_fini: "path_ok c w \<Longrightarrow> coldtrace_writer_fini h c w s = Inr (w', s') \<Longrightarrow> writer_step h (w, s) (w', s')"
| step_other: "writer_step h (w, s) (w, s')"

inductive_cases writer_stepE: "writer_step h (w, s) (w', s')"

lemma store_inv:
  assumes "writer_inv h w" "8 \<le> off" "off + length bs \<le> unat (w_offset w)" "writer_store off bs w = Inr w'"
  shows "writer_inv h w'"
proof -
  obtain b where b: "w_buffer w = Some b" "w' = w\<lparr>w_buffer := Some (splice off bs b)\<rparr>" "off + length bs \<le> length b"
    using assms(4) by (auto simp: writer_store_def store_Inr_iff split: option.splits)
  then show ?thesis
    using assms(1,2) by (auto simp: writer_inv_def buffer_ok_def block_ok_def take_splice)
qed

lemma reserve_inv:
  assumes "writer_inv h w" "path_ok c w" "fits c w n" "coldtrace_writer_reserve h c n w s = Inr (r, w', s')"
  shows "writer_inv h w'"
  using assms by (cases rule: reserve_cases) (auto simp: writer_inv_def)

lemma fini_inv: "coldtrace_writer_fini h c w s = Inr (w', s') \<Longrightarrow> writer_inv h w \<Longrightarrow> writer_inv h w'"
  by (auto simp: coldtrace_writer_fini_def release_buffers_def writer_inv_def split: if_splits)

interpretation writer_sys: inv_system "\<lambda>(w, s). w = zero_writer" "writer_step h" "\<lambda>(w, s). writer_inv h w" for h
proof unfold_locales
  fix x y assume "case x of (w, s) \<Rightarrow> writer_inv h w" "writer_step h x y"
  then show "case y of (w, s) \<Rightarrow> writer_inv h w"
    by (cases x; cases y) (auto elim!: writer_stepE intro: inv_init reserve_inv store_inv fini_inv)
qed (auto simp: zero_writer_def inv_no_buffer)





text \<open>
  C32: What a flush of a mapped buffer does.  Either the file of the current fragment holds exactly the
  version header, the number of bytes of the entries and a compressed block that decompresses to the
  entries in the buffer, no other file changes and the buffer is kept; or the writer has failed, both
  allocations are released and the file is as before or removed.
\<close>

theorem flush_writes_fragment:
  assumes "writer_inv h w" "w_buffer w = Some b" "w_mmapped w" "config_path_ok c"
    and "flush h c w s = Inr (w', s')"
  shows "let f = fragment_name (path c) (ucast (w_tid w)) (w_enumerator w); raw = unat (w_offset w) - 8 in
     (\<forall>q. q \<noteq> f \<longrightarrow> node_at s' q = node_at s q) \<and>
     (if w_failed w'
      then w_buffer w' = None \<and> w_comp_buf w' = None \<and> (node_at s' f = node_at s f \<or> node_at s' f = None)
      else w_buffer w' = Some b \<and>
           (\<exists>comp. node_at s' f = Some (Reg (version_header_bytes (h_version h) @ u32_bytes (of_nat raw) @ comp))
                   \<and> lz4_decompress comp raw = Some (slice 8 raw b)))"
proof -
  have ok: "buffer_ok h w b" using assms(1,2) by (simp add: writer_inv_Some)
  have ne: "\<not> w_failed w" using ok by (simp add: buffer_ok_def block_ok_def)
  have len: "length (entries_of w) = unat (w_offset w) - 8" by (rule length_entries_of [OF ok assms(2)])
  have dec: "lz4_decompress (compressed w) (length (entries_of w)) = Some (entries_of w)"
    by (rule compressed_ok(3) [OF ok assms(2,3)])
  show ?thesis
  proof (rule flush_cases [OF ok assms(2) _ assms(5)])
    fix cb assume "w' = w\<lparr>w_comp_buf := Some cb\<rparr>"
      "node_at s' = (node_at s)(name_of c w (w_enumerator w) \<mapsto> Reg (fragment_file h w))"
    then show ?thesis
      using ne assms(2) dec len by (auto simp: Let_def fragment_file_def entries_of_def simp del: of_nat_diff)
  qed (use assms(3,4) in \<open>auto simp: Let_def\<close>)
qed

theorem flush_writes_fragment_witness:
  "\<exists>w' s'. flush sample_host (sample_config False) sample_writer sample_os = Inr (w', s') \<and>
     (\<not> w_failed w' \<longrightarrow> (\<exists>comp. node_at s' (fragment_name ''/d'' 1 0) =
          Some (Reg (version_header_bytes (h_version sample_host) @ u32_bytes 16 @ comp))
          \<and> lz4_decompress comp 16 = Some (replicate 16 7)))"
proof -
  let ?b = "version_header_bytes (h_version sample_host) @ replicate 24 7"
  have w: "w_buffer sample_writer = Some ?b" "w_mmapped sample_writer" by (simp_all add: sample_writer_def)
  obtain w' s' where run: "flush sample_host (sample_config False) sample_writer sample_os = Inr (w', s')"
    using flush_returns [OF sample_buffer_ok w(1), of "sample_config False" sample_os] sample_live [of 60]
    by (auto simp: sample_path_ok sample_capacity)
  from flush_writes_fragment [OF sample_inv w sample_path_ok(1) run] run show ?thesis
    by (auto simp: Let_def sample_writer_def sample_config_def slice_def split: if_splits)
qed

text \<open>
  C33: A reservation that does not fit behind the entries so far rolls over: the file of the current
  fragment is written exactly, the new region is the first one of an empty fragment, and the fragment
  number is the next one modulo the maximal number of files, so it stays below that number.
\<close>

theorem rollover_writes_fragment:
  assumes "writer_inv h w" "w_buffer w = Some b" "w_mmapped w" "config_path_ok c" "fits c w n"
    and "coldtrace_writer_new_trace c w n" "coldtrace_writer_reserve h c n w s = Inr (Some p, w', s')"
  shows "p = 8 \<and> w_enumerator w' = (w_enumerator w + 1) mod max_file_count c \<and> w_enumerator w' < max_file_count c
     \<and> node_at s' = (node_at s)(fragment_name (path c) (ucast (w_tid w)) (w_enumerator w) \<mapsto> Reg (fragment_file h w))
     \<and> lz4_decompress (drop 12 (fragment_file h w)) (length (entries_of w)) = Some (entries_of w)"
proof -
  have ok: "buffer_ok h w b" using assms(1,2) by (simp add: writer_inv_Some)
  have dec: "lz4_decompress (drop 12 (fragment_file h w)) (length (entries_of w)) = Some (entries_of w)"
    using compressed_ok(3) [OF ok assms(2,3)] by (simp add: fragment_file_def)
  have c: "path_ok c w" using assms(4) by (simp add: path_ok_def)
  from assms(1) c assms(5,7) show ?thesis
  proof (cases rule: reserve_cases)
    case (same b')
    have "coldtrace_writer_reserve h c n w s = bindR (new_trace h c w s) (\<lambda>(w2, s2).
           if w_buffer w2 = None then Inr (None, w2, s2)
           else Inr (Some (w_offset w2), w2\<lparr>w_offset := w_offset w2 + n\<rparr>, s2))"
      using ok assms(2,6) by (simp add: coldtrace_writer_reserve_def ensure_buffer_def buffer_ok_def block_ok_def)
    with assms(7) obtain w2 s2 where nt: "new_trace h c w s = Inr (w2, s2)" "w' = w2\<lparr>w_offset := w_offset w2 + n\<rparr>"
        "p = w_offset w2" "s' = s2" "w_buffer w2 \<noteq> None"
      by (auto split: if_splits prod.splits)
    show ?thesis
    proof (rule new_trace_cases [OF ok assms(2) _ nt(1)])
      assume "w2 = fail w"
      then show ?thesis using nt by simp
    qed (use nt assms(3,4) dec in \<open>auto simp: word_mod_less_divisor word_neq_0_conv\<close>)
  next
    case (fresh b')
    then show ?thesis using assms(2,3) dec by (auto simp: word_mod_less_divisor word_neq_0_conv)
  qed simp
qed

theorem rollover_writes_fragment_witness:
  "\<exists>w' s'. coldtrace_writer_reserve sample_host (sample_config False) 24 sample_writer sample_os = Inr (Some 8, w', s')
     \<and> w_enumerator w' = 1 \<and> node_at s' (fragment_name ''/d'' 1 0) = Some (Reg (fragment_file sample_host sample_writer))"
proof -
  obtain w' s' where run: "coldtrace_writer_reserve sample_host (sample_config False) 24 sample_writer sample_os = Inr (Some 8, w', s')"
    using sample_rollover by blast
  have w: "w_buffer sample_writer = Some (version_header_bytes (h_version sample_host) @ replicate 24 7)" "w_mmapped sample_writer"
    "fits (sample_config False) sample_writer 24" "coldtrace_writer_new_trace (sample_config False) sample_writer 24"
    by (simp_all add: fits_def coldtrace_writer_new_trace_def sample_config_def sample_writer_def)
  have "w_enumerator sample_writer = 0" "w_tid sample_writer = 1" "path (sample_config False) = ''/d''"
    "max_file_count (sample_config False) = 4"
    by (simp_all add: sample_writer_def sample_config_def)
  with rollover_writes_fragment [OF sample_inv w(1,2) sample_path_ok(1) w(3,4) run] run show ?thesis by simp
qed

text \<open>
  C34: Writing a buffer out terminates and is exact.  When enough of the following calls of \<open>write\<close> are
  neither interrupted nor write nothing, the loop returns; if it reports success the file has grown by
  exactly the buffer, otherwise by a prefix of it.
\<close>

theorem write_all_total:
  assumes "length p \<le> productive_calls (h_env h) (clock s) k" "node_at s fd = Some (Reg old)"
  shows "\<exists>ok s'. write_all k h fd p s = Inr (ok, s') \<and> (\<forall>q. q \<noteq> fd \<longrightarrow> node_at s' q = node_at s q)
     \<and> (if ok then node_at s' fd = Some (Reg (old @ p)) else \<exists>n. node_at s' fd = Some (Reg (old @ take n p)))"
proof -
  obtain ok s' where run: "write_all k h fd p s = Inr (ok, s')" using write_all_returns [OF assms(1)] by fastforce
  from write_all_contents [OF run assms(2)] run show ?thesis by auto
qed

theorem write_all_total_witness:
  "\<exists>ok s'. write_all 9 sample_host ''f'' [1, 2, 3] \<lparr>fs = [(''f'', Reg [0])], clock = 0\<rparr> = Inr (ok, s')
     \<and> (ok \<longrightarrow> node_at s' ''f'' = Some (Reg [0, 1, 2, 3]))"
proof -
  let ?s = "\<lparr>fs = [(''f'', Reg [0])], clock = 0\<rparr>"
  have "length [1, 2, 3 :: u8] \<le> productive_calls (h_env sample_host) (clock ?s) 9" "node_at ?s ''f'' = Some (Reg [0])"
    by (simp_all add: productive_calls_def productive_def sample_host_def calm_env_def node_at_def)
  from write_all_total [OF this] show ?thesis by fastforce
qed

text \<open>
  C35: The search for the first fragment terminates.  With fewer files than attempts it returns; the number
  it settles on is the first one whose file does not exist, that file is created empty, and no other
  file changes.  When opening fails for another reason nothing changes.
\<close>

theorem first_fragment_fresh:
  assumes "config_path_ok c" "length (fs s) < ev_fuel (h_env h)" "ev_fuel (h_env h) \<le> 2 ^ 32"
  shows "\<exists>ok w' s' j. first_fragment h c w s = Inr (ok, w', s') \<and> w' = w\<lparr>w_enumerator := w_enumerator w + of_nat j\<rparr>
     \<and> (\<forall>i<j. node_at s (fragment_name (path c) (ucast (w_tid w)) (w_enumerator w + of_nat i)) \<noteq> None)
     \<and> (if ok then node_at s (fragment_name (path c) (ucast (w_tid w)) (w_enumerator w')) = None
               \<and> node_at s' = (node_at s)(fragment_name (path c) (ucast (w_tid w)) (w_enumerator w') \<mapsto> Reg [])
        else node_at s' = node_at s)"
proof -
  obtain ok w' s' where run: "first_fragment h c w s = Inr (ok, w', s')"
    using first_fragment_returns [OF assms] by (metis surj_pair)
  from first_fragment_loop_result [OF run [unfolded first_fragment_def] assms(1)] run show ?thesis
    unfolding created_only_def by metis
qed

theorem first_fragment_fresh_witness:
  "\<exists>ok w' s'. first_fragment sample_host (sample_config False) sample_writer sample_os = Inr (ok, w', s')
     \<and> (ok \<longrightarrow> node_at s' (fragment_name ''/d'' 1 (w_enumerator w')) = Some (Reg []))"
proof -
  have "length (fs sample_os) < ev_fuel (h_env sample_host)" "ev_fuel (h_env sample_host) \<le> 2 ^ 32"
    by (simp_all add: sample_os_def sample_host_def calm_env_def)
  from first_fragment_fresh [OF sample_path_ok(1) this, of False sample_writer] show ?thesis
    by (fastforce simp: sample_writer_def sample_config_def)
qed

lemma reserve_total:
  assumes "writer_inv h w" "path_ok c w" "max_file_count c \<noteq> 0"
    and "w_buffer w \<noteq> None \<longrightarrow> env_live h (12 + comp_capacity w)"
    and "env_live h (12 + comp_capacity (w\<lparr>w_size := trace_size c\<rparr>))"
    and "w_buffer w = None \<longrightarrow> length (fs s) < ev_fuel (h_env h)" "ev_fuel (h_env h) \<le> 2 ^ 32"
  shows "\<exists>r. coldtrace_writer_reserve h c n w s = Inr r"
proof -
  have c1: "\<not> disable_writes c \<longrightarrow> config_path_ok c" using assms(2) by (simp add: path_ok_def)
  have "\<exists>r. ensure_buffer h c w s = Inr r"
  proof (cases "w_buffer w")
    case None
    then show ?thesis using ensure_buffer_returns [OF assms(1) c1 _ assms(7)] assms(6) by blast
  next
    case (Some b)
    then have "w_initd w" "\<not> w_failed w" using writer_inv_Some [OF assms(1)] by (simp_all add: buffer_ok_def block_ok_def)
    then show ?thesis using Some by (intro exI [of _ "(True, w, s)"]) (simp add: ensure_buffer_def)
  qed
  then obtain ok w1 s1 where en: "ensure_buffer h c w s = Inr (ok, w1, s1)" by (metis surj_pair)
  have "\<exists>r. new_trace h c w1 s1 = Inr r" if "ok"
  proof (rule ensure_buffer_cases [OF assms(1) c1 en])
    assume "\<not> ok"
    then show ?thesis using that by simp
  next
    fix b assume "w_buffer w = Some b" "w1 = w" "s1 = s"
    then show ?thesis
      using assms(1-4) by (intro new_trace_returns [of h w1 b]) (auto simp: writer_inv_Some path_ok_def)
  next
    fix b assume got: "w_buffer w1 = Some b" "buffer_ok h w1 b" "w_size w1 = trace_size c" "w_mmapped w1 = (\<not> disable_writes c)"
    have "comp_capacity w1 = comp_capacity (w\<lparr>w_size := trace_size c\<rparr>)" by (simp add: comp_capacity_def got(3))
    then show ?thesis using got assms(3,5) c1 by (intro new_trace_returns) auto
  qed
  then show ?thesis using en by (fastforce simp: coldtrace_writer_reserve_def split: if_splits prod.splits)
qed

text \<open>
  A reservation never gets stuck or faults.  Under a usable path, a non-zero maximal file count, an
  environment in which writes make progress and fewer files than attempts, it returns, whatever fails.
\<close>

theorem reserve_returns:
  assumes "writer_inv h w" "path_ok c w" "max_file_count c \<noteq> 0"
    and "env_live h (12 + comp_capacity w)" "env_live h (12 + comp_capacity (w\<lparr>w_size := trace_size c\<rparr>))"
    and "length (fs s) < ev_fuel (h_env h)" "ev_fuel (h_env h) \<le> 2 ^ 32"
  shows "\<exists>r. coldtrace_writer_reserve h c n w s = Inr r"
  using assms by (intro reserve_total) simp_all

theorem reserve_returns_witness:
  "\<exists>r. coldtrace_writer_reserve sample_host (sample_config False) 24 sample_writer sample_os = Inr r"
proof -
  have "comp_capacity (sample_writer\<lparr>w_size := trace_size (sample_config False)\<rparr>) = 48"
    by (simp add: comp_capacity_def sample_config_def LZ4_compressBound_def LZ4_MAX_INPUT_SIZE_def)
  then show ?thesis
    using reserve_returns [OF sample_inv sample_path_ok(2), of False sample_os 24] sample_live [of 60]
    by (simp add: sample_capacity) (simp add: sample_config_def sample_os_def sample_host_def calm_env_def)
qed

lemma reserve_dead: "\<not> w_initd w \<or> w_failed w \<Longrightarrow> coldtrace_writer_reserve h c n w s = Inr (None, w, s)"
  by (auto simp: coldtrace_writer_reserve_def ensure_buffer_def)

text \<open>
  C36: A failure is permanent.  When a writer that had a buffer answers a reservation with a null
  pointer, it owns no memory any more, and every later reservation, under any configuration, returns a
  null pointer and changes neither the writer nor a file.
\<close>

theorem writer_failure_permanent:
  assumes "writer_inv h w" "path_ok c w" "fits c w n" "w_buffer w \<noteq> None"
    and "coldtrace_writer_reserve h c n w s = Inr (None, w', s')"
  shows "w_buffer w' = None \<and> w_comp_buf w' = None \<and> (\<forall>c2 n2 s2. coldtrace_writer_reserve h c2 n2 w' s2 = Inr (None, w', s2))"
proof -
  have "w' = fail w" using assms(1,2,3,5) by (cases rule: reserve_cases) (use assms(4) in auto)
  then show ?thesis by (simp add: reserve_dead)
qed

text \<open>A host whose files cannot be opened any more.\<close>

definition broken_host :: host where
  "broken_host = sample_host\<lparr>h_env := calm_env\<lparr>ev_open_err := (\<lambda>_. True)\<rparr>\<rparr>"

lemma broken_buffer_ok:
  "buffer_ok broken_host sample_writer (version_header_bytes (h_version sample_host) @ replicate 24 7)"
  using sample_buffer_ok by (simp add: buffer_ok_def broken_host_def)

lemma broken_reserve:
  "coldtrace_writer_reserve broken_host (sample_config False) 24 sample_writer sample_os = Inr (None, fail sample_writer, tick sample_os)"
proof -
  have w: "w_buffer sample_writer = Some (version_header_bytes (h_version sample_host) @ replicate 24 7)" "w_mmapped sample_writer"
    by (simp_all add: sample_writer_def)
  have "flush broken_host (sample_config False) sample_writer sample_os = Inr (fail sample_writer, tick sample_os)"
    by (rule flush_mapped [OF broken_buffer_ok w sample_path_ok(1), of False sample_os])
       (simp add: broken_host_def)
  then show ?thesis
    by (simp add: coldtrace_writer_reserve_def ensure_buffer_def coldtrace_writer_new_trace_def new_trace_def
          sample_writer_def sample_config_def del: bindR_eq_Inr)
qed

theorem writer_failure_permanent_witness:
  "coldtrace_writer_reserve broken_host (sample_config False) 24 sample_writer sample_os = Inr (None, fail sample_writer, tick sample_os)
   \<and> (\<forall>c2 n2 s2. coldtrace_writer_reserve broken_host c2 n2 (fail sample_writer) s2 = Inr (None, fail sample_writer, s2))"
proof -
  have "writer_inv broken_host sample_writer"
    using broken_buffer_ok by (simp add: writer_inv_def sample_writer_def)
  moreover have "fits (sample_config False) sample_writer 24" "w_buffer sample_writer \<noteq> None"
    by (simp_all add: fits_def sample_config_def sample_writer_def)
  ultimately show ?thesis
    using writer_failure_permanent [OF _ sample_path_ok(2) _ _ broken_reserve] broken_reserve by simp
qed

text \<open>
  C37: Finalising a writer flushes the last fragment and ends it.  A mapped buffer is written to its file
  unless the writer fails; without a mapped buffer nothing is written.  Afterwards no memory is owned,
  every reservation returns a null pointer, and finalising again does nothing.
\<close>

theorem fini_flushes_and_ends:
  assumes "writer_inv h w" "path_ok c w" "coldtrace_writer_fini h c w s = Inr (w', s')"
  shows "(w_buffer w \<noteq> None \<and> w_mmapped w \<and> \<not> w_failed w' \<longrightarrow>
            node_at s' = (node_at s)(fragment_name (path c) (ucast (w_tid w)) (w_enumerator w) \<mapsto> Reg (fragment_file h w)))
     \<and> (\<not> (w_buffer w \<noteq> None \<and> w_mmapped w) \<longrightarrow> s' = s)
     \<and> w_buffer w' = None \<and> w_comp_buf w' = None
     \<and> (\<forall>c2 n s2. coldtrace_writer_reserve h c2 n w' s2 = Inr (None, w', s2) \<and> coldtrace_writer_fini h c2 w' s2 = Inr (w', s2))"
  using fini_effect [OF assms]
  by (auto simp: reserve_dead coldtrace_writer_fini_def split: if_splits)

theorem fini_flushes_and_ends_witness:
  "\<exists>w' s'. coldtrace_writer_fini sample_host (sample_config False) sample_writer sample_os = Inr (w', s')
     \<and> node_at s' (fragment_name ''/d'' 1 0) = Some (Reg (fragment_file sample_host sample_writer)) \<and> w_buffer w' = None"
proof -
  obtain cb s' where fl: "flush sample_host (sample_config False) sample_writer sample_os
      = Inr (sample_writer\<lparr>w_comp_buf := Some cb\<rparr>, s')" using sample_flush by blast
  let ?w' = "(release_buffers (sample_writer\<lparr>w_comp_buf := Some cb\<rparr>))\<lparr>w_initd := False\<rparr>"
  have w: "w_buffer sample_writer \<noteq> None" "w_mmapped sample_writer" "w_initd sample_writer" "w_tid sample_writer = 1"
      "w_enumerator sample_writer = 0" "path (sample_config False) = ''/d''" "\<not> w_failed ?w'"
    by (simp_all add: sample_writer_def sample_config_def release_buffers_def)
  have run: "coldtrace_writer_fini sample_host (sample_config False) sample_writer sample_os = Inr (?w', s')"
    using fl w by (simp add: coldtrace_writer_fini_def del: bindR_eq_Inr)
  from fini_flushes_and_ends [OF sample_inv sample_path_ok(2) run] run w show ?thesis by auto
qed


text \<open>
  C39: A maximal file count of zero, which is what an environment variable that is not a number gives,
  makes the first roll-over of a written trace divide by zero.
\<close>

theorem zero_max_files_divides_by_zero:
  assumes "w_initd w" "w_buffer w \<noteq> None" "\<not> w_failed w" "w_mmapped w"
    and "coldtrace_writer_new_trace c w n" "flush h c w s = Inr (w1, s1)" "w_buffer w1 \<noteq> None" "w_mmapped w1"
    and "c = init_limits (\<lambda>v. if v = ''COLDTRACE_MAX_FILES'' then Some ''many'' else None) c0"
  shows "coldtrace_writer_reserve h c n w s = Inl Div_By_Zero"
proof -
  have m: "strtoul ''many'' = 0"
    by (simp add: strtoul_def c_isspace_def is_digit_def)
  have "max_file_count c = 0"
    unfolding assms(9) by (simp add: init_limits_def coldtrace_set_max_def m)
  then show ?thesis
    using assms(1-8) by (simp add: coldtrace_writer_reserve_def ensure_buffer_def new_trace_def advance_fragment_def)
qed

lemma flush_max_irrelevant: "flush h (c\<lparr>max_file_count := m\<rparr>) w s = flush h c w s"
proof -
  have "format_file_name (c\<lparr>max_file_count := m\<rparr>) = format_file_name c"
    by (simp add: format_file_name_def fun_eq_iff)
  then show ?thesis by (simp only: flush_def)
qed

theorem zero_max_files_divides_by_zero_witness:
  "coldtrace_writer_reserve sample_host
     (init_limits (\<lambda>v. if v = ''COLDTRACE_MAX_FILES'' then Some ''many'' else None) (sample_config False)) 24 sample_writer sample_os
   = Inl Div_By_Zero"
proof -
  let ?c = "init_limits (\<lambda>v. if v = ''COLDTRACE_MAX_FILES'' then Some ''many'' else None) (sample_config False)"
  have c: "?c = (sample_config False)\<lparr>max_file_count := max_file_count ?c\<rparr>"
    by (simp add: init_limits_def coldtrace_set_max_def)
  have "flush sample_host ?c sample_writer sample_os = flush sample_host (sample_config False) sample_writer sample_os"
    by (subst c) (rule flush_max_irrelevant)
  then obtain cb s1 where "flush sample_host ?c sample_writer sample_os = Inr (sample_writer\<lparr>w_comp_buf := Some cb\<rparr>, s1)"
    using sample_flush by auto
  moreover have "coldtrace_writer_new_trace ?c sample_writer 24"
    by (subst c) (simp add: coldtrace_writer_new_trace_def sample_writer_def sample_config_def)
  ultimately show ?thesis
    by (intro zero_max_files_divides_by_zero [OF _ _ _ _ _ _ _ _ refl]) (auto simp: sample_writer_def)
qed

end
