(* ===== verification/Thread.thy ===== *)
theory Thread
  imports Writer_Props
begin

text \<open>
  The per-thread state of \<open>src/thread.c\<close>: the thread's writer and its shadow call stack, and the
  operation that appends an entry with the difference between the call stack now and at the last
  entry of the fragment.

  A thread's state is the zero-initialised thread-local object that \<open>SELF_TLS\<close> finds for its
  metadata; it is passed around explicitly.  The stack block is the list of its words, of length
  \<open>stack_capacity\<close>, empty for a null pointer.
\<close>

section \<open>State\<close>

record coldtrace_thread =
  t_writer :: writer_impl
  t_initd :: bool
  t_failed :: bool
  t_stack_bottom :: u32
  t_stack :: "u64 list"
  t_stack_size :: u32
  t_stack_capacity :: u32
  t_created_thread_idx :: u64

definition zero_thread :: coldtrace_thread where
  "zero_thread = \<lparr>t_writer = zero_writer, t_initd = False, t_failed = False, t_stack_bottom = 0, t_stack = [],
     t_stack_size = 0, t_stack_capacity = 0, t_created_thread_idx = 0\<rparr>"

definition INITIAL_STACK_CAPACITY :: u32 where "INITIAL_STACK_CAPACITY = 16"

definition get_coldtrace_thread :: "host \<Rightarrow> u64 \<Rightarrow> coldtrace_thread \<Rightarrow> coldtrace_thread" where
  "get_coldtrace_thread h md th =
     (if \<not> t_initd th then th\<lparr>t_writer := coldtrace_writer_init h (Some md) (t_writer th), t_initd := True\<rparr> else th)"

definition with_stack :: "u8 \<Rightarrow> bool" where
  "with_stack t =
     (let b = base_type t in
      b = COLDTRACE_FREE \<or> b = COLDTRACE_ALLOC \<or> b = COLDTRACE_MMAP \<or> b = COLDTRACE_MUNMAP
      \<or> b = COLDTRACE_READ \<or> b = COLDTRACE_WRITE)"

section \<open>The shadow call stack\<close>

text \<open>
  \<open>realloc\<close> of a block of words: the old contents are kept up to the new size, and what is added is
  not initialised.
\<close>

definition junk_words :: "os_env \<Rightarrow> nat \<Rightarrow> nat \<Rightarrow> u64 list" where
  "junk_words env t n = map (\<lambda>i. le_word (map (\<lambda>j. ev_junk env t (8 * i + j)) [0..<8])) [0..<n]"

definition os_realloc_words :: "os_env \<Rightarrow> u64 list \<Rightarrow> u64 \<Rightarrow> os \<Rightarrow> u64 list option \<times> os" where
  "os_realloc_words env old n s =
     ((if ev_alloc_ok env (clock s) n \<and> unat n < 2 ^ 63
       then Some (take (unat n div 8) old @ junk_words env (clock s) (unat n div 8 - length old)) else None), tick s)"

definition grow_stack :: "host \<Rightarrow> coldtrace_thread \<Rightarrow> os \<Rightarrow> bool \<times> coldtrace_thread \<times> os" where
  "grow_stack h th s =
     (let new_capacity = (if t_stack_capacity th = 0 then INITIAL_STACK_CAPACITY else t_stack_capacity th * 2);
          n = ucast new_capacity * 8
      in case os_realloc_words (h_env h) (t_stack th) n s of
           (None, s') \<Rightarrow> (False, th\<lparr>t_failed := True\<rparr>, s')
         | (Some stk, s') \<Rightarrow> (True, th\<lparr>t_stack := stk, t_stack_capacity := new_capacity\<rparr>, s'))"

definition coldtrace_thread_stack_push ::
  "host \<Rightarrow> u64 \<Rightarrow> u64 \<Rightarrow> coldtrace_thread \<Rightarrow> os \<Rightarrow> (coldtrace_thread \<times> os) res"
where
  "coldtrace_thread_stack_push h md pc th0 s =
     (let th = get_coldtrace_thread h md th0 in
      if t_failed th then Inr (th, s)
      else
        let (ok, th1, s1) = (if t_stack_size th = t_stack_capacity th then grow_stack h th s else (True, th, s)) in
        if \<not> ok then Inr (th1, s1)
        else
          bindR (store (unat (t_stack_size th1)) [pc] (t_stack th1)) (\<lambda>stk.
            Inr (th1\<lparr>t_stack := stk, t_stack_size := t_stack_size th1 + 1\<rparr>, s1)))"

definition coldtrace_thread_stack_pop :: "host \<Rightarrow> u64 \<Rightarrow> coldtrace_thread \<Rightarrow> coldtrace_thread" where
  "coldtrace_thread_stack_pop h md th0 =
     (let th = get_coldtrace_thread h md th0 in
      if t_failed th then th
      else if 0 < t_stack_size th then
        let th1 = th\<lparr>t_stack_size := t_stack_size th - 1\<rparr> in
        if t_stack_size th1 < t_stack_bottom th1 then th1\<lparr>t_stack_bottom := t_stack_size th1\<rparr> else th1
      else th)"

text \<open>The frames on the stack, the innermost call last.\<close>

definition call_stack :: "coldtrace_thread \<Rightarrow> u64 list" where
  "call_stack th = take (unat (t_stack_size th)) (t_stack th)"

section \<open>Appending an entry\<close>

text \<open>A store through a pointer into the writer's buffer.\<close>

definition thread_store :: "nat \<Rightarrow> bytes \<Rightarrow> coldtrace_thread \<Rightarrow> coldtrace_thread res" where
  "thread_store off bs th = bindR (writer_store off bs (t_writer th)) (\<lambda>w. Inr (th\<lparr>t_writer := w\<rparr>))"

text \<open>The two halves of \<open>coldtrace_thread_append\<close>: an entry without, and one with a call stack.\<close>

definition append_plain ::
  "host \<Rightarrow> config \<Rightarrow> u8 \<Rightarrow> u64 \<Rightarrow> u64 \<Rightarrow> coldtrace_thread \<Rightarrow> os \<Rightarrow> (u64 option \<times> coldtrace_thread \<times> os) res"
where
  "append_plain h c t ptr len th s =
     (let th1 = (if coldtrace_writer_new_trace c (t_writer th) len then th\<lparr>t_stack_bottom := 0\<rparr> else th) in
      bindR (coldtrace_writer_reserve h c len (t_writer th1) s) (\<lambda>(r, w, s1).
        let th2 = th1\<lparr>t_writer := w\<rparr> in
        case r of
          None \<Rightarrow> Inr (None, th2, s1)
        | Some e \<Rightarrow>
            bindR (thread_store (unat e) (u64_bytes (coldtrace_entry_init t ptr)) th2) (\<lambda>th3.
              Inr (Some e, th3, s1))))"

definition append_with_stack ::
  "host \<Rightarrow> config \<Rightarrow> u8 \<Rightarrow> u64 \<Rightarrow> u64 \<Rightarrow> coldtrace_thread \<Rightarrow> os \<Rightarrow> (u64 option \<times> coldtrace_thread \<times> os) res"
where
  "append_with_stack h c t ptr len th s =
     (let stack_top = t_stack_size th;
          stack_bot0 = t_stack_bottom th;
          stack_size0 = ucast (stack_top - stack_bot0) * 8 :: u64;
          roll = coldtrace_writer_new_trace c (t_writer th) (len + stack_size0);
          stack_bot = (if roll then 0 else stack_bot0);
          stack_size = (if roll then ucast stack_top * 8 else stack_size0)
      in bindR (coldtrace_writer_reserve h c (len + stack_size) (t_writer th) s) (\<lambda>(r, w, s1).
           let th1 = th\<lparr>t_writer := w\<rparr> in
           case r of
             None \<Rightarrow> Inr (None, th1, s1)
           | Some e \<Rightarrow>
               bindR (thread_store (unat e) (u64_bytes (coldtrace_entry_init t ptr)) th1) (\<lambda>th2.
               let buf = unat (e + len - of_nat sizeof_stack_diff) in
               bindR (thread_store (buf + 4) (u32_bytes stack_top) th2) (\<lambda>th3.
               bindR (thread_store buf (u32_bytes stack_bot) th3) (\<lambda>th4.
               bindR (if 0 < stack_size
                      then bindR (load (unat stack_bot) (unat (stack_size div 8)) (t_stack th4)) (\<lambda>d.
                             thread_store (buf + 8) (pack u64_bytes d) th4)
                      else Inr th4) (\<lambda>th5.
                 Inr (Some e, th5\<lparr>t_stack_bottom := stack_top\<rparr>, s1)))))))"

definition coldtrace_thread_append ::
  "host \<Rightarrow> config \<Rightarrow> u64 \<Rightarrow> u8 \<Rightarrow> u64 \<Rightarrow> coldtrace_thread \<Rightarrow> os \<Rightarrow> (u64 option \<times> coldtrace_thread \<times> os) res"
where
  "coldtrace_thread_append h c md t ptr th0 s =
     (let th = get_coldtrace_thread h md th0 in
      if t_failed th then Inr (None, th, s)
      else
        let len = coldtrace_entry_fixed_size t in
        if len = 0 then Inr (None, th, s)
        else if \<not> with_stack t then append_plain h c t ptr len th s
        else append_with_stack h c t ptr len th s)"

section \<open>Life of a thread\<close>

definition coldtrace_thread_init :: "host \<Rightarrow> u64 \<Rightarrow> coldtrace_thread \<Rightarrow> coldtrace_thread" where
  "coldtrace_thread_init h md th0 =
     (let th = get_coldtrace_thread h md th0 in
      th\<lparr>t_writer := coldtrace_writer_init h (Some md) (t_writer th)\<rparr>)"

definition coldtrace_thread_fini ::
  "host \<Rightarrow> config \<Rightarrow> u64 \<Rightarrow> coldtrace_thread \<Rightarrow> os \<Rightarrow> (coldtrace_thread \<times> os) res"
where
  "coldtrace_thread_fini h c md th0 s =
     (let th = get_coldtrace_thread h md th0 in
      bindR (coldtrace_writer_fini h c (t_writer th) s) (\<lambda>(w, s1).
        Inr (th\<lparr>t_writer := w, t_stack := [], t_stack_size := 0, t_stack_capacity := 0, t_stack_bottom := 0\<rparr>, s1)))"

definition coldtrace_thread_set_create_idx :: "host \<Rightarrow> u64 \<Rightarrow> u64 \<Rightarrow> coldtrace_thread \<Rightarrow> coldtrace_thread" where
  "coldtrace_thread_set_create_idx h md idx th = (get_coldtrace_thread h md th)\<lparr>t_created_thread_idx := idx\<rparr>"

definition coldtrace_thread_get_create_idx :: "host \<Rightarrow> u64 \<Rightarrow> coldtrace_thread \<Rightarrow> u64 \<times> coldtrace_thread" where
  "coldtrace_thread_get_create_idx h md th0 =
     (let th = get_coldtrace_thread h md th0 in (t_created_thread_idx th, th))"

end
