(* ===== verification/Events.thy ===== *)
theory Events
  imports Thread
begin

text \<open>
  The subscribers: what the tracer does when the interception layer publishes an event
  (\<open>src/subs_*.c\<close>), with the index counters of \<open>src/counters.c\<close>.

  A subscriber runs in the thread the event belongs to and works on that thread's state, on the
  global counters and lock areas, and on the operating system.  Its arguments are the fields of the
  event it reads.  The record also collects what the thread has logged: an entry is added when the
  subscriber has filled in all its fields.  The list is not part of the program's memory; the theorems
  relate it to the bytes in the buffer and in the files.
\<close>

section \<open>State\<close>

record area =
  a_lock :: bool
  a_idx :: u64

record globals =
  g_alloc_index :: u64
  g_atomic_index :: u64
  g_areas :: "area list"

record logged =
  l_type :: u8
  l_ptr :: u64
  l_fields :: "u64 list"
  l_stack :: "u64 list"

record ctx =
  x_thread :: coldtrace_thread
  x_globals :: globals
  x_os :: os
  x_log :: "logged list"

definition AREA_SHIFT :: nat where "AREA_SHIFT = 6"

definition AREAS :: u64 where "AREAS = 128"

definition initial_globals :: globals where
  "initial_globals = \<lparr>g_alloc_index = 0, g_atomic_index = 0, g_areas = replicate (unat AREAS) \<lparr>a_lock = False, a_idx = 0\<rparr>\<rparr>"

section \<open>Counters\<close>

definition coldtrace_next_alloc_idx :: "host \<Rightarrow> globals \<Rightarrow> u64 \<times> globals" where
  "coldtrace_next_alloc_idx h g = (let (i, v) = h_get_inc h (g_alloc_index g) in (i, g\<lparr>g_alloc_index := v\<rparr>))"

definition coldtrace_next_atomic_idx :: "host \<Rightarrow> globals \<Rightarrow> u64 \<times> globals" where
  "coldtrace_next_atomic_idx h g = (let (i, v) = h_get_inc h (g_atomic_index g) in (i, g\<lparr>g_atomic_index := v\<rparr>))"

section \<open>Logging\<close>

text \<open>The macro \<open>COLDTRACE_APPEND_OR_RETURN_OK\<close>; the rest of the subscriber is its last argument.\<close>

definition append_or_return ::
  "host \<Rightarrow> config \<Rightarrow> u64 \<Rightarrow> u8 \<Rightarrow> u64 \<Rightarrow> (u64 \<Rightarrow> ctx \<Rightarrow> ctx res) \<Rightarrow> ctx \<Rightarrow> ctx res"
where
  "append_or_return h c md kind val k x =
     bindR (coldtrace_thread_append h c md kind val (x_thread x) (x_os x)) (\<lambda>(r, th, s).
       let x1 = x\<lparr>x_thread := th, x_os := s\<rparr> in
       case r of None \<Rightarrow> Inr x1 | Some e \<Rightarrow> k e x1)"

text \<open>Assignments to the fields of an entry, in the order of their declaration.\<close>

primrec store_fields :: "nat \<Rightarrow> u64 list \<Rightarrow> coldtrace_thread \<Rightarrow> coldtrace_thread res" where
  "store_fields off [] th = Inr th"
| "store_fields off (v # vs) th = bindR (thread_store off (u64_bytes v) th) (store_fields (off + 8) vs)"

definition set_fields :: "u8 \<Rightarrow> u64 \<Rightarrow> u64 \<Rightarrow> u64 list \<Rightarrow> ctx \<Rightarrow> ctx res" where
  "set_fields kind val e vs x =
     bindR (store_fields (unat e + 8) vs (x_thread x)) (\<lambda>th.
       Inr (x\<lparr>x_thread := th,
             x_log := x_log x @ [\<lparr>l_type = kind, l_ptr = val, l_fields = vs, l_stack = call_stack th\<rparr>]\<rparr>))"

definition draw_alloc :: "host \<Rightarrow> (u64 \<Rightarrow> ctx \<Rightarrow> ctx res) \<Rightarrow> ctx \<Rightarrow> ctx res" where
  "draw_alloc h k x = (let (i, g) = coldtrace_next_alloc_idx h (x_globals x) in k i (x\<lparr>x_globals := g\<rparr>))"

definition draw_atomic :: "host \<Rightarrow> (u64 \<Rightarrow> ctx \<Rightarrow> ctx res) \<Rightarrow> ctx \<Rightarrow> ctx res" where
  "draw_atomic h k x = (let (i, g) = coldtrace_next_atomic_idx h (x_globals x) in k i (x\<lparr>x_globals := g\<rparr>))"

text \<open>The bodies that many subscribers share, for the four structures with an index or a caller.\<close>

definition log_access :: "host \<Rightarrow> config \<Rightarrow> u64 \<Rightarrow> u8 \<Rightarrow> u64 \<Rightarrow> u64 \<Rightarrow> u64 \<Rightarrow> ctx \<Rightarrow> ctx res" where
  "log_access h c md kind val sz pc = append_or_return h c md kind val (\<lambda>e. set_fields kind val e [sz, pc])"

definition log_alloc :: "host \<Rightarrow> config \<Rightarrow> u64 \<Rightarrow> u8 \<Rightarrow> u64 \<Rightarrow> u64 \<Rightarrow> u64 \<Rightarrow> ctx \<Rightarrow> ctx res" where
  "log_alloc h c md kind val sz pc =
     append_or_return h c md kind val (\<lambda>e. draw_alloc h (\<lambda>i. set_fields kind val e [sz, i, pc]))"

definition log_free :: "host \<Rightarrow> config \<Rightarrow> u64 \<Rightarrow> u64 \<Rightarrow> u64 \<Rightarrow> ctx \<Rightarrow> ctx res" where
  "log_free h c md val pc =
     append_or_return h c md COLDTRACE_FREE val (\<lambda>e. draw_alloc h (\<lambda>i. set_fields COLDTRACE_FREE val e [i, pc]))"

definition log_atomic :: "host \<Rightarrow> config \<Rightarrow> u64 \<Rightarrow> u8 \<Rightarrow> u64 \<Rightarrow> ctx \<Rightarrow> ctx res" where
  "log_atomic h c md kind val =
     append_or_return h c md kind val (\<lambda>e. draw_atomic h (\<lambda>i. set_fields kind val e [i]))"

definition when_ok :: "int \<Rightarrow> (ctx \<Rightarrow> ctx res) \<Rightarrow> ctx \<Rightarrow> ctx res" where
  "when_ok ret k x = (if ret = 0 then k x else Inr x)"

section \<open>Allocation: subs_malloc.c\<close>

definition after_malloc :: "host \<Rightarrow> config \<Rightarrow> u64 \<Rightarrow> u64 \<Rightarrow> u64 \<Rightarrow> u64 \<Rightarrow> ctx \<Rightarrow> ctx res" where
  [handler_defs]: "after_malloc h c md sz pc ret = log_alloc h c md COLDTRACE_ALLOC ret sz pc"

definition after_calloc :: "host \<Rightarrow> config \<Rightarrow> u64 \<Rightarrow> u64 \<Rightarrow> u64 \<Rightarrow> u64 \<Rightarrow> u64 \<Rightarrow> ctx \<Rightarrow> ctx res" where
  [handler_defs]: "after_calloc h c md number sz pc ret = log_alloc h c md COLDTRACE_ALLOC ret (number * sz) pc"

definition before_realloc :: "host \<Rightarrow> config \<Rightarrow> u64 \<Rightarrow> u64 \<Rightarrow> u64 \<Rightarrow> ctx \<Rightarrow> ctx res" where
  [handler_defs]: "before_realloc h c md ptr pc = log_free h c md ptr pc"

definition after_realloc :: "host \<Rightarrow> config \<Rightarrow> u64 \<Rightarrow> u64 \<Rightarrow> u64 \<Rightarrow> u64 \<Rightarrow> ctx \<Rightarrow> ctx res" where
  [handler_defs]: "after_realloc h c md sz pc ret = log_alloc h c md COLDTRACE_ALLOC ret sz pc"

definition before_free :: "host \<Rightarrow> config \<Rightarrow> u64 \<Rightarrow> u64 \<Rightarrow> u64 \<Rightarrow> ctx \<Rightarrow> ctx res" where
  [handler_defs]: "before_free h c md ptr pc = log_free h c md ptr pc"

definition after_posix_memalign :: "host \<Rightarrow> config \<Rightarrow> u64 \<Rightarrow> int \<Rightarrow> u64 \<Rightarrow> u64 \<Rightarrow> u64 \<Rightarrow> ctx \<Rightarrow> ctx res" where
  [handler_defs]: "after_posix_memalign h c md ret ptr sz pc = when_ok ret (log_alloc h c md COLDTRACE_ALLOC ptr sz pc)"

definition after_aligned_alloc :: "host \<Rightarrow> config \<Rightarrow> u64 \<Rightarrow> u64 \<Rightarrow> u64 \<Rightarrow> u64 \<Rightarrow> ctx \<Rightarrow> ctx res" where
  [handler_defs]: "after_aligned_alloc h c md sz pc ret = log_alloc h c md COLDTRACE_ALLOC ret sz pc"

section \<open>Mappings: subs_mman.c\<close>

definition after_mmap :: "host \<Rightarrow> config \<Rightarrow> u64 \<Rightarrow> u64 \<Rightarrow> u64 \<Rightarrow> u64 \<Rightarrow> ctx \<Rightarrow> ctx res" where
  [handler_defs]: "after_mmap h c md len pc ret = log_alloc h c md COLDTRACE_MMAP ret len pc"

definition before_munmap :: "host \<Rightarrow> config \<Rightarrow> u64 \<Rightarrow> u64 \<Rightarrow> u64 \<Rightarrow> u64 \<Rightarrow> ctx \<Rightarrow> ctx res" where
  [handler_defs]: "before_munmap h c md addr len pc = log_alloc h c md COLDTRACE_MUNMAP addr len pc"

section \<open>Memory blocks: subs_memcpy.c\<close>

definition before_memcpy :: "host \<Rightarrow> config \<Rightarrow> u64 \<Rightarrow> u64 \<Rightarrow> u64 \<Rightarrow> u64 \<Rightarrow> ctx \<Rightarrow> ctx res" where
  [handler_defs]: "before_memcpy h c md src num pc = log_access h c md COLDTRACE_READ src num pc"

definition after_memcpy :: "host \<Rightarrow> config \<Rightarrow> u64 \<Rightarrow> u64 \<Rightarrow> u64 \<Rightarrow> u64 \<Rightarrow> ctx \<Rightarrow> ctx res" where
  [handler_defs]: "after_memcpy h c md dest num pc = log_access h c md COLDTRACE_WRITE dest num pc"

definition before_memmove :: "host \<Rightarrow> config \<Rightarrow> u64 \<Rightarrow> u64 \<Rightarrow> u64 \<Rightarrow> u64 \<Rightarrow> ctx \<Rightarrow> ctx res" where
  [handler_defs]: "before_memmove h c md src count pc = log_access h c md COLDTRACE_READ src count pc"

definition after_memmove :: "host \<Rightarrow> config \<Rightarrow> u64 \<Rightarrow> u64 \<Rightarrow> u64 \<Rightarrow> u64 \<Rightarrow> ctx \<Rightarrow> ctx res" where
  [handler_defs]: "after_memmove h c md dest count pc = log_access h c md COLDTRACE_WRITE dest count pc"

definition after_memset :: "host \<Rightarrow> config \<Rightarrow> u64 \<Rightarrow> u64 \<Rightarrow> u64 \<Rightarrow> u64 \<Rightarrow> ctx \<Rightarrow> ctx res" where
  [handler_defs]: "after_memset h c md ptr num pc = log_access h c md COLDTRACE_WRITE ptr num pc"

section \<open>Semaphores: subs_sem.c\<close>

definition after_sem_wait :: "host \<Rightarrow> config \<Rightarrow> u64 \<Rightarrow> int \<Rightarrow> u64 \<Rightarrow> ctx \<Rightarrow> ctx res" where
  [handler_defs]: "after_sem_wait h c md ret sem = when_ok ret (log_atomic h c md COLDTRACE_LOCK_ACQUIRE sem)"

definition after_sem_trywait :: "host \<Rightarrow> config \<Rightarrow> u64 \<Rightarrow> int \<Rightarrow> u64 \<Rightarrow> ctx \<Rightarrow> ctx res" where
  [handler_defs]: "after_sem_trywait h c md ret sem = when_ok ret (log_atomic h c md COLDTRACE_LOCK_ACQUIRE sem)"

definition after_sem_timedwait :: "host \<Rightarrow> config \<Rightarrow> u64 \<Rightarrow> int \<Rightarrow> u64 \<Rightarrow> ctx \<Rightarrow> ctx res" where
  [handler_defs]: "after_sem_timedwait h c md ret sem = when_ok ret (log_atomic h c md COLDTRACE_LOCK_ACQUIRE sem)"

definition before_sem_post :: "host \<Rightarrow> config \<Rightarrow> u64 \<Rightarrow> u64 \<Rightarrow> ctx \<Rightarrow> ctx res" where
  [handler_defs]: "before_sem_post h c md sem = log_atomic h c md COLDTRACE_LOCK_RELEASE sem"

section \<open>Guards of static variables: subs_cxa.c\<close>

definition after_cxa_guard_acquire :: "host \<Rightarrow> config \<Rightarrow> u64 \<Rightarrow> u64 \<Rightarrow> ctx \<Rightarrow> ctx res" where
  [handler_defs]: "after_cxa_guard_acquire h c md addr = log_atomic h c md COLDTRACE_CXA_GUARD_ACQUIRE addr"

definition before_cxa_guard_release :: "host \<Rightarrow> config \<Rightarrow> u64 \<Rightarrow> u64 \<Rightarrow> ctx \<Rightarrow> ctx res" where
  [handler_defs]: "before_cxa_guard_release h c md addr = log_atomic h c md COLDTRACE_CXA_GUARD_RELEASE addr"

definition before_cxa_guard_abort :: "host \<Rightarrow> config \<Rightarrow> u64 \<Rightarrow> u64 \<Rightarrow> ctx \<Rightarrow> ctx res" where
  [handler_defs]: "before_cxa_guard_abort h c md addr = log_atomic h c md COLDTRACE_CXA_GUARD_RELEASE addr"

section \<open>Annotated locks: subs_annotate_rwlock.c\<close>

definition event_annotate_rwlock_create :: "host \<Rightarrow> config \<Rightarrow> u64 \<Rightarrow> u64 \<Rightarrow> ctx \<Rightarrow> ctx res" where
  [handler_defs]: "event_annotate_rwlock_create h c md lock = log_atomic h c md COLDTRACE_RW_LOCK_CREATE lock"

definition event_annotate_rwlock_destroy :: "host \<Rightarrow> config \<Rightarrow> u64 \<Rightarrow> u64 \<Rightarrow> ctx \<Rightarrow> ctx res" where
  [handler_defs]: "event_annotate_rwlock_destroy h c md lock = log_atomic h c md COLDTRACE_RW_LOCK_DESTROY lock"

definition event_annotate_rwlock_acq :: "host \<Rightarrow> config \<Rightarrow> u64 \<Rightarrow> bool \<Rightarrow> u64 \<Rightarrow> ctx \<Rightarrow> ctx res" where
  [handler_defs]: "event_annotate_rwlock_acq h c md is_w lock = log_atomic h c md (if is_w then COLDTRACE_RW_LOCK_ACQ_EXC else COLDTRACE_RW_LOCK_ACQ_SHR) lock"

definition event_annotate_rwlock_rel :: "host \<Rightarrow> config \<Rightarrow> u64 \<Rightarrow> bool \<Rightarrow> u64 \<Rightarrow> ctx \<Rightarrow> ctx res" where
  [handler_defs]: "event_annotate_rwlock_rel h c md is_w lock = log_atomic h c md (if is_w then COLDTRACE_RW_LOCK_REL_EXC else COLDTRACE_RW_LOCK_REL_SHR) lock"

section \<open>Threads and locks: subs_pthread.c\<close>

text \<open>
  What \<open>pthread_self\<close> and \<open>pthread_attr_getstack\<close> return is an argument.  \<open>coldtrace_main_thread_fini\<close>
  is a weak symbol with an empty body.
\<close>

definition event_thread_start :: "host \<Rightarrow> config \<Rightarrow> u64 \<Rightarrow> u64 \<Rightarrow> u64 \<Rightarrow> u64 \<Rightarrow> ctx \<Rightarrow> ctx res" where
  [handler_defs]: "event_thread_start h c md self stackaddr stacksize x =
     append_or_return h c md COLDTRACE_THREAD_START self
       (\<lambda>e. draw_atomic h (\<lambda>i. set_fields COLDTRACE_THREAD_START self e [i, stackaddr, stacksize]))
       (x\<lparr>x_thread := coldtrace_thread_init h md (x_thread x)\<rparr>)"

definition event_thread_exit :: "host \<Rightarrow> config \<Rightarrow> u64 \<Rightarrow> u64 \<Rightarrow> ctx \<Rightarrow> ctx res" where
  [handler_defs]: "event_thread_exit h c md self = log_atomic h c md COLDTRACE_THREAD_EXIT self"

definition thread_fini :: "host \<Rightarrow> config \<Rightarrow> u64 \<Rightarrow> ctx \<Rightarrow> ctx res" where
  "thread_fini h c md x =
     bindR (coldtrace_thread_fini h c md (x_thread x) (x_os x)) (\<lambda>(th, s). Inr (x\<lparr>x_thread := th, x_os := s\<rparr>))"

definition event_self_fini :: "host \<Rightarrow> config \<Rightarrow> u64 \<Rightarrow> u64 \<Rightarrow> ctx \<Rightarrow> ctx res" where
  [handler_defs]: "event_self_fini h c md self x =
     (if h_self_id h md = h_main_thread h
      then bindR (log_atomic h c md COLDTRACE_THREAD_EXIT self x) (thread_fini h c md)
      else thread_fini h c md x)"

definition before_thread_create :: "host \<Rightarrow> config \<Rightarrow> u64 \<Rightarrow> ctx \<Rightarrow> ctx res" where
  [handler_defs]: "before_thread_create h c md =
     draw_atomic h (\<lambda>i x. Inr (x\<lparr>x_thread := coldtrace_thread_set_create_idx h md i (x_thread x)\<rparr>))"

definition after_thread_create :: "host \<Rightarrow> config \<Rightarrow> u64 \<Rightarrow> u64 \<Rightarrow> ctx \<Rightarrow> ctx res" where
  [handler_defs]: "after_thread_create h c md thread =
     append_or_return h c md COLDTRACE_THREAD_CREATE thread (\<lambda>e x.
       let (i, th) = coldtrace_thread_get_create_idx h md (x_thread x) in
       set_fields COLDTRACE_THREAD_CREATE thread e [i] (x\<lparr>x_thread := th\<rparr>))"

definition after_thread_join :: "host \<Rightarrow> config \<Rightarrow> u64 \<Rightarrow> u64 \<Rightarrow> ctx \<Rightarrow> ctx res" where
  [handler_defs]: "after_thread_join h c md thread = log_atomic h c md COLDTRACE_THREAD_JOIN thread"

definition before_mutex_unlock :: "host \<Rightarrow> config \<Rightarrow> u64 \<Rightarrow> u64 \<Rightarrow> ctx \<Rightarrow> ctx res" where
  [handler_defs]: "before_mutex_unlock h c md mutex = log_atomic h c md COLDTRACE_LOCK_RELEASE mutex"

definition after_mutex_lock :: "host \<Rightarrow> config \<Rightarrow> u64 \<Rightarrow> int \<Rightarrow> u64 \<Rightarrow> ctx \<Rightarrow> ctx res" where
  [handler_defs]: "after_mutex_lock h c md ret mutex = when_ok ret (log_atomic h c md COLDTRACE_LOCK_ACQUIRE mutex)"

definition after_mutex_trylock :: "host \<Rightarrow> config \<Rightarrow> u64 \<Rightarrow> int \<Rightarrow> u64 \<Rightarrow> ctx \<Rightarrow> ctx res" where
  [handler_defs]: "after_mutex_trylock h c md ret mutex = when_ok ret (log_atomic h c md COLDTRACE_LOCK_ACQUIRE mutex)"

definition after_mutex_timedlock :: "host \<Rightarrow> config \<Rightarrow> u64 \<Rightarrow> int \<Rightarrow> u64 \<Rightarrow> ctx \<Rightarrow> ctx res" where
  [handler_defs]: "after_mutex_timedlock h c md ret mutex = when_ok ret (log_atomic h c md COLDTRACE_LOCK_ACQUIRE mutex)"

definition after_mutex_clocklock :: "host \<Rightarrow> config \<Rightarrow> u64 \<Rightarrow> int \<Rightarrow> u64 \<Rightarrow> ctx \<Rightarrow> ctx res" where
  [handler_defs]: "after_mutex_clocklock h c md ret mutex = when_ok ret (log_atomic h c md COLDTRACE_LOCK_ACQUIRE mutex)"

definition before_cond_wait :: "host \<Rightarrow> config \<Rightarrow> u64 \<Rightarrow> u64 \<Rightarrow> ctx \<Rightarrow> ctx res" where
  [handler_defs]: "before_cond_wait h c md mutex = log_atomic h c md COLDTRACE_LOCK_RELEASE mutex"

definition after_cond_wait :: "host \<Rightarrow> config \<Rightarrow> u64 \<Rightarrow> u64 \<Rightarrow> ctx \<Rightarrow> ctx res" where
  [handler_defs]: "after_cond_wait h c md mutex = log_atomic h c md COLDTRACE_LOCK_ACQUIRE mutex"

definition before_cond_timedwait :: "host \<Rightarrow> config \<Rightarrow> u64 \<Rightarrow> u64 \<Rightarrow> ctx \<Rightarrow> ctx res" where
  [handler_defs]: "before_cond_timedwait h c md mutex = log_atomic h c md COLDTRACE_LOCK_RELEASE mutex"

definition after_cond_timedwait :: "host \<Rightarrow> config \<Rightarrow> u64 \<Rightarrow> u64 \<Rightarrow> ctx \<Rightarrow> ctx res" where
  [handler_defs]: "after_cond_timedwait h c md mutex = log_atomic h c md COLDTRACE_LOCK_ACQUIRE mutex"

definition before_cond_clockwait :: "host \<Rightarrow> config \<Rightarrow> u64 \<Rightarrow> u64 \<Rightarrow> ctx \<Rightarrow> ctx res" where
  [handler_defs]: "before_cond_clockwait h c md mutex = log_atomic h c md COLDTRACE_LOCK_RELEASE mutex"

definition after_cond_clockwait :: "host \<Rightarrow> config \<Rightarrow> u64 \<Rightarrow> u64 \<Rightarrow> ctx \<Rightarrow> ctx res" where
  [handler_defs]: "after_cond_clockwait h c md mutex = log_atomic h c md COLDTRACE_LOCK_ACQUIRE mutex"

definition before_rwlock_unlock :: "host \<Rightarrow> config \<Rightarrow> u64 \<Rightarrow> u64 \<Rightarrow> ctx \<Rightarrow> ctx res" where
  [handler_defs]: "before_rwlock_unlock h c md lock = log_atomic h c md COLDTRACE_RW_LOCK_REL lock"

definition after_rwlock_rdlock :: "host \<Rightarrow> config \<Rightarrow> u64 \<Rightarrow> int \<Rightarrow> u64 \<Rightarrow> ctx \<Rightarrow> ctx res" where
  [handler_defs]: "after_rwlock_rdlock h c md ret lock = when_ok ret (log_atomic h c md COLDTRACE_RW_LOCK_ACQ_SHR lock)"

definition after_rwlock_tryrdlock :: "host \<Rightarrow> config \<Rightarrow> u64 \<Rightarrow> int \<Rightarrow> u64 \<Rightarrow> ctx \<Rightarrow> ctx res" where
  [handler_defs]: "after_rwlock_tryrdlock h c md ret lock = when_ok ret (log_atomic h c md COLDTRACE_RW_LOCK_ACQ_SHR lock)"

definition after_rwlock_timedrdlock :: "host \<Rightarrow> config \<Rightarrow> u64 \<Rightarrow> int \<Rightarrow> u64 \<Rightarrow> ctx \<Rightarrow> ctx res" where
  [handler_defs]: "after_rwlock_timedrdlock h c md ret lock = when_ok ret (log_atomic h c md COLDTRACE_RW_LOCK_ACQ_SHR lock)"

definition after_rwlock_wrlock :: "host \<Rightarrow> config \<Rightarrow> u64 \<Rightarrow> int \<Rightarrow> u64 \<Rightarrow> ctx \<Rightarrow> ctx res" where
  [handler_defs]: "after_rwlock_wrlock h c md ret lock = when_ok ret (log_atomic h c md COLDTRACE_RW_LOCK_ACQ_EXC lock)"

definition after_rwlock_trywrlock :: "host \<Rightarrow> config \<Rightarrow> u64 \<Rightarrow> int \<Rightarrow> u64 \<Rightarrow> ctx \<Rightarrow> ctx res" where
  [handler_defs]: "after_rwlock_trywrlock h c md ret lock = when_ok ret (log_atomic h c md COLDTRACE_RW_LOCK_ACQ_EXC lock)"

definition after_rwlock_timedwrlock :: "host \<Rightarrow> config \<Rightarrow> u64 \<Rightarrow> int \<Rightarrow> u64 \<Rightarrow> ctx \<Rightarrow> ctx res" where
  [handler_defs]: "after_rwlock_timedwrlock h c md ret lock = when_ok ret (log_atomic h c md COLDTRACE_RW_LOCK_ACQ_EXC lock)"

definition before_spin_unlock :: "host \<Rightarrow> config \<Rightarrow> u64 \<Rightarrow> u64 \<Rightarrow> ctx \<Rightarrow> ctx res" where
  [handler_defs]: "before_spin_unlock h c md lock = log_atomic h c md COLDTRACE_LOCK_RELEASE lock"

definition after_spin_lock :: "host \<Rightarrow> config \<Rightarrow> u64 \<Rightarrow> int \<Rightarrow> u64 \<Rightarrow> ctx \<Rightarrow> ctx res" where
  [handler_defs]: "after_spin_lock h c md ret lock = when_ok ret (log_atomic h c md COLDTRACE_LOCK_ACQUIRE lock)"

definition after_spin_trylock :: "host \<Rightarrow> config \<Rightarrow> u64 \<Rightarrow> int \<Rightarrow> u64 \<Rightarrow> ctx \<Rightarrow> ctx res" where
  [handler_defs]: "after_spin_trylock h c md ret lock = when_ok ret (log_atomic h c md COLDTRACE_LOCK_ACQUIRE lock)"

section \<open>Instrumented accesses: subs_tsan.c\<close>

definition event_stacktrace_enter :: "host \<Rightarrow> config \<Rightarrow> u64 \<Rightarrow> u64 \<Rightarrow> ctx \<Rightarrow> ctx res" where
  [handler_defs]: "event_stacktrace_enter h c md pc x =
     bindR (coldtrace_thread_stack_push h md pc (x_thread x) (x_os x)) (\<lambda>(th, s).
       Inr (x\<lparr>x_thread := th, x_os := s\<rparr>))"

definition event_stacktrace_exit :: "host \<Rightarrow> config \<Rightarrow> u64 \<Rightarrow> ctx \<Rightarrow> ctx res" where
  [handler_defs]: "event_stacktrace_exit h c md x =
     Inr (x\<lparr>x_thread := coldtrace_thread_stack_pop h md (x_thread x)\<rparr>)"

text \<open>The word at the address of a read is an argument; the code loads it when the size is 8.\<close>

definition read_type :: "u64 \<Rightarrow> u64 \<Rightarrow> u8" where
  "read_type sz at_addr = (if sz = 8 \<and> at_addr = 0 then COLDTRACE_READ OR ZERO_FLAG else COLDTRACE_READ)"

definition event_ma_read :: "host \<Rightarrow> config \<Rightarrow> u64 \<Rightarrow> u64 \<Rightarrow> u64 \<Rightarrow> u64 \<Rightarrow> u64 \<Rightarrow> ctx \<Rightarrow> ctx res" where
  [handler_defs]: "event_ma_read h c md addr sz pc at_addr = log_access h c md (read_type sz at_addr) addr sz pc"

definition event_ma_write :: "host \<Rightarrow> config \<Rightarrow> u64 \<Rightarrow> u64 \<Rightarrow> u64 \<Rightarrow> u64 \<Rightarrow> ctx \<Rightarrow> ctx res" where
  [handler_defs]: "event_ma_write h c md addr sz pc = log_access h c md COLDTRACE_WRITE addr sz pc"

definition get_area :: "u64 \<Rightarrow> nat" where
  "get_area addr = unat (drop_bit AREA_SHIFT addr mod AREAS)"

definition FETCH_STACK_ACQ :: "host \<Rightarrow> u64 \<Rightarrow> ctx \<Rightarrow> ctx res" where
  "FETCH_STACK_ACQ h addr x =
     (let a = get_area addr; g = x_globals x in
      case h_acquire h (a_lock (g_areas g ! a)) of
        None \<Rightarrow> Inl No_Progress
      | Some l \<Rightarrow>
          let (i, g1) = coldtrace_next_atomic_idx h g
          in Inr (x\<lparr>x_globals := g1\<lparr>g_areas := (g_areas g1)[a := \<lparr>a_lock = l, a_idx = i\<rparr>]\<rparr>\<rparr>))"

definition release_area :: "host \<Rightarrow> u64 \<Rightarrow> ctx \<Rightarrow> ctx" where
  "release_area h addr x =
     (let a = get_area addr; g = x_globals x; ar = g_areas g ! a in
      x\<lparr>x_globals := g\<lparr>g_areas := (g_areas g)[a := ar\<lparr>a_lock := h_release h (a_lock ar)\<rparr>]\<rparr>\<rparr>)"

definition area_idx :: "u64 \<Rightarrow> ctx \<Rightarrow> u64" where
  "area_idx addr x = a_idx (g_areas (x_globals x) ! get_area addr)"

definition log_atomic_access ::
  "host \<Rightarrow> config \<Rightarrow> u64 \<Rightarrow> u8 \<Rightarrow> u64 \<Rightarrow> u64 \<Rightarrow> u64 \<Rightarrow> (ctx \<Rightarrow> ctx res) \<Rightarrow> ctx \<Rightarrow> ctx res"
where
  "log_atomic_access h c md kind addr sz idx k =
     append_or_return h c md kind addr (\<lambda>e x. bindR (set_fields kind addr e [sz, idx] x) k)"

definition REL_LOG_R :: "host \<Rightarrow> config \<Rightarrow> u64 \<Rightarrow> u64 \<Rightarrow> u64 \<Rightarrow> ctx \<Rightarrow> ctx res" where
  "REL_LOG_R h c md addr sz x =
     (let idx_a = area_idx addr x in
      log_atomic_access h c md COLDTRACE_ATOMIC_READ addr sz idx_a Inr (release_area h addr x))"

definition REL_LOG_W :: "host \<Rightarrow> config \<Rightarrow> u64 \<Rightarrow> u64 \<Rightarrow> u64 \<Rightarrow> ctx \<Rightarrow> ctx res" where
  "REL_LOG_W h c md addr sz x =
     (let idx_a = area_idx addr x in
      log_atomic_access h c md COLDTRACE_ATOMIC_WRITE addr sz idx_a Inr (release_area h addr x))"

definition REL_LOG_RW :: "host \<Rightarrow> config \<Rightarrow> u64 \<Rightarrow> u64 \<Rightarrow> u64 \<Rightarrow> ctx \<Rightarrow> ctx res" where
  "REL_LOG_RW h c md addr sz x =
     (let idx_a = area_idx addr x in
      draw_atomic h (\<lambda>idx_b x1.
        log_atomic_access h c md COLDTRACE_ATOMIC_READ addr sz idx_a
          (log_atomic_access h c md COLDTRACE_ATOMIC_WRITE addr sz idx_b Inr) (release_area h addr x1)) x)"

definition REL_LOG_RW_COND :: "host \<Rightarrow> config \<Rightarrow> u64 \<Rightarrow> u64 \<Rightarrow> u64 \<Rightarrow> bool \<Rightarrow> ctx \<Rightarrow> ctx res" where
  "REL_LOG_RW_COND h c md addr sz success x =
     (let (idx_b, g) = (if success then coldtrace_next_atomic_idx h (x_globals x) else (0, x_globals x));
          x1 = x\<lparr>x_globals := g\<rparr>;
          idx_a = area_idx addr x1
      in log_atomic_access h c md COLDTRACE_ATOMIC_READ addr sz idx_a
           (\<lambda>x2. if success then log_atomic_access h c md COLDTRACE_ATOMIC_WRITE addr sz idx_b Inr x2 else Inr x2)
           (release_area h addr x1))"

definition REL_LOG_FENCE :: "host \<Rightarrow> config \<Rightarrow> u64 \<Rightarrow> u64 \<Rightarrow> ctx \<Rightarrow> ctx res" where
  "REL_LOG_FENCE h c md addr x =
     (let idx_a = area_idx addr x in
      append_or_return h c md COLDTRACE_FENCE addr (\<lambda>e. set_fields COLDTRACE_FENCE addr e [idx_a]) (release_area h addr x))"

definition before_ma_aread :: "host \<Rightarrow> config \<Rightarrow> u64 \<Rightarrow> u64 \<Rightarrow> ctx \<Rightarrow> ctx res" where
  [handler_defs]: "before_ma_aread h c md addr = FETCH_STACK_ACQ h addr"

definition after_ma_aread :: "host \<Rightarrow> config \<Rightarrow> u64 \<Rightarrow> u64 \<Rightarrow> u64 \<Rightarrow> ctx \<Rightarrow> ctx res" where
  [handler_defs]: "after_ma_aread h c md addr sz = REL_LOG_R h c md addr sz"

definition before_ma_awrite :: "host \<Rightarrow> config \<Rightarrow> u64 \<Rightarrow> u64 \<Rightarrow> ctx \<Rightarrow> ctx res" where
  [handler_defs]: "before_ma_awrite h c md addr = FETCH_STACK_ACQ h addr"

definition after_ma_awrite :: "host \<Rightarrow> config \<Rightarrow> u64 \<Rightarrow> u64 \<Rightarrow> u64 \<Rightarrow> ctx \<Rightarrow> ctx res" where
  [handler_defs]: "after_ma_awrite h c md addr sz = REL_LOG_W h c md addr sz"

definition before_ma_rmw :: "host \<Rightarrow> config \<Rightarrow> u64 \<Rightarrow> u64 \<Rightarrow> ctx \<Rightarrow> ctx res" where
  [handler_defs]: "before_ma_rmw h c md addr = FETCH_STACK_ACQ h addr"

definition after_ma_rmw :: "host \<Rightarrow> config \<Rightarrow> u64 \<Rightarrow> u64 \<Rightarrow> u64 \<Rightarrow> ctx \<Rightarrow> ctx res" where
  [handler_defs]: "after_ma_rmw h c md addr sz = REL_LOG_RW h c md addr sz"

definition before_ma_xchg :: "host \<Rightarrow> config \<Rightarrow> u64 \<Rightarrow> u64 \<Rightarrow> ctx \<Rightarrow> ctx res" where
  [handler_defs]: "before_ma_xchg h c md addr = FETCH_STACK_ACQ h addr"

definition after_ma_xchg :: "host \<Rightarrow> config \<Rightarrow> u64 \<Rightarrow> u64 \<Rightarrow> u64 \<Rightarrow> ctx \<Rightarrow> ctx res" where
  [handler_defs]: "after_ma_xchg h c md addr sz = REL_LOG_RW h c md addr sz"

definition before_ma_cmpxchg :: "host \<Rightarrow> config \<Rightarrow> u64 \<Rightarrow> u64 \<Rightarrow> ctx \<Rightarrow> ctx res" where
  [handler_defs]: "before_ma_cmpxchg h c md addr = FETCH_STACK_ACQ h addr"

definition after_ma_cmpxchg :: "host \<Rightarrow> config \<Rightarrow> u64 \<Rightarrow> u64 \<Rightarrow> u64 \<Rightarrow> bool \<Rightarrow> ctx \<Rightarrow> ctx res" where
  [handler_defs]: "after_ma_cmpxchg h c md addr sz ok = REL_LOG_RW_COND h c md addr sz ok"

definition before_ma_fence :: "host \<Rightarrow> config \<Rightarrow> u64 \<Rightarrow> u64 \<Rightarrow> ctx \<Rightarrow> ctx res" where
  [handler_defs]: "before_ma_fence h c md pc = FETCH_STACK_ACQ h pc"

definition after_ma_fence :: "host \<Rightarrow> config \<Rightarrow> u64 \<Rightarrow> u64 \<Rightarrow> ctx \<Rightarrow> ctx res" where
  [handler_defs]: "after_ma_fence h c md pc = REL_LOG_FENCE h c md pc"

definition event_ma_read_range :: "host \<Rightarrow> config \<Rightarrow> u64 \<Rightarrow> u64 \<Rightarrow> u64 \<Rightarrow> u64 \<Rightarrow> u64 \<Rightarrow> ctx \<Rightarrow> ctx res" where
  [handler_defs]: "event_ma_read_range h c md addr sz pc at_addr = log_access h c md (read_type sz at_addr) addr sz pc"

definition event_ma_write_range :: "host \<Rightarrow> config \<Rightarrow> u64 \<Rightarrow> u64 \<Rightarrow> u64 \<Rightarrow> u64 \<Rightarrow> ctx \<Rightarrow> ctx res" where
  [handler_defs]: "event_ma_write_range h c md addr sz pc = log_access h c md COLDTRACE_WRITE addr sz pc"

section \<open>Markers and waiting: subs_marker.c, subs_wait.c\<close>

definition event_test_marker :: "host \<Rightarrow> config \<Rightarrow> u64 \<Rightarrow> ctx \<Rightarrow> ctx res" where
  [handler_defs]: "event_test_marker h c md =
     append_or_return h c md COLDTRACE_TEST_MARKER 0 (\<lambda>e. set_fields COLDTRACE_TEST_MARKER 0 e [])"

text \<open>The flag \<open>_test_wait\<close>, and the answer to whether a finishing thread waits.\<close>

definition coldtrace_enable_test_wait :: "bool \<Rightarrow> bool" where
  "coldtrace_enable_test_wait test_wait = True"

definition event_self_wait :: "bool \<Rightarrow> bool \<Rightarrow> bool" where
  "event_self_wait test_wait ev_wait = (if test_wait then True else ev_wait)"

section \<open>Dispatch\<close>

text \<open>
  The subscribers of a thread, with the part they play: the start of the thread, the acquisition and
  the release of the lock area of an address around an atomic access, the end of the thread, the entry
  and the exit of a function, and all others.
\<close>

datatype phase = Plain | Start | Acquire u64 | Release u64 | Finish | Frame

inductive subscriber :: "host \<Rightarrow> config \<Rightarrow> u64 \<Rightarrow> phase \<Rightarrow> (ctx \<Rightarrow> ctx res) \<Rightarrow> bool" for h c md where
  "subscriber h c md Plain (after_malloc h c md sz pc ret)"
| "subscriber h c md Plain (after_calloc h c md number sz pc ret)"
| "subscriber h c md Plain (before_realloc h c md ptr pc)"
| "subscriber h c md Plain (after_realloc h c md sz pc ret)"
| "subscriber h c md Plain (before_free h c md ptr pc)"
| "subscriber h c md Plain (after_posix_memalign h c md ret ptr sz pc)"
| "subscriber h c md Plain (after_aligned_alloc h c md sz pc ret)"
| "subscriber h c md Plain (after_mmap h c md len pc ret)"
| "subscriber h c md Plain (before_munmap h c md addr len pc)"
| "subscriber h c md Plain (before_memcpy h c md src num pc)"
| "subscriber h c md Plain (after_memcpy h c md dest num pc)"
| "subscriber h c md Plain (before_memmove h c md src count pc)"
| "subscriber h c md Plain (after_memmove h c md dest count pc)"
| "subscriber h c md Plain (after_memset h c md ptr num pc)"
| "subscriber h c md Plain (after_sem_wait h c md ret sem)"
| "subscriber h c md Plain (after_sem_trywait h c md ret sem)"
| "subscriber h c md Plain (after_sem_timedwait h c md ret sem)"
| "subscriber h c md Plain (before_sem_post h c md sem)"
| "subscriber h c md Plain (after_cxa_guard_acquire h c md addr)"
| "subscriber h c md Plain (before_cxa_guard_release h c md addr)"
| "subscriber h c md Plain (before_cxa_guard_abort h c md addr)"
| "subscriber h c md Plain (event_annotate_rwlock_create h c md lock)"
| "subscriber h c md Plain (event_annotate_rwlock_destroy h c md lock)"
| "subscriber h c md Plain (event_annotate_rwlock_acq h c md is_w lock)"
| "subscriber h c md Plain (event_annotate_rwlock_rel h c md is_w lock)"
| "subscriber h c md Start (event_thread_start h c md self stackaddr stacksize)"
| "subscriber h c md Plain (event_thread_exit h c md self)"
| "subscriber h c md Finish (event_self_fini h c md self)"
| "subscriber h c md Plain (before_thread_create h c md)"
| "subscriber h c md Plain (after_thread_create h c md thread)"
| "subscriber h c md Plain (after_thread_join h c md thread)"
| "subscriber h c md Plain (before_mutex_unlock h c md mutex)"
| "subscriber h c md Plain (after_mutex_lock h c md ret mutex)"
| "subscriber h c md Plain (after_mutex_trylock h c md ret mutex)"
| "subscriber h c md Plain (after_mutex_timedlock h c md ret mutex)"
| "subscriber h c md Plain (after_mutex_clocklock h c md ret mutex)"
| "subscriber h c md Plain (before_cond_wait h c md mutex)"
| "subscriber h c md Plain (after_cond_wait h c md mutex)"
| "subscriber h c md Plain (before_cond_timedwait h c md mutex)"
| "subscriber h c md Plain (after_cond_timedwait h c md mutex)"
| "subscriber h c md Plain (before_cond_clockwait h c md mutex)"
| "subscriber h c md Plain (after_cond_clockwait h c md mutex)"
| "subscriber h c md Plain (before_rwlock_unlock h c md lock)"
| "subscriber h c md Plain (after_rwlock_rdlock h c md ret lock)"
| "subscriber h c md Plain (after_rwlock_tryrdlock h c md ret lock)"
| "subscriber h c md Plain (after_rwlock_timedrdlock h c md ret lock)"
| "subscriber h c md Plain (after_rwlock_wrlock h c md ret lock)"
| "subscriber h c md Plain (after_rwlock_trywrlock h c md ret lock)"
| "subscriber h c md Plain (after_rwlock_timedwrlock h c md ret lock)"
| "subscriber h c md Plain (before_spin_unlock h c md lock)"
| "subscriber h c md Plain (after_spin_lock h c md ret lock)"
| "subscriber h c md Plain (after_spin_trylock h c md ret lock)"
| "subscriber h c md Frame (event_stacktrace_enter h c md pc)"
| "subscriber h c md Frame (event_stacktrace_exit h c md)"
| "subscriber h c md Plain (event_ma_read h c md addr sz pc at_addr)"
| "subscriber h c md Plain (event_ma_write h c md addr sz pc)"
| "subscriber h c md (Acquire addr) (before_ma_aread h c md addr)"
| "subscriber h c md (Release addr) (after_ma_aread h c md addr sz)"
| "subscriber h c md (Acquire addr) (before_ma_awrite h c md addr)"
| "subscriber h c md (Release addr) (after_ma_awrite h c md addr sz)"
| "subscriber h c md (Acquire addr) (before_ma_rmw h c md addr)"
| "subscriber h c md (Release addr) (after_ma_rmw h c md addr sz)"
| "subscriber h c md (Acquire addr) (before_ma_xchg h c md addr)"
| "subscriber h c md (Release addr) (after_ma_xchg h c md addr sz)"
| "subscriber h c md (Acquire addr) (before_ma_cmpxchg h c md addr)"
| "subscriber h c md (Release addr) (after_ma_cmpxchg h c md addr sz ok)"
| "subscriber h c md (Acquire pc) (before_ma_fence h c md pc)"
| "subscriber h c md (Release pc) (after_ma_fence h c md pc)"
| "subscriber h c md Plain (event_ma_read_range h c md addr sz pc at_addr)"
| "subscriber h c md Plain (event_ma_write_range h c md addr sz pc)"
| "subscriber h c md Plain (event_test_marker h c md)"

end
