(* ===== verification/Thread_Correct.thy ===== *)
theory Thread_Correct
  imports Thread
begin

text \<open>
  Correctness of the per-thread state: the invariant of the shadow stack, its refinement to a plain
  list, the words of the sizes that an entry takes, and what \<open>coldtrace_thread_append\<close> writes where.
\<close>

section \<open>The shadow stack\<close>

definition stack_ok :: "coldtrace_thread \<Rightarrow> bool" where
  "stack_ok th \<longleftrightarrow> t_stack_bottom th \<le> t_stack_size th \<and> t_stack_size th \<le> t_stack_capacity th
     \<and> length (t_stack th) = unat (t_stack_capacity th)"

lemma length_call_stack: "stack_ok th \<Longrightarrow> length (call_stack th) = unat (t_stack_size th)"
  by (simp add: stack_ok_def call_stack_def word_le_nat_alt)

lemma call_stack_update [simp]:
  "call_stack (th\<lparr>t_writer := w\<rparr>) = call_stack th" "call_stack (th\<lparr>t_failed := f\<rparr>) = call_stack th"
  "call_stack (th\<lparr>t_stack_bottom := b\<rparr>) = call_stack th" "call_stack (th\<lparr>t_initd := i\<rparr>) = call_stack th"
  "call_stack (th\<lparr>t_created_thread_idx := x\<rparr>) = call_stack th"
  by (simp_all add: call_stack_def)

lemma get_thread_simps [simp]:
  "t_failed (get_coldtrace_thread h md th) = t_failed th"
  "t_stack_bottom (get_coldtrace_thread h md th) = t_stack_bottom th"
  "t_stack (get_coldtrace_thread h md th) = t_stack th"
  "t_stack_size (get_coldtrace_thread h md th) = t_stack_size th"
  "t_stack_capacity (get_coldtrace_thread h md th) = t_stack_capacity th"
  "t_created_thread_idx (get_coldtrace_thread h md th) = t_created_thread_idx th"
  "t_initd (get_coldtrace_thread h md th)"
  "call_stack (get_coldtrace_thread h md th) = call_stack th"
  "stack_ok (get_coldtrace_thread h md th) = stack_ok th"
  "get_coldtrace_thread h md (get_coldtrace_thread h md th) = get_coldtrace_thread h md th"
  by (simp_all add: get_coldtrace_thread_def stack_ok_def)

lemma length_junk_words [simp]: "length (junk_words env t n) = n"
  by (simp add: junk_words_def)

text \<open>A stack of at most \<open>2\<^sup>3\<^sup>1\<close> frames can grow without wrapping around.\<close>

definition growable :: "coldtrace_thread \<Rightarrow> bool" where
  "growable th \<longleftrightarrow> unat (t_stack_size th) < 2 ^ 31"

lemma new_capacity:
  assumes "unat (cap :: u32) < 2 ^ 31"
  defines "c' \<equiv> (if cap = 0 then INITIAL_STACK_CAPACITY else cap * 2)"
  shows "unat c' = (if cap = 0 then 16 else 2 * unat cap)" "cap < c'" "unat (ucast c' * 8 :: u64) div 8 = unat c'"
proof -
  show u: "unat c' = (if cap = 0 then 16 else 2 * unat cap)"
    using assms(1) by (simp add: c'_def INITIAL_STACK_CAPACITY_def unat_word_ariths)
  show "cap < c'"
    using u by (auto simp: word_less_nat_alt unat_gt_0 split: if_splits)
  have "unat c' * 8 < 2 ^ 64" using unat_bound [of c'] by simp
  then have "unat (ucast c' * 8 :: u64) = unat c' * 8"
    by (simp add: unat_word_ariths unsigned_ucast_eq take_bit_nat_eq_self)
  then show "unat (ucast c' * 8 :: u64) div 8 = unat c'" by simp
qed

lemma grow_stack_cases:
  assumes "stack_ok th" "growable th" "t_stack_size th = t_stack_capacity th" "grow_stack h th s = (ok, th', s')"
  obtains (failed) "\<not> ok" "th' = th\<lparr>t_failed := True\<rparr>" "fs s' = fs s"
  | (grown) stk cap where "ok" "th' = th\<lparr>t_stack := stk, t_stack_capacity := cap\<rparr>" "fs s' = fs s"
      "t_stack_size th < cap" "length stk = unat cap" "take (unat (t_stack_size th)) stk = call_stack th"
proof -
  let ?c = "if t_stack_capacity th = 0 then INITIAL_STACK_CAPACITY else t_stack_capacity th * 2"
  have cap: "unat (t_stack_capacity th) < 2 ^ 31" "length (t_stack th) = unat (t_stack_capacity th)"
    using assms by (simp_all add: growable_def stack_ok_def)
  note c = new_capacity [OF cap(1)]
  have le: "unat (t_stack_capacity th) \<le> unat ?c" using c(2) by (simp add: word_less_nat_alt)
  show thesis
  proof (cases "fst (os_realloc_words (h_env h) (t_stack th) (ucast ?c * 8) s)")
    case None
    then show thesis
      using assms(4) by (intro failed) (auto simp: grow_stack_def os_realloc_words_def tick_def Let_def split: if_splits)
  next
    case (Some stk)
    then have stk: "stk = t_stack th @ junk_words (h_env h) (clock s) (unat ?c - length (t_stack th))"
      using c(3) le cap(2) by (auto simp: os_realloc_words_def split: if_splits)
    moreover have "os_realloc_words (h_env h) (t_stack th) (ucast ?c * 8) s = (Some stk, tick s)"
      using Some by (auto simp: os_realloc_words_def split: if_splits)
    ultimately show thesis
      using assms(3,4) c(2) cap(2) le
      by (intro grown [of ?c stk]) (auto simp: grow_stack_def Let_def call_stack_def tick_def)
  qed
qed

lemma store_call_stack:
  fixes sz cap :: u32
  assumes "sz < cap" "length stk = unat cap" "take (unat sz) stk = cs"
  shows "store (unat sz) [pc] stk = Inr (splice (unat sz) [pc] stk)"
    and "length (splice (unat sz) [pc] stk) = unat cap" "sz + 1 \<le> cap" "sz \<le> sz + 1"
    and "take (unat (sz + 1)) (splice (unat sz) [pc] stk) = cs @ [pc]"
proof -
  have lt: "unat sz < unat cap" using assms(1) by (simp add: word_less_nat_alt)
  then have s: "unat (sz + 1) = unat sz + 1" using unat_add_small [of sz 1] unat_bound [of cap] by simp
  show "store (unat sz) [pc] stk = Inr (splice (unat sz) [pc] stk)"
    "length (splice (unat sz) [pc] stk) = unat cap" using lt assms(2) by simp_all
  show "sz + 1 \<le> cap" "sz \<le> sz + 1" using s lt by (simp_all add: word_le_nat_alt)
  show "take (unat (sz + 1)) (splice (unat sz) [pc] stk) = cs @ [pc]"
    using lt assms(2) s by (simp add: splice_def flip: assms(3))
qed

lemma stack_push_cases:
  assumes "stack_ok th" "growable th" "coldtrace_thread_stack_push h md pc th s = Inr (th', s')"
  obtains (failed) "t_failed th'" "stack_ok th'" "call_stack th' = call_stack th" "fs s' = fs s"
      "t_writer th' = t_writer (get_coldtrace_thread h md th)" "t_stack_bottom th' = t_stack_bottom th" "t_initd th'"
  | (pushed) "\<not> t_failed th" "\<not> t_failed th'" "stack_ok th'" "call_stack th' = call_stack th @ [pc]" "fs s' = fs s"
      "t_writer th' = t_writer (get_coldtrace_thread h md th)" "t_stack_bottom th' = t_stack_bottom th" "t_initd th'"
proof -
  let ?t = "get_coldtrace_thread h md th"
  have g: "stack_ok ?t" "growable ?t" using assms(1,2) by (simp_all add: growable_def)
  consider (a) "t_failed th" | (b) "\<not> t_failed th" "t_stack_size th = t_stack_capacity th"
    | (c) "\<not> t_failed th" "t_stack_size th \<noteq> t_stack_capacity th" by blast
  then show thesis
  proof cases
    case a
    then show thesis using assms(1,3) by (intro failed) (auto simp: coldtrace_thread_stack_push_def)
  next
    case b
    obtain ok t1 s1 where gr: "grow_stack h ?t s = (ok, t1, s1)" by (metis surj_pair)
    have run: "(if \<not> ok then Inr (t1, s1) else bindR (store (unat (t_stack_size t1)) [pc] (t_stack t1)) (\<lambda>stk.
            Inr (t1\<lparr>t_stack := stk, t_stack_size := t_stack_size t1 + 1\<rparr>, s1))) = Inr (th', s')"
      using assms(3) b gr by (simp add: coldtrace_thread_stack_push_def)
    show thesis
    proof (rule grow_stack_cases [OF g _ gr])
      show "t_stack_size ?t = t_stack_capacity ?t" using b by simp
    next
      assume "\<not> ok" "t1 = ?t\<lparr>t_failed := True\<rparr>" "fs s1 = fs s"
      then show thesis using run assms(1) g(1) by (intro failed) (auto simp: stack_ok_def)
    next
      fix stk cap assume gs: "ok" "t1 = ?t\<lparr>t_stack := stk, t_stack_capacity := cap\<rparr>" "fs s1 = fs s"
        "t_stack_size ?t < cap" "length stk = unat cap" "take (unat (t_stack_size ?t)) stk = call_stack ?t"
      from store_call_stack [OF gs(4-6)] run gs b assms(1) show thesis
        by (intro pushed) (auto simp: stack_ok_def call_stack_def)
    qed
  next
    case c
    then have lt: "t_stack_size th < t_stack_capacity th" "length (t_stack th) = unat (t_stack_capacity th)"
      using assms(1) by (auto simp: stack_ok_def)
    from store_call_stack [OF lt refl] assms(1,3) c show thesis
      by (intro pushed) (auto simp: coldtrace_thread_stack_push_def stack_ok_def call_stack_def)
  qed
qed

lemma stack_pop_ok:
  fixes h md
  assumes "stack_ok th" "\<not> t_failed th"
  defines "th' \<equiv> coldtrace_thread_stack_pop h md th"
  shows "stack_ok th'" "call_stack th' = butlast (call_stack th)" "\<not> t_failed th'" "t_initd th'"
    and "t_writer th' = t_writer (get_coldtrace_thread h md th)" "t_stack_bottom th' \<le> t_stack_bottom th"
proof -
  have "stack_ok th' \<and> call_stack th' = butlast (call_stack th) \<and> t_stack_bottom th' \<le> t_stack_bottom th"
  proof (cases "t_stack_size th = 0")
    case True
    then show ?thesis using assms(1,2) by (simp add: th'_def coldtrace_thread_stack_pop_def call_stack_def)
  next
    case False
    then have u: "unat (t_stack_size th - 1) = unat (t_stack_size th) - 1" by (simp add: unat_minus_one)
    have le: "unat (t_stack_size th) \<le> length (t_stack th)"
      using assms(1) by (simp add: stack_ok_def word_le_nat_alt)
    show ?thesis
      using False assms(1,2) u le
      by (auto simp: th'_def coldtrace_thread_stack_pop_def Let_def stack_ok_def call_stack_def word_neq_0_conv
            word_le_nat_alt word_less_nat_alt butlast_take)
  qed
  then show "stack_ok th'" "call_stack th' = butlast (call_stack th)" "t_stack_bottom th' \<le> t_stack_bottom th" by auto
  show "\<not> t_failed th'" "t_initd th'" "t_writer th' = t_writer (get_coldtrace_thread h md th)"
    using assms(2) by (simp_all add: th'_def coldtrace_thread_stack_pop_def Let_def)
qed

lemma push_returns:
  assumes "stack_ok th" "growable th"
  shows "\<exists>r. coldtrace_thread_stack_push h md pc th s = Inr r"
proof -
  let ?t = "get_coldtrace_thread h md th"
  have g: "stack_ok ?t" "growable ?t" using assms by (simp_all add: growable_def)
  show ?thesis
  proof (cases "t_stack_size ?t = t_stack_capacity ?t")
    case True
    obtain ok t1 s1 where gr: "grow_stack h ?t s = (ok, t1, s1)" by (metis surj_pair)
    from g True gr show ?thesis
    proof (cases rule: grow_stack_cases)
      case failed
      then show ?thesis using gr True by (auto simp: coldtrace_thread_stack_push_def Let_def)
    next
      case (grown stk cap)
      then show ?thesis
        using gr True store_call_stack(1) [OF grown(4-6), of pc]
        by (cases "t_failed ?t") (simp_all add: coldtrace_thread_stack_push_def Let_def)
    qed
  next
    case False
    then have "t_stack_size ?t < t_stack_capacity ?t" using g(1) order_le_neq_trans unfolding stack_ok_def by blast
    then have "unat (t_stack_size ?t) < length (t_stack ?t)" using g(1) by (simp add: stack_ok_def word_less_nat_alt)
    then show ?thesis using False by (auto simp: coldtrace_thread_stack_push_def Let_def)
  qed
qed

text \<open>
  The contract of a call stack: entering a function puts a frame on top, leaving one takes it off.  A
  state machine that keeps the contract step by step keeps it over every sequence of calls.
\<close>

datatype 'a stack_op = Enter 'a | Leave

fun apply_op :: "'a stack_op \<Rightarrow> 'a list \<Rightarrow> 'a list" where
  "apply_op (Enter a) xs = xs @ [a]"
| "apply_op Leave xs = butlast xs"

inductive run_ops :: "('op \<Rightarrow> 's \<Rightarrow> 's \<Rightarrow> bool) \<Rightarrow> 'op list \<Rightarrow> 's \<Rightarrow> 's \<Rightarrow> bool" for step where
  run_Nil: "run_ops step [] s s"
| run_Cons: "step a s t \<Longrightarrow> run_ops step as t u \<Longrightarrow> run_ops step (a # as) s u"

locale stack_machine =
  fixes inv :: "'s \<Rightarrow> bool"
    and abs :: "'s \<Rightarrow> 'a list"
    and step :: "'a stack_op \<Rightarrow> 's \<Rightarrow> 's \<Rightarrow> bool"
  assumes op_inv: "inv s \<Longrightarrow> step a s t \<Longrightarrow> inv t"
    and op_abs: "inv s \<Longrightarrow> step a s t \<Longrightarrow> abs t = apply_op a (abs s)"
begin

lemma run_refines: "run_ops step as s t \<Longrightarrow> inv s \<Longrightarrow> inv t \<and> abs t = fold apply_op as (abs s)"
  by (induction rule: run_ops.induct) (auto simp: op_inv op_abs)

end

fun stack_op_step :: "host \<Rightarrow> u64 \<Rightarrow> u64 stack_op \<Rightarrow> coldtrace_thread \<times> os \<Rightarrow> coldtrace_thread \<times> os \<Rightarrow> bool" where
  "stack_op_step h md (Enter pc) (th, s) (th', s') \<longleftrightarrow>
     growable th \<and> coldtrace_thread_stack_push h md pc th s = Inr (th', s') \<and> \<not> t_failed th'"
| "stack_op_step h md Leave (th, s) (th', s') \<longleftrightarrow>
     \<not> t_failed th \<and> th' = coldtrace_thread_stack_pop h md th \<and> s' = s"

interpretation shadow: stack_machine "\<lambda>(th, s). stack_ok th" "\<lambda>(th, s). call_stack th" "stack_op_step h md" for h md
proof unfold_locales
  fix x y :: "coldtrace_thread \<times> os" and a
  assume a: "case x of (th, s) \<Rightarrow> stack_ok th" "stack_op_step h md a x y"
  obtain th s th' s' where xy: "x = (th, s)" "y = (th', s')" by (metis surj_pair)
  have "stack_ok th' \<and> call_stack th' = apply_op a (call_stack th)"
  proof (cases a)
    case (Enter pc)
    then have "stack_ok th" "growable th" "coldtrace_thread_stack_push h md pc th s = Inr (th', s')" "\<not> t_failed th'"
      using a xy by auto
    then show ?thesis using Enter by (cases rule: stack_push_cases) auto
  next
    case Leave
    then show ?thesis using a xy stack_pop_ok [of th h md] by auto
  qed
  then show "case y of (th, s) \<Rightarrow> stack_ok th" "(case y of (th, s) \<Rightarrow> call_stack th) = apply_op a (case x of (th, s) \<Rightarrow> call_stack th)"
    using xy by auto
qed

section \<open>The entry of a type\<close>

text \<open>
  The structure a type stands for, from the values of its fields in the order of their declaration
  and its stack diff.
\<close>

definition make_body :: "u8 \<Rightarrow> u64 list \<Rightarrow> coldtrace_stack_diff \<Rightarrow> entry_body" where
  "make_body t vs sd =
     (let b = base_type t in
      if b = COLDTRACE_TEST_MARKER then Marker_Entry
      else if b = COLDTRACE_READ \<or> b = COLDTRACE_WRITE then Access_Entry (vs ! 0) (vs ! 1) sd
      else if b = COLDTRACE_ALLOC \<or> b = COLDTRACE_MMAP \<or> b = COLDTRACE_MUNMAP
      then Alloc_Entry (vs ! 0) (vs ! 1) (vs ! 2) sd
      else if b = COLDTRACE_FREE then Free_Entry (vs ! 0) (vs ! 1) sd
      else if b = COLDTRACE_ATOMIC_READ \<or> b = COLDTRACE_ATOMIC_WRITE then Atomic_Access_Entry (vs ! 0) (vs ! 1)
      else if b = COLDTRACE_THREAD_START then Thread_Init_Entry (vs ! 0) (vs ! 1) (vs ! 2)
      else Atomic_Entry (vs ! 0))"

definition field_count :: "u8 \<Rightarrow> nat" where
  "field_count t =
     (let b = base_type t in
      if b = COLDTRACE_TEST_MARKER then 0
      else if b = COLDTRACE_ALLOC \<or> b = COLDTRACE_MMAP \<or> b = COLDTRACE_MUNMAP \<or> b = COLDTRACE_THREAD_START then 3
      else if b = COLDTRACE_READ \<or> b = COLDTRACE_WRITE \<or> b = COLDTRACE_FREE
        \<or> b = COLDTRACE_ATOMIC_READ \<or> b = COLDTRACE_ATOMIC_WRITE then 2
      else 1)"

definition make_entry :: "u8 \<Rightarrow> u64 \<Rightarrow> u64 list \<Rightarrow> coldtrace_stack_diff \<Rightarrow> coldtrace_entry" where
  "make_entry t ptr vs sd = \<lparr>typed_ptr = coldtrace_entry_init t ptr, body = make_body t vs sd\<rparr>"

lemma length_2_3:
  "length xs = 2 \<longleftrightarrow> (\<exists>a b. xs = [a, b])" "length xs = 3 \<longleftrightarrow> (\<exists>a b c. xs = [a, b, c])"
  "length xs = Suc 0 \<longleftrightarrow> (\<exists>a. xs = [a])"
  by (auto simp: numeral_eq_Suc length_Suc_conv)

lemma body_bytes_make_body:
  assumes "length vs = field_count t"
  shows "body_bytes (make_body t vs sd) = pack u64_bytes vs @ (if with_stack t then stack_diff_bytes sd else [])"
  using assms
  by (auto simp: make_body_def field_count_def with_stack_def Let_def length_2_3 entry_consts split: if_splits)

lemma entry_bytes_make_entry:
  assumes "length vs = field_count t"
  shows "entry_bytes (make_entry t ptr vs sd) =
     u64_bytes (coldtrace_entry_init t ptr) @ pack u64_bytes vs @ (if with_stack t then stack_diff_bytes sd else [])"
  using body_bytes_make_body [OF assms] by (simp add: entry_bytes_def make_entry_def)

lemma body_for_make_body:
  assumes "is_type_valid t"
  shows "body_for (base_type t) (make_body t vs sd)"
proof -
  have "base_type t \<le> 24" using assms by (simp add: is_type_valid_def entry_consts word_less_nat_alt word_le_nat_alt)
  moreover have "6 \<le> base_type t" if "base_type t \<notin> {0, 1, 2, 3, 4, 5}"
  proof (rule ccontr)
    assume "\<not> 6 \<le> base_type t"
    then have "unat (base_type t) < 6" by (simp add: word_le_nat_alt)
    then have "unat (base_type t) \<in> {0, 1, 2, 3, 4, 5}" by (auto simp: numeral_eq_Suc less_Suc_eq)
    then have "of_nat (unat (base_type t)) \<in> (of_nat ` {0, 1, 2, 3, 4, 5} :: u8 set)" by (rule imageI)
    then show False using that by simp
  qed
  moreover have "base_type t \<le> 21" if "base_type t \<le> 24" "base_type t \<notin> {22, 23, 24}"
  proof (rule ccontr)
    assume "\<not> base_type t \<le> 21"
    then have "21 < unat (base_type t)" "unat (base_type t) \<le> 24" using that(1) by (simp_all add: word_le_nat_alt)
    then have "unat (base_type t) \<in> {22, 23, 24}" by (auto simp: numeral_eq_Suc le_Suc_eq)
    then have "of_nat (unat (base_type t)) \<in> (of_nat ` {22, 23, 24} :: u8 set)" by (rule imageI)
    then show False using that by simp
  qed
  ultimately show ?thesis by (auto simp: make_body_def Let_def entry_consts)
qed

lemma stack_diff_of_make_body: "stack_diff_of (make_body t vs sd) = (if with_stack t then Some sd else None)"
  by (simp add: make_body_def with_stack_def Let_def entry_consts)

lemma body_fixed_size_make_body:
  "body_fixed_size (make_body t vs sd) = 8 + 8 * field_count t + (if with_stack t then 8 else 0)"
  by (simp add: make_body_def field_count_def with_stack_def Let_def sizeof_defs entry_consts)

lemma fixed_size_fields:
  assumes "is_type_valid t"
  shows "unat (coldtrace_entry_fixed_size t) = 8 + 8 * field_count t + (if with_stack t then 8 else 0)"
proof -
  have "8 + 8 * field_count t + (if with_stack t then 8 else 0) < 2 ^ LENGTH(64)"
    by (simp add: field_count_def Let_def)
  then show ?thesis
    using fixed_size_body [OF body_for_make_body [OF assms]]
    by (metis body_fixed_size_make_body unat_of_nat_small)
qed

lemma entry_init_type: "ucast (coldtrace_entry_init t ptr) = t"
  by (simp add: coldtrace_entry_init_def header_type)

lemma make_entry_wf: "is_type_valid t \<Longrightarrow> stack_diff_wf sd \<Longrightarrow> entry_wf (make_entry t ptr vs sd)"
  by (simp add: entry_wf_def make_entry_def entry_init_type body_for_make_body stack_diff_of_make_body)

section \<open>Appending\<close>

text \<open>
  The stack is well formed, the writer keeps its invariant, and while a writer that may still record
  has no buffer nothing of the stack counts as recorded.
\<close>

definition thread_inv :: "host \<Rightarrow> coldtrace_thread \<Rightarrow> bool" where
  "thread_inv h th \<longleftrightarrow> stack_ok th \<and> writer_inv h (t_writer th) \<and>
     (\<not> t_initd th \<longrightarrow> t_writer th = zero_writer \<and> t_stack_bottom th = 0) \<and>
     (w_buffer (t_writer th) = None \<longrightarrow>
        \<not> w_initd (t_writer th) \<or> w_failed (t_writer th) \<or> t_stack_bottom th = 0)"

text \<open>An entry of the type fits a fragment together with the whole call stack.\<close>

definition room :: "config \<Rightarrow> u8 \<Rightarrow> coldtrace_thread \<Rightarrow> bool" where
  "room c t th \<longleftrightarrow> fits c (t_writer th) (coldtrace_entry_fixed_size t + ucast (t_stack_size th) * 8)"

lemma zero_writer_simps [simp]:
  "w_buffer zero_writer = None" "w_comp_buf zero_writer = None" "\<not> w_initd zero_writer" "writer_inv h zero_writer"
  by (simp_all add: zero_writer_def writer_inv_def)

lemma writer_init_simps [simp]:
  "w_buffer (coldtrace_writer_init h md w) = None" "writer_inv h (coldtrace_writer_init h md w)"
  by (simp add: coldtrace_writer_init_def split: option.splits) (rule inv_init)

lemma get_thread_inv:
  assumes "thread_inv h th"
  shows "thread_inv h (get_coldtrace_thread h md th)"
    and "path_ok c (t_writer (get_coldtrace_thread h md th)) = path_ok c (t_writer th)"
    and "room c t (get_coldtrace_thread h md th) = room c t th"
    and "entries_of (t_writer (get_coldtrace_thread h md th)) = entries_of (t_writer th)"
  using assms
  by (auto simp: get_coldtrace_thread_def thread_inv_def stack_ok_def path_ok_def room_def fits_def entries_of_def)

lemma unat_frames: "unat (ucast (n :: u32) * 8 :: u64) = 8 * unat n"
proof -
  have "unat n * 8 < 2 ^ 64" using unat_bound [of n] by simp
  then show ?thesis by (simp add: unat_word_ariths unsigned_ucast_eq take_bit_nat_eq_self)
qed

lemma unat_entry_size: "is_type_valid t \<Longrightarrow>
  unat (coldtrace_entry_fixed_size t + ucast (n :: u32) * 8) = unat (coldtrace_entry_fixed_size t) + 8 * unat n"
proof -
  assume "is_type_valid t"
  then have "unat (coldtrace_entry_fixed_size t) \<le> 40" by (simp add: fixed_size_fields field_count_def with_stack_def Let_def entry_consts)
  then show ?thesis
    using unat_add_small [of "coldtrace_entry_fixed_size t" "ucast n * 8"] unat_bound [of n] by (simp add: unat_frames)
qed

lemma fits_mono: "fits c w n \<Longrightarrow> unat m \<le> unat n \<Longrightarrow> fits c w m"
  by (auto simp: fits_def)

lemma new_trace_mono:
  assumes "coldtrace_writer_new_trace c w m" "unat m \<le> unat n" "unat (w_offset w) + unat n < 2 ^ 64"
  shows "coldtrace_writer_new_trace c w n"
proof -
  have "unat (w_offset w + m) \<le> unat (w_offset w + n)"
    using assms unat_add_small [of "w_offset w" m] unat_add_small [of "w_offset w" n] by simp
  then show ?thesis
    using assms(1) by (auto simp: coldtrace_writer_new_trace_def Let_def word_less_nat_alt)
qed

definition with_buffer :: "bytes \<Rightarrow> coldtrace_thread \<Rightarrow> coldtrace_thread" where
  "with_buffer b th = th\<lparr>t_writer := (t_writer th)\<lparr>w_buffer := Some b\<rparr>\<rparr>"

lemma with_buffer_simps [simp]:
  "t_writer (with_buffer b th) = (t_writer th)\<lparr>w_buffer := Some b\<rparr>"
  "with_buffer b (with_buffer b' th) = with_buffer b th"
  "t_stack (with_buffer b th) = t_stack th" "t_stack_size (with_buffer b th) = t_stack_size th"
  "t_stack_bottom (with_buffer b th) = t_stack_bottom th" "t_stack_capacity (with_buffer b th) = t_stack_capacity th"
  "t_failed (with_buffer b th) = t_failed th" "t_initd (with_buffer b th) = t_initd th"
  "t_created_thread_idx (with_buffer b th) = t_created_thread_idx th"
  "call_stack (with_buffer b th) = call_stack th"
  by (simp_all add: with_buffer_def)

lemma splice_mid: "length old = length bs \<Longrightarrow> off = length pre \<Longrightarrow> splice off bs (pre @ old @ post) = pre @ bs @ post"
  by (simp add: splice_def)

lemma thread_store_mid:
  assumes "w_buffer (t_writer th) = Some (pre @ old @ post)" "length old = length bs" "off = length pre"
  shows "thread_store off bs th = Inr (with_buffer (pre @ bs @ post) th)"
  using assms by (simp add: thread_store_def writer_store_def splice_mid with_buffer_def)

lemma split_prefix:
  assumes "n \<le> length xs"
  obtains ys zs where "xs = ys @ zs" "length ys = n" "length zs = length xs - n"
  by (rule that [of "take n xs" "drop n xs"]) (use assms in simp_all)

lemma split_region:
  assumes "p + (a + (b + d)) \<le> length xs"
  obtains pre r q e post where "xs = pre @ r @ q @ e @ post" "length pre = p" "length r = a" "length q = b" "length e = d"
proof -
  have n: "p \<le> length xs" "a \<le> length xs - p" "b \<le> length xs - p - a" "d \<le> length xs - p - a - b" using assms by simp_all
  obtain pre x1 where 1: "xs = pre @ x1" "length pre = p" "length x1 = length xs - p" using n(1) by (rule split_prefix)
  obtain r x2 where 2: "x1 = r @ x2" "length r = a" "length x2 = length x1 - a" using n(2) unfolding 1(3) [symmetric] by (rule split_prefix)
  obtain q x3 where 3: "x2 = q @ x3" "length q = b" "length x3 = length x2 - b" using n(3) unfolding 1(3) [symmetric] 2(3) [symmetric] by (rule split_prefix)
  obtain e post where "x3 = e @ post" "length e = d"
    using n(4) unfolding 1(3) [symmetric] 2(3) [symmetric] 3(3) [symmetric] by (rule split_prefix)
  then show thesis using 1 2 3 by (intro that [of pre r q e post]) simp_all
qed

text \<open>
  The stores of an entry with a call stack: header, depth, popped count and frames of the diff.
\<close>

definition stack_diff_at :: "u32 \<Rightarrow> coldtrace_thread \<Rightarrow> coldtrace_stack_diff" where
  "stack_diff_at lo th = \<lparr>popped = lo, depth = t_stack_size th, diff = drop (unat lo) (call_stack th)\<rparr>"

lemma stack_diff_at_wf:
  assumes "stack_ok th" "lo \<le> t_stack_size th"
  shows "stack_diff_wf (stack_diff_at lo th)"
    and "length (stack_diff_bytes (stack_diff_at lo th)) = 8 + 8 * (unat (t_stack_size th) - unat lo)"
  using assms by (simp_all add: stack_diff_wf_def stack_diff_at_def length_call_stack length_stack_diff_bytes)

lemma call_stack_slice:
  assumes "stack_ok th" "lo \<le> t_stack_size th"
  shows "load (unat lo) (unat (t_stack_size th) - unat lo) (t_stack th) = Inr (drop (unat lo) (call_stack th))"
  using assms by (simp add: stack_ok_def call_stack_def word_le_nat_alt slice_def drop_take)

lemma stack_stores:
  assumes ok: "stack_ok th" "lo \<le> t_stack_size th"
    and buf: "w_buffer (t_writer th) = Some (pre @ r @ q @ e @ post)"
    and len: "length r = 8" "length e = 8 + 8 * (unat (t_stack_size th) - unat lo)"
    and off: "off = length pre + 8 + length q"
    and n: "n = (ucast (t_stack_size th - lo) :: u64) * 8"
  shows "bindR (thread_store (length pre) (u64_bytes hdr) th) (\<lambda>th2.
           bindR (thread_store (off + 4) (u32_bytes (t_stack_size th)) th2) (\<lambda>th3.
           bindR (thread_store off (u32_bytes lo) th3) (\<lambda>th4.
           bindR (if 0 < n
                  then bindR (load (unat lo) (unat (n div 8)) (t_stack th4)) (\<lambda>d. thread_store (off + 8) (pack u64_bytes d) th4)
                  else Inr th4) f)))
       = f (with_buffer (pre @ u64_bytes hdr @ q @ stack_diff_bytes (stack_diff_at lo th) @ post) th)"
proof -
  define m where "m = unat (t_stack_size th) - unat lo"
  have u: "unat n = 8 * m"
    unfolding n m_def unat_frames unat_sub_small [OF ok(2)] ..
  then have un: "unat (n div 8) = m" "0 < n \<longleftrightarrow> 0 < m" by (simp_all add: unat_div word_less_nat_alt)
  have e: "4 \<le> length e" using len by simp
  obtain e1 e' where e1: "e = e1 @ e'" "length e1 = 4" "length e' = length e - 4" using e by (rule split_prefix)
  have e': "4 \<le> length e'" using e1(3) len(2) by simp
  obtain e2 e3 where e2: "e' = e2 @ e3" "length e2 = 4" "length e3 = length e' - 4" using e' by (rule split_prefix)
  have l3: "length e3 = 8 * m" using len(2) e1(3) e2(3) by (simp add: m_def)
  let ?d = "drop (unat lo) (call_stack th)"
  have ld: "load (unat lo) m (t_stack th) = Inr ?d" unfolding m_def by (rule call_stack_slice [OF ok])
  have ln: "length ?d = m" using ok by (simp add: length_call_stack m_def)
  have b: "w_buffer (t_writer th) = Some (pre @ r @ q @ e1 @ e2 @ e3 @ post)" using buf e1(1) e2(1) by simp
  let ?b1 = "pre @ u64_bytes hdr @ q @ e1 @ e2 @ e3 @ post"
  let ?b2 = "(pre @ u64_bytes hdr @ q @ e1) @ u32_bytes (t_stack_size th) @ e3 @ post"
  let ?b3 = "(pre @ u64_bytes hdr @ q) @ u32_bytes lo @ u32_bytes (t_stack_size th) @ e3 @ post"
  let ?b4 = "(pre @ u64_bytes hdr @ q @ u32_bytes lo @ u32_bytes (t_stack_size th)) @ pack u64_bytes ?d @ post"
  have 1: "thread_store (length pre) (u64_bytes hdr) th = Inr (with_buffer ?b1 th)"
    by (rule thread_store_mid [OF b]) (simp_all add: len)
  have 2: "thread_store (off + 4) (u32_bytes (t_stack_size th)) (with_buffer ?b1 th) = Inr (with_buffer ?b2 (with_buffer ?b1 th))"
    by (rule thread_store_mid [of _ _ e2]) (simp_all add: e1(2) e2(2) off)
  have 3: "thread_store off (u32_bytes lo) (with_buffer ?b2 th) = Inr (with_buffer ?b3 (with_buffer ?b2 th))"
    by (rule thread_store_mid [of _ _ e1]) (simp_all add: e1(2) off)
  have 4: "thread_store (off + 8) (pack u64_bytes ?d) (with_buffer ?b3 th) = Inr (with_buffer ?b4 (with_buffer ?b3 th))"
    by (rule thread_store_mid [of _ _ e3]) (simp_all only: with_buffer_simps writer_impl.simps append_assoc length_append
        length_le_bytes c64.pack_length l3 ln off, simp_all)
  have sd: "stack_diff_bytes (stack_diff_at lo th) = u32_bytes lo @ u32_bytes (t_stack_size th) @ pack u64_bytes ?d"
    by (simp add: stack_diff_bytes_def stack_diff_at_def)
  show ?thesis
  proof (cases "m = 0")
    case True
    then have z: "?d = []" "e3 = []" using l3 ln by (simp_all only: length_0_conv mult_0_right)
    have "\<not> 0 < n" using un(2) True by blast
    then show ?thesis
      unfolding 1 2 3 sd bindR_simps with_buffer_simps(2) by (simp add: z)
  next
    case False
    then have "0 < n" using un(2) by blast
    then show ?thesis
      unfolding 1 2 3 sd bindR_simps with_buffer_simps(2) by (simp add: un ld 4 [unfolded append_assoc] del: bindR_eq_Inr)
  qed
qed

text \<open>What an append never touches.\<close>

definition same_stack :: "coldtrace_thread \<Rightarrow> coldtrace_thread \<Rightarrow> bool" where
  "same_stack th th' \<longleftrightarrow> t_stack th' = t_stack th \<and> t_stack_size th' = t_stack_size th \<and>
     t_stack_capacity th' = t_stack_capacity th \<and> t_failed th' = t_failed th \<and>
     t_created_thread_idx th' = t_created_thread_idx th"

lemma same_stackD: "same_stack th th' \<Longrightarrow> call_stack th' = call_stack th \<and> t_stack_size th' = t_stack_size th"
  by (simp add: same_stack_def call_stack_def)

lemma same_stack_refl [simp]: "same_stack th th" "same_stack th (get_coldtrace_thread h md th)"
  by (simp_all add: same_stack_def)

lemma thread_store_keeps: "thread_store off bs th = Inr th' \<Longrightarrow> \<exists>b. th' = with_buffer b th"
  by (auto simp: thread_store_def writer_store_def with_buffer_def split: option.splits)

lemma with_stack_eq:
  fixes h c t ptr len th s
  defines "roll \<equiv> coldtrace_writer_new_trace c (t_writer th) (len + ucast (t_stack_size th - t_stack_bottom th) * 8)"
  defines "lo \<equiv> (if roll then 0 else t_stack_bottom th)"
  defines "n \<equiv> (ucast (t_stack_size th - lo) * 8 :: u64)"
  shows "append_with_stack h c t ptr len th s =
     bindR (coldtrace_writer_reserve h c (len + n) (t_writer th) s) (\<lambda>(r, w, s1).
       let th1 = th\<lparr>t_writer := w\<rparr> in
       case r of
         None \<Rightarrow> Inr (None, th1, s1)
       | Some e \<Rightarrow>
           bindR (thread_store (unat e) (u64_bytes (coldtrace_entry_init t ptr)) th1) (\<lambda>th2.
           bindR (thread_store (unat (e + len - 8) + 4) (u32_bytes (t_stack_size th1)) th2) (\<lambda>th3.
           bindR (thread_store (unat (e + len - 8)) (u32_bytes lo) th3) (\<lambda>th4.
           bindR (if 0 < n
                  then bindR (load (unat lo) (unat (n div 8)) (t_stack th4)) (\<lambda>d.
                         thread_store (unat (e + len - 8) + 8) (pack u64_bytes d) th4)
                  else Inr th4) (\<lambda>th5.
             Inr (Some e, th5\<lparr>t_stack_bottom := t_stack_size th1\<rparr>, s1))))))"
proof -
  have n: "n = (if roll then ucast (t_stack_size th) * 8 else ucast (t_stack_size th - t_stack_bottom th) * 8)"
    by (simp add: n_def lo_def)
  have "t_stack_size (th\<lparr>t_writer := w\<rparr>) = t_stack_size th" for w by simp
  moreover have "(of_nat (4 + 4) :: u64) = 8" by simp
  ultimately show ?thesis
    unfolding append_with_stack_def Let_def sizeof_stack_diff_def roll_def [symmetric] lo_def [symmetric] n [symmetric]
    by (simp only:)
qed

lemma buffer_ok_update:
  assumes "buffer_ok h w b" "length b' = length b" "take 8 b' = take 8 b"
  shows "buffer_ok h (w\<lparr>w_buffer := Some b'\<rparr>) b'"
  using assms by (simp add: buffer_ok_def block_ok_def)

lemma entries_of_prefix: "w_buffer w = Some (pre @ rest) \<Longrightarrow> unat (w_offset w) = length pre \<Longrightarrow> entries_of w = drop 8 pre"
  by (simp add: entries_of_def slice_def)

text \<open>
  Where an entry of a type is placed: behind the entries so far or at the start of a fresh fragment,
  with its diff against the part of the stack that counts as recorded there.
\<close>

definition entry_low :: "bool \<Rightarrow> coldtrace_thread \<Rightarrow> u32" where
  "entry_low fresh th = (if fresh then 0 else t_stack_bottom th)"

definition diff_bytes :: "u8 \<Rightarrow> bool \<Rightarrow> coldtrace_thread \<Rightarrow> bytes" where
  "diff_bytes t fresh th = (if with_stack t then stack_diff_bytes (stack_diff_at (entry_low fresh th) th) else [])"

definition placed ::
  "u8 \<Rightarrow> u64 \<Rightarrow> bool \<Rightarrow> coldtrace_thread \<Rightarrow> coldtrace_thread \<Rightarrow> u64 \<Rightarrow> bytes \<Rightarrow> bytes \<Rightarrow> bytes \<Rightarrow> bool"
where
  "placed t ptr fresh th th' p pre junk post \<longleftrightarrow>
     w_buffer (t_writer th') = Some (pre @ u64_bytes (coldtrace_entry_init t ptr) @ junk @ diff_bytes t fresh th @ post) \<and>
     length pre = unat p \<and> 8 \<le> length pre \<and> length junk = 8 * field_count t \<and>
     unat (w_offset (t_writer th')) = length pre + (8 + (length junk + length (diff_bytes t fresh th))) \<and>
     drop 8 pre = (if fresh then [] else entries_of (t_writer th)) \<and>
     t_stack_bottom th' = (if with_stack t then t_stack_size th else entry_low fresh th)"

definition file_effect :: "host \<Rightarrow> config \<Rightarrow> bool \<Rightarrow> writer_impl \<Rightarrow> os \<Rightarrow> os \<Rightarrow> bool" where
  "file_effect h c fresh w s s' \<longleftrightarrow>
     (if \<not> fresh then s' = s
      else if w_buffer w \<noteq> None \<and> w_mmapped w
      then node_at s' = (node_at s)(name_of c w (w_enumerator w) \<mapsto> Reg (fragment_file h w))
      else node_at s' = node_at s \<or> (\<exists>e. created_only True (name_of c w e) s s'))"

text \<open>How the writer changes, and what is left of a file when no region is handed out.\<close>

definition writer_moved :: "config \<Rightarrow> bool \<Rightarrow> writer_impl \<Rightarrow> writer_impl \<Rightarrow> bool" where
  "writer_moved c fresh w w' \<longleftrightarrow> same_owner w w' \<and> w_initd w \<and> \<not> w_failed w \<and>
     (w_size w' = w_size w \<and> w_buffer w \<noteq> None \<or> w_size w' = trace_size c) \<and>
     w_mmapped w' = (if w_buffer w = None then \<not> disable_writes c else w_mmapped w) \<and>
     (w_buffer w = None \<longrightarrow> fresh) \<and>
     (if fresh then w_buffer w \<noteq> None \<and> w_mmapped w \<longrightarrow>
        w_enumerator w' = (w_enumerator w + 1) mod max_file_count c \<and> max_file_count c \<noteq> 0
      else w_enumerator w' = w_enumerator w)"

definition null_effect :: "config \<Rightarrow> writer_impl \<Rightarrow> writer_impl \<Rightarrow> os \<Rightarrow> os \<Rightarrow> bool" where
  "null_effect c w w' s s' \<longleftrightarrow> w_buffer w' = None \<and> same_owner w w' \<and> (w_buffer w \<noteq> None \<longrightarrow> w_failed w') \<and>
     (\<not> w_initd w \<or> w_failed w \<longrightarrow> w' = w \<and> s' = s) \<and>
     (node_at s' = node_at s \<or> node_at s' = (node_at s)(name_of c w (w_enumerator w) := None))"

lemma writer_moved_buffer [simp]: "writer_moved c fresh w (w'\<lparr>w_buffer := b\<rparr>) = writer_moved c fresh w w'"
  by (simp add: writer_moved_def same_owner_def)

lemma length_diff_bytes:
  assumes "stack_ok th"
  shows "length (diff_bytes t fresh th) =
     (if with_stack t then 8 + 8 * (unat (t_stack_size th) - unat (entry_low fresh th)) else 0)"
  using assms by (simp add: diff_bytes_def entry_low_def stack_diff_at_wf stack_ok_def)

lemma inv_stack_ok: "thread_inv h th \<Longrightarrow> stack_ok th"
  by (simp add: thread_inv_def)

lemma inv_writer: "thread_inv h th \<Longrightarrow> writer_inv h (t_writer th)"
  by (simp add: thread_inv_def)

lemma reserve_not_dead: "coldtrace_writer_reserve h c n w s = Inr (Some p, w', s') \<Longrightarrow> w_initd w \<and> \<not> w_failed w"
  using reserve_dead [of w h c n s] by fastforce

lemma inv_null:
  assumes "thread_inv h th" "coldtrace_writer_reserve h c n (t_writer th) s = Inr (None, w, s')"
    and "w_buffer w = None" "w_comp_buf w = None" "w_buffer (t_writer th) \<noteq> None \<longrightarrow> w = fail (t_writer th)" "t_initd th"
    and "b = 0 \<or> b = t_stack_bottom th"
  shows "thread_inv h (th\<lparr>t_writer := w, t_stack_bottom := b\<rparr>)"
proof -
  have "\<not> w_initd w \<or> w_failed w \<or> b = 0"
  proof (cases "w_buffer (t_writer th) = None \<and> w_initd (t_writer th) \<and> \<not> w_failed (t_writer th)")
    case True
    then show ?thesis using assms(1,7) by (auto simp: thread_inv_def)
  next
    case False
    then show ?thesis using assms(2,5) reserve_dead [of "t_writer th" h c n s] by auto
  qed
  then show ?thesis
    using assms(1,3,4,6,7) by (auto simp: thread_inv_def stack_ok_def inv_no_buffer)
qed

lemma inv_placed:
  assumes "thread_inv h th" "same_stack th th'" "t_initd th'" "writer_inv h (t_writer th')"
    and "placed t ptr fresh th th' p pre junk post"
  shows "thread_inv h th'"
  using assms by (auto simp: thread_inv_def placed_def same_stack_def stack_ok_def entry_low_def)

lemma reserve_place:
  assumes inv: "thread_inv h th" and c: "path_ok c (t_writer th)" and fit: "fits c (t_writer th) n"
    and res: "coldtrace_writer_reserve h c n (t_writer th) s = Inr (r, w, s')"
  obtains (null) "r = None" "w_buffer w = None" "w_comp_buf w = None" "w_buffer (t_writer th) \<noteq> None \<longrightarrow> w = fail (t_writer th)"
      "null_effect c (t_writer th) w s s'"
  | (place) p b fresh where "r = Some p" "w_buffer w = Some b" "buffer_ok h w b" "8 \<le> unat p" "unat p + unat n \<le> length b"
      "unat (w_offset w) = unat p + unat n" "drop 8 (take (unat p) b) = (if fresh then [] else entries_of (t_writer th))"
      "file_effect h c fresh (t_writer th) s s'"
      "fresh \<longleftrightarrow> w_buffer (t_writer th) = None \<or> coldtrace_writer_new_trace c (t_writer th) n"
      "w_buffer (t_writer th) = None \<Longrightarrow> t_stack_bottom th = 0" "writer_moved c fresh (t_writer th) w"
  using inv_writer [OF inv] c fit res
proof (cases rule: reserve_cases)
  case null': null
  then have "null_effect c (t_writer th) w s s'" using reserve_owner [OF res] reserve_dead [of "t_writer th" h c n s] res
    by (auto simp: null_effect_def)
  with null' show thesis by (intro null)
next
  case (same b)
  have ok: "buffer_ok h (t_writer th) b" by (rule writer_inv_Some [OF inv_writer [OF inv] same(1)])
  have "drop 8 (take (unat (w_offset (t_writer th))) b) = entries_of (t_writer th)"
    using same(1) by (simp add: entries_of_def slice_def drop_take)
  then show thesis
    using same ok reserve_advance(2) [OF ok same(1,6)]
    by (intro place [of "w_offset (t_writer th)" b False]) (auto simp: file_effect_def buffer_ok_def block_ok_def writer_moved_def same_owner_def)
next
  case (fresh b)
  have "t_stack_bottom th = 0" if "w_buffer (t_writer th) = None"
    using that inv reserve_not_dead res fresh(1) by (auto simp: thread_inv_def)
  moreover have "unat (8 + n) = 8 + unat n"
    using unat_add_small [of 8 n] fresh(3,5) by (simp add: buffer_ok_def block_ok_def)
  moreover have "writer_moved c True (t_writer th) w"
    using fresh(1,7,9,10) reserve_owner [OF res] reserve_not_dead res unfolding writer_moved_def by auto
  ultimately show thesis
    using fresh by (intro place [of 8 b True]) (auto simp: file_effect_def)
qed

lemma plain_cases:
  assumes inv: "thread_inv h th" and init: "t_initd th" and c: "path_ok c (t_writer th)" and room: "room c t th"
    and t: "is_type_valid t" "\<not> with_stack t"
    and run: "append_plain h c t ptr (coldtrace_entry_fixed_size t) th s = Inr (r, th', s')"
  obtains (null) "r = None" "w_buffer (t_writer th') = None" "thread_inv h th'" "same_stack th th'" "t_initd th'"
      "null_effect c (t_writer th) (t_writer th') s s'"
  | (entry) p pre junk post fresh where "r = Some p" "placed t ptr fresh th th' p pre junk post"
      "file_effect h c fresh (t_writer th) s s'" "thread_inv h th'" "same_stack th th'" "t_initd th'"
      "writer_moved c fresh (t_writer th) (t_writer th')"
proof -
  let ?len = "coldtrace_entry_fixed_size t" and ?hdr = "u64_bytes (coldtrace_entry_init t ptr)"
  define th1 where "th1 = (if coldtrace_writer_new_trace c (t_writer th) ?len then th\<lparr>t_stack_bottom := 0\<rparr> else th)"
  have len: "unat ?len = 8 + 8 * field_count t" using fixed_size_fields [OF t(1)] t(2) by simp
  have fit: "fits c (t_writer th) ?len"
    using room unat_entry_size [OF t(1), of "t_stack_size th"] by (auto simp: room_def intro: fits_mono)
  have th1: "t_writer th1 = t_writer th" by (simp add: th1_def)
  obtain r1 w s1 where res: "coldtrace_writer_reserve h c ?len (t_writer th) s = Inr (r1, w, s1)"
    and rest: "(case r1 of None \<Rightarrow> Inr (None, th1\<lparr>t_writer := w\<rparr>, s1)
      | Some e \<Rightarrow> bindR (thread_store (unat e) ?hdr (th1\<lparr>t_writer := w\<rparr>)) (\<lambda>th3. Inr (Some e, th3, s1))) = Inr (r, th', s')"
    using run unfolding append_plain_def Let_def th1_def [symmetric] th1 by (auto simp del: bindR_simps)
  show thesis
    using inv c fit res
  proof (cases rule: reserve_place)
    case null': null
    have "thread_inv h (th\<lparr>t_writer := w, t_stack_bottom := t_stack_bottom th1\<rparr>)"
      by (rule inv_null [OF inv _ _ _ null'(4) init]) (use null' res in \<open>auto simp: th1_def\<close>)
    moreover have "th1\<lparr>t_writer := w\<rparr> = th\<lparr>t_writer := w, t_stack_bottom := t_stack_bottom th1\<rparr>"
      "same_stack th th1" "t_initd th1" by (simp_all add: th1_def init same_stack_def)
    ultimately show thesis
      using rest null' init by (intro null) (auto simp: same_stack_def)
  next
    case (place p b fresh)
    have "unat p + (8 + (8 * field_count t + 0)) \<le> length b" using place(5) len by simp
    then obtain pre r8 q e post where b: "b = pre @ r8 @ q @ e @ post" "length pre = unat p" "length r8 = 8"
        "length q = 8 * field_count t" "length e = 0" by (rule split_region)
    let ?b = "pre @ ?hdr @ q @ post"
    have buf: "w_buffer (t_writer (th1\<lparr>t_writer := w\<rparr>)) = Some (pre @ r8 @ (q @ post))" using place(2) b by simp
    have th': "r = Some p" "s' = s1" "th' = with_buffer ?b (th1\<lparr>t_writer := w\<rparr>)"
      using rest place(1) thread_store_mid [OF buf, of ?hdr "unat p"] b by auto
    have th1_eq: "th1 = th\<lparr>t_stack_bottom := entry_low fresh th\<rparr>"
      using place(9,10) by (auto simp: th1_def entry_low_def)
    have pl: "placed t ptr fresh th th' p pre q post"
      using th' th1_eq place(4,6,7) b t(2) len by (simp add: placed_def diff_bytes_def)
    have "buffer_ok h (w\<lparr>w_buffer := Some ?b\<rparr>) ?b"
      by (rule buffer_ok_update [OF place(3)]) (use b place(4) in simp_all)
    then have wi: "writer_inv h (t_writer th')" using th' by (simp add: writer_inv_def)
    have ss: "same_stack th th'" "t_initd th'" using th' th1_eq init by (simp_all add: same_stack_def)
    show thesis using entry [OF _ pl _ inv_placed [OF inv ss wi pl] ss] th' place(8,11) by simp
  qed
qed

text \<open>The region of an entry with a call stack, and what the stores leave there.\<close>

lemma stack_region:
  fixes t ptr th lo w p
  defines "len \<equiv> coldtrace_entry_fixed_size t" and "hdr \<equiv> u64_bytes (coldtrace_entry_init t ptr)"
    and "m \<equiv> (ucast (t_stack_size th - lo) * 8 :: u64)" and "th1 \<equiv> th\<lparr>t_writer := w\<rparr>"
  assumes ok: "stack_ok th" "lo \<le> t_stack_size th" and t: "is_type_valid t" "with_stack t"
    and b: "w_buffer w = Some b" "length b < 2 ^ 63" "unat p + unat (len + m) \<le> length b"
  obtains pre r8 q e post where "b = pre @ r8 @ q @ e @ post" "length pre = unat p" "length r8 = 8"
    "length q = 8 * field_count t" "length e = 8 + 8 * (unat (t_stack_size th) - unat lo)"
    "\<And>f :: _ \<Rightarrow> 'z res. bindR (thread_store (unat p) hdr th1) (\<lambda>th2.
        bindR (thread_store (unat (p + len - 8) + 4) (u32_bytes (t_stack_size th1)) th2) (\<lambda>th3.
        bindR (thread_store (unat (p + len - 8)) (u32_bytes lo) th3) (\<lambda>th4.
        bindR (if 0 < m then bindR (load (unat lo) (unat (m div 8)) (t_stack th4)) (\<lambda>d.
                 thread_store (unat (p + len - 8) + 8) (pack u64_bytes d) th4) else Inr th4) f)))
      = f (with_buffer (pre @ hdr @ q @ stack_diff_bytes (stack_diff_at lo th1) @ post) th1)"
proof -
  have len: "unat len = 16 + 8 * field_count t" using fixed_size_fields [OF t(1)] t(2) by (simp add: len_def)
  have un: "unat (len + m) = unat len + 8 * (unat (t_stack_size th) - unat lo)"
    unfolding m_def len_def unat_entry_size [OF t(1)] unat_sub_small [OF ok(2)] ..
  have "unat p + (8 + (8 * field_count t + (8 + 8 * (unat (t_stack_size th) - unat lo)))) \<le> length b" using b(3) len un by simp
  then obtain pre r8 q e post where s: "b = pre @ r8 @ q @ e @ post" "length pre = unat p" "length r8 = 8"
      "length q = 8 * field_count t" "length e = 8 + 8 * (unat (t_stack_size th) - unat lo)" by (rule split_region)
  have "unat (p + len) = unat p + unat len" using b(2,3) un by (intro unat_add_small) simp
  then have off: "unat (p + len - 8) = unat p + 8 + length q"
    using len s(4) unat_sub_small [of 8 "p + len"] by (simp add: word_le_nat_alt)
  show thesis
    using s(1-5)
  proof (rule that)
    show "bindR (thread_store (unat p) hdr th1) (\<lambda>th2.
        bindR (thread_store (unat (p + len - 8) + 4) (u32_bytes (t_stack_size th1)) th2) (\<lambda>th3.
        bindR (thread_store (unat (p + len - 8)) (u32_bytes lo) th3) (\<lambda>th4.
        bindR (if 0 < m then bindR (load (unat lo) (unat (m div 8)) (t_stack th4)) (\<lambda>d.
                 thread_store (unat (p + len - 8) + 8) (pack u64_bytes d) th4) else Inr th4) f)))
      = f (with_buffer (pre @ hdr @ q @ stack_diff_bytes (stack_diff_at lo th1) @ post) th1)" for f :: "_ \<Rightarrow> 'z res"
      unfolding off s(2) [symmetric] hdr_def
      by (rule stack_stores) (use ok b(1) s in \<open>simp_all add: m_def th1_def stack_ok_def\<close>)
  qed
qed

lemma stack_cases:
  assumes inv: "thread_inv h th" and init: "t_initd th" and c: "path_ok c (t_writer th)" and room: "room c t th"
    and t: "is_type_valid t" "with_stack t"
    and run: "append_with_stack h c t ptr (coldtrace_entry_fixed_size t) th s = Inr (r, th', s')"
  obtains (null) "r = None" "w_buffer (t_writer th') = None" "thread_inv h th'" "same_stack th th'" "t_initd th'"
      "null_effect c (t_writer th) (t_writer th') s s'"
  | (entry) p pre junk post fresh where "r = Some p" "placed t ptr fresh th th' p pre junk post"
      "file_effect h c fresh (t_writer th) s s'" "thread_inv h th'" "same_stack th th'" "t_initd th'"
      "writer_moved c fresh (t_writer th) (t_writer th')"
proof -
  let ?len = "coldtrace_entry_fixed_size t" and ?hdr = "u64_bytes (coldtrace_entry_init t ptr)" and ?top = "t_stack_size th"
  define n0 where "n0 = ?len + ucast (?top - t_stack_bottom th) * 8"
  define lo where "lo = (if coldtrace_writer_new_trace c (t_writer th) n0 then 0 else t_stack_bottom th)"
  define m where "m = (ucast (?top - lo) * 8 :: u64)"
  have len: "unat ?len = 16 + 8 * field_count t" using fixed_size_fields [OF t(1)] t(2) by simp
  have lo: "lo \<le> ?top" "unat lo \<le> unat ?top" "t_stack_bottom th \<le> ?top"
    using inv_stack_ok [OF inv] by (auto simp: stack_ok_def lo_def word_le_nat_alt)
  have un: "unat (?len + m) = unat ?len + 8 * (unat ?top - unat lo)"
    unfolding m_def unat_entry_size [OF t(1)] unat_sub_small [OF lo(1)] ..
  have un0: "unat n0 = unat ?len + 8 * (unat ?top - unat (t_stack_bottom th))"
    unfolding n0_def unat_entry_size [OF t(1)] unat_sub_small [OF lo(3)] ..
  have fit: "fits c (t_writer th) (?len + m)"
    using room unat_entry_size [OF t(1), of "t_stack_size th"] un by (auto simp: room_def intro: fits_mono)
  obtain r1 w s1 where res: "coldtrace_writer_reserve h c (?len + m) (t_writer th) s = Inr (r1, w, s1)"
    using run unfolding with_stack_eq n0_def [symmetric] lo_def [symmetric] m_def [symmetric] by (auto simp del: bindR_simps)
  note run1 = run [unfolded with_stack_eq n0_def [symmetric] lo_def [symmetric] m_def [symmetric] res bindR_simps prod.case Let_def]
  show thesis
    using inv c fit res
  proof (cases rule: reserve_place)
    case null': null
    have "thread_inv h (th\<lparr>t_writer := w, t_stack_bottom := t_stack_bottom th\<rparr>)"
      by (rule inv_null [OF inv _ _ _ null'(4) init]) (use null' res in auto)
    then show thesis
      using run1 null' init by (intro null) (auto simp: same_stack_def)
  next
    case (place p b fresh)
    have lb: "length b < 2 ^ 63" using place(3) by (simp add: buffer_ok_def block_ok_def)
    let ?th1 = "th\<lparr>t_writer := w\<rparr>"
    obtain pre r8 q e post where b: "b = pre @ r8 @ q @ e @ post" "length pre = unat p" "length r8 = 8"
        "length q = 8 * field_count t" "length e = 8 + 8 * (unat ?top - unat lo)"
      and st: "\<And>f :: coldtrace_thread \<Rightarrow> (u64 option \<times> coldtrace_thread \<times> os) res. bindR (thread_store (unat p) ?hdr ?th1) (\<lambda>th2.
        bindR (thread_store (unat (p + ?len - 8) + 4) (u32_bytes (t_stack_size ?th1)) th2) (\<lambda>th3.
        bindR (thread_store (unat (p + ?len - 8)) (u32_bytes lo) th3) (\<lambda>th4.
        bindR (if 0 < m then bindR (load (unat lo) (unat (m div 8)) (t_stack th4)) (\<lambda>d.
                 thread_store (unat (p + ?len - 8) + 8) (pack u64_bytes d) th4) else Inr th4) f)))
          = f (with_buffer (pre @ ?hdr @ q @ stack_diff_bytes (stack_diff_at lo ?th1) @ post) ?th1)"
      by (rule stack_region [OF inv_stack_ok [OF inv] lo(1) t place(2) lb place(5) [unfolded m_def], where ptr = ptr, folded m_def]) (rule that)
    let ?b = "pre @ ?hdr @ q @ stack_diff_bytes (stack_diff_at lo ?th1) @ post"
    have ovf: "unat p + unat (?len + m) < 2 ^ 63" using lb place(5) by simp
    have th': "r = Some p" "s' = s1" "th' = (with_buffer ?b ?th1)\<lparr>t_stack_bottom := ?top\<rparr>"
      using run1 unfolding place(1) option.case st by simp_all
    have lo_eq: "lo = entry_low fresh th"
    proof (cases "w_buffer (t_writer th)")
      case None
      then show ?thesis using place(10) by (simp add: lo_def entry_low_def)
    next
      case (Some b0)
      have "coldtrace_writer_new_trace c (t_writer th) (?len + m)" if "coldtrace_writer_new_trace c (t_writer th) n0"
        using that
      proof (rule new_trace_mono)
        show "unat n0 \<le> unat (?len + m)" using un un0 that by (simp add: lo_def)
        show "unat (w_offset (t_writer th)) + unat (?len + m) < 2 ^ 64"
          using writer_inv_Some [OF inv_writer [OF inv] Some] ovf by (simp add: buffer_ok_def block_ok_def)
      qed
      moreover have "?len + m = n0" if "\<not> coldtrace_writer_new_trace c (t_writer th) n0"
        using that by (simp add: lo_def m_def n0_def)
      ultimately show ?thesis using Some place(9) by (auto simp: lo_def entry_low_def)
    qed
    have sd: "stack_diff_bytes (stack_diff_at lo ?th1) = diff_bytes t fresh th"
      using t(2) lo_eq by (simp add: diff_bytes_def stack_diff_at_def)
    have pl: "placed t ptr fresh th th' p pre q post"
      using th' place(4,6,7) b t(2) len un lo_eq sd inv_stack_ok [OF inv] by (simp add: placed_def length_diff_bytes)
    have "buffer_ok h (w\<lparr>w_buffer := Some ?b\<rparr>) ?b"
      by (rule buffer_ok_update [OF place(3)])
         (use b place(4) lo inv_stack_ok [OF inv] sd in \<open>simp_all add: length_diff_bytes lo_eq [symmetric] t(2)\<close>)
    then have wi: "writer_inv h (t_writer th')" using th' by (simp add: writer_inv_def)
    have ss: "same_stack th th'" "t_initd th'" using th' init by (simp_all add: same_stack_def)
    show thesis using entry [OF _ pl _ inv_placed [OF inv ss wi pl] ss] th' place(8,11) by simp
  qed
qed

lemma append_cases:
  assumes inv: "thread_inv h th" and c: "path_ok c (t_writer th)" and room: "room c t th"
    and run: "coldtrace_thread_append h c md t ptr th s = Inr (r, th', s')"
  obtains (dropped) "r = None" "th' = get_coldtrace_thread h md th" "s' = s" "t_failed th \<or> \<not> is_type_valid t"
  | (null) "r = None" "w_buffer (t_writer th') = None" "thread_inv h th'" "same_stack th th'" "t_initd th'"
      "null_effect c (t_writer (get_coldtrace_thread h md th)) (t_writer th') s s'"
  | (entry) p pre junk post fresh where "r = Some p" "\<not> t_failed th" "is_type_valid t"
      "placed t ptr fresh (get_coldtrace_thread h md th) th' p pre junk post"
      "file_effect h c fresh (t_writer (get_coldtrace_thread h md th)) s s'" "thread_inv h th'" "same_stack th th'" "t_initd th'"
      "writer_moved c fresh (t_writer (get_coldtrace_thread h md th)) (t_writer th')"
proof -
  let ?th = "get_coldtrace_thread h md th"
  note g = get_thread_inv [OF inv, where md = md]
  have ss: "same_stack th x" if "same_stack ?th x" for x using that by (simp add: same_stack_def)
  have len: "coldtrace_entry_fixed_size t = 0 \<longleftrightarrow> \<not> is_type_valid t"
  proof
    show "\<not> is_type_valid t" if "coldtrace_entry_fixed_size t = 0"
      using that fixed_size_fields [of t] by auto
  qed (simp add: coldtrace_entry_fixed_size_def)
  show thesis
  proof (cases "t_failed th \<or> \<not> is_type_valid t")
    case True
    then have "(r, th', s') = (None, ?th, s)"
      using run len by (cases "t_failed th") (simp_all add: coldtrace_thread_append_def)
    then show thesis using True by (intro dropped) auto
  next
    case False
    then have v: "is_type_valid t" "\<not> t_failed th" by auto
    show thesis
    proof (cases "with_stack t")
      case True
      then have run': "append_with_stack h c t ptr (coldtrace_entry_fixed_size t) ?th s = Inr (r, th', s')"
        using run v len by (simp add: coldtrace_thread_append_def)
      show thesis
        by (rule stack_cases [OF g(1) _ _ _ v(1) True run']) (use c room g ss v in \<open>auto intro: null entry\<close>)
    next
      case False
      then have run': "append_plain h c t ptr (coldtrace_entry_fixed_size t) ?th s = Inr (r, th', s')"
        using run v len by (simp add: coldtrace_thread_append_def)
      show thesis
        by (rule plain_cases [OF g(1) _ _ _ v(1) False run']) (use c room g ss v in \<open>auto intro: null entry\<close>)
    qed
  qed
qed


text \<open>An append returns when the writer does: none of its stores leaves the region.\<close>

lemma plain_returns:
  assumes inv: "thread_inv h th" and c: "path_ok c (t_writer th)" and room: "room c t th"
    and t: "is_type_valid t" "\<not> with_stack t"
    and res: "\<exists>r. coldtrace_writer_reserve h c (coldtrace_entry_fixed_size t) (t_writer th) s = Inr r"
  shows "\<exists>r. append_plain h c t ptr (coldtrace_entry_fixed_size t) th s = Inr r"
proof -
  let ?len = "coldtrace_entry_fixed_size t" and ?hdr = "u64_bytes (coldtrace_entry_init t ptr)"
  have fit: "fits c (t_writer th) ?len"
    using room unat_entry_size [OF t(1), of "t_stack_size th"] by (auto simp: room_def intro: fits_mono)
  obtain r w s1 where r: "coldtrace_writer_reserve h c ?len (t_writer th) s = Inr (r, w, s1)"
    using res by (metis surj_pair)
  have "\<exists>th3. thread_store (unat p) ?hdr (th1\<lparr>t_writer := w\<rparr>) = Inr th3" if p: "r = Some p" for p th1
    using inv c fit r
  proof (cases rule: reserve_place)
    case (place p' b fresh)
    have "unat p + (8 + (8 * field_count t + 0)) \<le> length b"
      using place(1,5) p fixed_size_fields [OF t(1)] t(2) by simp
    then obtain pre r8 q e post where b: "b = pre @ r8 @ q @ e @ post" "length pre = unat p" "length r8 = 8" by (rule split_region)
    then show ?thesis using thread_store_mid [of "th1\<lparr>t_writer := w\<rparr>" pre r8 "q @ e @ post" ?hdr "unat p"] place(2) by auto
  qed (use p in simp)
  then show ?thesis using r by (cases r) (fastforce simp: append_plain_def Let_def)+
qed

lemma stack_returns:
  assumes inv: "thread_inv h th" and c: "path_ok c (t_writer th)" and room: "room c t th"
    and t: "is_type_valid t" "with_stack t" and res: "\<And>n. \<exists>r. coldtrace_writer_reserve h c n (t_writer th) s = Inr r"
  shows "\<exists>r. append_with_stack h c t ptr (coldtrace_entry_fixed_size t) th s = Inr r"
proof -
  let ?len = "coldtrace_entry_fixed_size t" and ?top = "t_stack_size th"
  define lo where "lo = (if coldtrace_writer_new_trace c (t_writer th) (?len + ucast (?top - t_stack_bottom th) * 8)
    then 0 else t_stack_bottom th)"
  define m where "m = (ucast (?top - lo) * 8 :: u64)"
  have lo: "lo \<le> ?top" using inv_stack_ok [OF inv] by (simp add: stack_ok_def lo_def)
  have "unat (?len + m) \<le> unat ?len + 8 * unat ?top"
    unfolding m_def unat_entry_size [OF t(1)] unat_sub_small [OF lo] by simp
  then have fit: "fits c (t_writer th) (?len + m)"
    using room unat_entry_size [OF t(1), of ?top] by (auto simp: room_def intro: fits_mono)
  obtain r w s1 where r: "coldtrace_writer_reserve h c (?len + m) (t_writer th) s = Inr (r, w, s1)"
    using res by (metis surj_pair)
  note eq = with_stack_eq [of h c t ptr ?len th s, folded lo_def, folded m_def, unfolded r bindR_simps prod.case Let_def]
  show ?thesis
    using inv c fit r
  proof (cases rule: reserve_place)
    case null
    then show ?thesis unfolding eq by simp
  next
    case (place p b fresh)
    have lb: "length b < 2 ^ 63" using place(3) by (simp add: buffer_ok_def block_ok_def)
    obtain B where st: "\<And>f :: coldtrace_thread \<Rightarrow> (u64 option \<times> coldtrace_thread \<times> os) res.
        bindR (thread_store (unat p) (u64_bytes (coldtrace_entry_init t ptr)) (th\<lparr>t_writer := w\<rparr>)) (\<lambda>th2.
        bindR (thread_store (unat (p + ?len - 8) + 4) (u32_bytes (t_stack_size (th\<lparr>t_writer := w\<rparr>))) th2) (\<lambda>th3.
        bindR (thread_store (unat (p + ?len - 8)) (u32_bytes lo) th3) (\<lambda>th4.
        bindR (if 0 < m then bindR (load (unat lo) (unat (m div 8)) (t_stack th4)) (\<lambda>d.
                 thread_store (unat (p + ?len - 8) + 8) (pack u64_bytes d) th4) else Inr th4) f))) = f B"
      by (rule stack_region [OF inv_stack_ok [OF inv] lo t place(2) lb place(5) [unfolded m_def], where ptr = ptr, folded m_def])
         (rule that)
    show ?thesis unfolding eq place(1) option.case st by blast
  qed
qed

lemma append_returns:
  assumes inv: "thread_inv h th" and c: "path_ok c (t_writer th)" and room: "room c t th"
    and res: "\<And>n. \<exists>r. coldtrace_writer_reserve h c n (t_writer (get_coldtrace_thread h md th)) s = Inr r"
  shows "\<exists>r. coldtrace_thread_append h c md t ptr th s = Inr r"
proof -
  let ?th = "get_coldtrace_thread h md th"
  note g = get_thread_inv [OF inv, where md = md]
  have c': "path_ok c (t_writer ?th)" "room c t ?th" using g(2,3) c room by simp_all
  show ?thesis
  proof (cases "t_failed ?th \<or> coldtrace_entry_fixed_size t = 0")
    case True
    then show ?thesis by (auto simp: coldtrace_thread_append_def Let_def)
  next
    case False
    then have "is_type_valid t" by (auto simp: coldtrace_entry_fixed_size_def split: if_splits)
    then show ?thesis
      using False plain_returns [OF g(1) c' _ _ res] stack_returns [OF g(1) c' _ _ res]
      by (simp add: coldtrace_thread_append_def Let_def)
  qed
qed

end
