(* ===== verification/Reader_Correct.thy ===== *)
theory Reader_Correct
  imports Reader Events Thread_Correct
begin

text \<open>
  Correctness of the reader against the entries the tracer writes: every field is decoded, and the
  call stack of every entry is rebuilt from the stack diffs.
\<close>

section \<open>Numbers\<close>

lemma le_nat_le_bytes: "le_nat (le_bytes n x) = take_bit (8 * n) (unat x)" for x :: "'a::len word"
proof (induction n arbitrary: x)
  case 0
  then show ?case by simp
next
  case (Suc n)
  have u: "unat (ucast x :: u8) = unat x mod 256"
    by (simp add: unsigned_ucast_eq take_bit_eq_mod)
  have d: "unat (drop_bit 8 x) = unat x div 256"
    unfolding unsigned_drop_bit_eq take_bit_nat_eq_self [OF unat_bound] by (simp add: drop_bit_eq_div)
  have "take_bit (8 * Suc n) (unat x) = unat x mod (256 * 2 ^ (8 * n))"
    by (simp add: take_bit_eq_mod power_add)
  also have "\<dots> = 256 * (unat x div 256 mod 2 ^ (8 * n)) + unat x mod 256" by (rule mod_mult2_eq)
  finally show ?case by (simp add: Suc u d take_bit_eq_mod)
qed

lemma le_nat_u64: "le_nat (u64_bytes x) = unat x" and le_nat_u32: "le_nat (u32_bytes y) = unat y"
  using unat_bound [of x] unat_bound [of y] by (simp_all add: le_nat_le_bytes take_bit_nat_eq_self)

lemma unpack_u64 [simp]: "off = length pre \<Longrightarrow> unpack_int 8 (pre @ u64_bytes x @ post) off = unat x"
  and unpack_u32 [simp]: "off = length pre \<Longrightarrow> unpack_int 4 (pre @ u32_bytes y @ post) off = unat y"
  using slice_append_exact [of pre "u64_bytes x" post] slice_append_exact [of pre "u32_bytes y" post]
  by (simp_all add: unpack_int_def le_nat_u64 le_nat_u32)

lemma unpack_skip: "length pre \<le> off \<Longrightarrow> unpack_int n (pre @ rest) off = unpack_int n rest (off - length pre)"
  by (simp add: unpack_int_def slice_append_right)

lemma unpack_u64_head: "unpack_int 8 (u64_bytes x @ post) 0 = unat x"
  and unpack_u32_head: "unpack_int 4 (u32_bytes y @ post) 0 = unat y"
  using unpack_u64 [of 0 "[]" x post] unpack_u32 [of 0 "[]" y post] by simp_all

lemmas unpack_simps = unpack_skip unpack_u64_head unpack_u32_head

lemma unpack_frames:
  "map (\<lambda>i. unpack_int 8 (pre @ pack u64_bytes xs @ post) (length pre + i * 8)) [0..<length xs] = map unat xs"
proof (rule nth_equalityI)
  fix i assume "i < length (map (\<lambda>i. unpack_int 8 (pre @ pack u64_bytes xs @ post) (length pre + i * 8)) [0..<length xs])"
  then have i: "i < length xs" by simp
  then have "xs = take i xs @ xs ! i # drop (Suc i) xs" by (rule id_take_nth_drop)
  then have p: "pack u64_bytes xs = pack u64_bytes (take i xs) @ u64_bytes (xs ! i) @ pack u64_bytes (drop (Suc i) xs)"
    by (metis pack_simps(2,3))
  have "unpack_int 8 ((pre @ pack u64_bytes (take i xs)) @ u64_bytes (xs ! i) @ pack u64_bytes (drop (Suc i) xs) @ post) (length pre + i * 8)
      = unat (xs ! i)"
    using i by (intro unpack_u64) (simp add: c64.pack_length)
  then show "map (\<lambda>i. unpack_int 8 (pre @ pack u64_bytes xs @ post) (length pre + i * 8)) [0..<length xs] ! i = map unat xs ! i"
    using i by (simp add: p)
qed simp

section \<open>Header words\<close>

lemma reader_type:
  "unat (w :: u64) AND READER_TYPE_MASK = unat (ucast w :: u8)"
proof -
  have "READER_TYPE_MASK = mask 8" by (simp add: READER_TYPE_MASK_def mask_eq_exp_minus_1)
  then show ?thesis unfolding \<open>READER_TYPE_MASK = mask 8\<close> take_bit_eq_mask [symmetric] by (simp add: unsigned_ucast_eq)
qed

lemma reader_zero: "unat (t :: u8) AND READER_ZERO_FLAG = unat (t AND ZERO_FLAG)"
  by (simp add: READER_ZERO_FLAG_def ZERO_FLAG_def unsigned_and_eq)

lemma reader_base: "unat (t :: u8) - (unat t AND READER_ZERO_FLAG) = unat (base_type t)"
proof -
  let ?a = "t AND NOT ZERO_FLAG" and ?b = "t AND ZERO_FLAG"
  have "?a AND ?b = 0" "t = ?a OR ?b" by (auto intro!: bit_word_eqI simp: bit_simps)
  then have "unat ?a AND unat ?b = 0" "unat t = unat ?a OR unat ?b" by (metis unsigned_and_eq unsigned_0, metis unsigned_or_eq)
  then have "unat t = unat ?a + unat ?b" using disjunctive_add_eq_or by metis
  then show ?thesis unfolding reader_zero base_type_def by linarith
qed

lemma reader_pointer: "drop_bit 16 (unat (coldtrace_entry_init t p)) AND POINTER_MASK = unat (take_bit 48 p)"
proof -
  have m: "POINTER_MASK = mask 48" by (simp add: POINTER_MASK_def mask_eq_exp_minus_1)
  have "take_bit 48 (drop_bit 16 (coldtrace_entry_init t p)) = take_bit 48 p"
    by (rule bit_word_eqI)
       (auto simp: coldtrace_entry_init_def coldtrace_make_entry_header_def TYPE_MASK_mask PTR_MASK_mask
          PTR_SHIFT_VALUE_def bit_simps Let_def)
  then have "unat (take_bit 48 (drop_bit 16 (coldtrace_entry_init t p))) = unat (take_bit 48 p)" by simp
  then have "take_bit 48 (drop_bit 16 (unat (coldtrace_entry_init t p))) = unat (take_bit 48 p)"
    by (simp only: unsigned_take_bit_eq unsigned_drop_bit_eq take_bit_nat_eq_self [OF unat_bound])
  then show ?thesis unfolding m take_bit_eq_mask [symmetric] .
qed

section \<open>Entries\<close>

text \<open>What the reader should report for a logged entry.\<close>

definition caller_1 :: "u64 list \<Rightarrow> nat" where
  "caller_1 stk = (if stk = [] then 0 else unat (last stk))"

definition caller_2 :: "u64 list \<Rightarrow> nat" where
  "caller_2 stk = (if length stk < 2 then 0 else unat (stk ! (length stk - 2)))"

definition trace_entry_of :: "nat \<Rightarrow> logged \<Rightarrow> trace_entry" where
  "trace_entry_of tid i =
     (let t = base_type (l_type i); f = (\<lambda>k. Some (unat (l_fields i ! k)));
          e = trace_entry_default tid (unat t) (unat (take_bit 48 (l_ptr i)));
          ez = e\<lparr>te_zero_flag := (l_type i AND ZERO_FLAG \<noteq> 0)\<rparr>;
          es = ez\<lparr>te_stack_depth := length (l_stack i), te_caller_1 := caller_1 (l_stack i), te_caller_2 := caller_2 (l_stack i)\<rparr>
      in if t = COLDTRACE_TEST_MARKER then e
         else if t = COLDTRACE_READ \<or> t = COLDTRACE_WRITE then es\<lparr>te_size := f 0, te_caller := f 1\<rparr>
         else if t = COLDTRACE_ALLOC \<or> t = COLDTRACE_MMAP \<or> t = COLDTRACE_MUNMAP
         then es\<lparr>te_size := f 0, te_alloc_index := f 1, te_caller := f 2\<rparr>
         else if t = COLDTRACE_FREE then es\<lparr>te_alloc_index := f 0, te_caller := f 1\<rparr>
         else if t = COLDTRACE_ATOMIC_READ \<or> t = COLDTRACE_ATOMIC_WRITE then ez\<lparr>te_size := f 0, te_atomic_index := f 1\<rparr>
         else if t = COLDTRACE_THREAD_START
         then ez\<lparr>te_atomic_index := f 0, te_thread_stack_ptr := f 1, te_thread_stack_size := f 2\<rparr>
         else ez\<lparr>te_atomic_index := f 0\<rparr>)"

text \<open>The reader takes an entry of zeros for the end of the fragment.\<close>

definition zero_free :: "logged \<Rightarrow> bool" where
  "zero_free i \<longleftrightarrow> l_type i = COLDTRACE_FREE \<and> take_bit 48 (l_ptr i) = 0 \<and> l_fields i = [0, 0] \<and> l_stack i = []"

lemma read_stack_ok:
  assumes "unat n = length stk" "lo \<le> n" "unat lo \<le> length st" "take (unat lo) st = take (unat lo) stk"
    and "buf = pre @ pack u64_bytes (drop (unat lo) stk) @ post" "off = length pre"
  shows "read_stack buf off (unat lo) (unat n) (map unat st) =
     Inr (length stk, caller_1 stk, caller_2 stk, off + 8 * (length stk - unat lo), map unat stk)"
proof -
  have lo: "unat lo \<le> length stk" using assms(1,2) by (simp add: word_le_nat_alt)
  have fr: "map (\<lambda>i. unpack_int 8 buf (off + i * ADDRESS_size)) [0..<unat n - unat lo] = map unat (drop (unat lo) stk)"
    using unpack_frames [of pre "drop (unat lo) stk" post] assms(1,5,6) by (simp add: ADDRESS_size_def)
  have "take (unat lo) (map unat st) @ map unat (drop (unat lo) stk) = map unat stk"
    using assms(4) by (metis append_take_drop_id map_append take_map)
  moreover have "length buf \<ge> off + (unat n - unat lo) * ADDRESS_size"
    using assms(1,5,6) by (simp add: c64.pack_length ADDRESS_size_def)
  ultimately show ?thesis
    using assms(1,3) lo fr
    by (auto simp: read_stack_def Let_def word_le_nat_alt ADDRESS_size_def caller_1_def caller_2_def last_map)
qed

lemma le_word_zero: "list_all (\<lambda>x. x = 0) bs \<Longrightarrow> le_word bs = (0 :: 'a::len word)"
  by (induction bs) simp_all

lemma all_zero_u64: "all_zero (u64_bytes a) \<Longrightarrow> a = 0" and all_zero_u32: "all_zero (u32_bytes b) \<Longrightarrow> b = 0"
  using le_word_zero [of "u64_bytes a", where 'a = 64] le_word_zero [of "u32_bytes b", where 'a = 32]
  by (simp_all add: all_zero_def c64.dec_enc c32.dec_enc)

lemma init_zero: "coldtrace_entry_init t p = 0 \<Longrightarrow> t = 0 \<and> take_bit 48 p = 0"
proof -
  assume z: "coldtrace_entry_init t p = 0"
  then have "t = 0" using entry_init_type [of t p] by simp
  moreover have "unat (take_bit 48 p) = 0" using reader_pointer [of t p] z by simp
  ultimately show ?thesis by (simp only: unat_eq_zero simp_thms)
qed

text \<open>
  A stack diff against the stack of the reader: it keeps a common prefix of the old and the new stack.
\<close>

definition diff_against :: "u64 list \<Rightarrow> u64 list \<Rightarrow> coldtrace_stack_diff \<Rightarrow> bool" where
  "diff_against st stk sd \<longleftrightarrow> unat (depth sd) = length stk \<and> popped sd \<le> depth sd \<and> unat (popped sd) \<le> length st
     \<and> take (unat (popped sd)) st = take (unat (popped sd)) stk \<and> diff sd = drop (unat (popped sd)) stk"

lemma diff_against_wf: "diff_against st stk sd \<Longrightarrow> stack_diff_wf sd"
  by (simp add: diff_against_def stack_diff_wf_def)

lemma read_stack_diff:
  assumes "diff_against st stk sd" "buf = pre @ stack_diff_bytes sd @ post" "off = length pre"
  shows "unpack_int 4 buf off = unat (popped sd)" "unpack_int 4 buf (off + 4) = unat (depth sd)"
    and "read_stack buf (off + 8) (unat (popped sd)) (unat (depth sd)) (map unat st) =
      Inr (length stk, caller_1 stk, caller_2 stk, off + length (stack_diff_bytes sd), map unat stk)"
proof -
  have b: "buf = pre @ u32_bytes (popped sd) @ u32_bytes (depth sd) @ pack u64_bytes (diff sd) @ post"
    using assms(2) by (simp add: stack_diff_bytes_def)
  show "unpack_int 4 buf off = unat (popped sd)" "unpack_int 4 buf (off + 4) = unat (depth sd)"
    unfolding b assms(3) by (simp_all add: unpack_simps)
  have len: "length (stack_diff_bytes sd) = 8 + 8 * (length stk - unat (popped sd))"
    using assms(1) by (simp add: length_stack_diff_bytes diff_against_def)
  have b2: "buf = (pre @ u32_bytes (popped sd) @ u32_bytes (depth sd)) @ pack u64_bytes (drop (unat (popped sd)) stk) @ post"
    using assms(1) by (simp add: b diff_against_def)
  show "read_stack buf (off + 8) (unat (popped sd)) (unat (depth sd)) (map unat st) =
      Inr (length stk, caller_1 stk, caller_2 stk, off + length (stack_diff_bytes sd), map unat stk)"
    using read_stack_ok [of "depth sd" stk "popped sd" st buf "pre @ u32_bytes (popped sd) @ u32_bytes (depth sd)" post "off + 8"]
      assms(1,3) b2 len by (simp add: diff_against_def)
qed

lemma read_access_ok:
  assumes "diff_against st stk sd" "buf = pre @ u64_bytes a @ u64_bytes b @ stack_diff_bytes sd @ post" "off = length pre"
  shows "read_access tid buf off t ptr zero (map unat st) =
     Inr ((trace_entry_default tid t ptr)\<lparr>te_zero_flag := zero, te_size := Some (unat a), te_caller := Some (unat b),
            te_stack_depth := length stk, te_caller_1 := caller_1 stk, te_caller_2 := caller_2 stk\<rparr>,
          off + 16 + length (stack_diff_bytes sd), map unat stk)"
proof -
  have buf: "buf = (pre @ u64_bytes a @ u64_bytes b) @ stack_diff_bytes sd @ post" using assms(2) by simp
  note st = read_stack_diff [OF assms(1) buf refl]
  have "unpack_int 8 buf off = unat a" "unpack_int 8 buf (off + 8) = unat b" "off + 24 \<le> length buf"
    using assms(2,3) by (simp_all add: unpack_simps length_stack_diff_bytes)
  then show ?thesis
    using st assms(3) by (simp add: read_access_def fields_end_def ACCESS_FIELDS_size_def add.assoc)
qed

lemma read_alloc_ok:
  assumes "diff_against st stk sd" "off = length pre"
    and "buf = pre @ u64_bytes a @ u64_bytes b @ u64_bytes d @ stack_diff_bytes sd @ post"
  shows "read_alloc tid buf off t ptr zero (map unat st) =
     Inr ((trace_entry_default tid t ptr)\<lparr>te_zero_flag := zero, te_size := Some (unat a), te_alloc_index := Some (unat b),
            te_caller := Some (unat d), te_stack_depth := length stk, te_caller_1 := caller_1 stk, te_caller_2 := caller_2 stk\<rparr>,
          off + 24 + length (stack_diff_bytes sd), map unat stk)"
proof -
  have buf: "buf = (pre @ u64_bytes a @ u64_bytes b @ u64_bytes d) @ stack_diff_bytes sd @ post" using assms(3) by simp
  note st = read_stack_diff [OF assms(1) buf refl]
  have "unpack_int 8 buf off = unat a" "unpack_int 8 buf (off + 8) = unat b" "unpack_int 8 buf (off + 16) = unat d" "off + 32 \<le> length buf"
    using assms(2,3) by (simp_all add: unpack_simps length_stack_diff_bytes)
  then show ?thesis
    using st assms(2) by (simp add: read_alloc_def fields_end_def ALLOC_FIELDS_size_def add.assoc)
qed

lemma read_free_ok:
  assumes "diff_against st stk sd" "off = length pre" "typed \<noteq> 0 \<or> a \<noteq> 0 \<or> b \<noteq> 0 \<or> stk \<noteq> []"
    and "buf = pre @ u64_bytes a @ u64_bytes b @ stack_diff_bytes sd @ post"
  shows "read_free tid buf off typed t ptr zero (map unat st) =
     Inr (Some ((trace_entry_default tid t ptr)\<lparr>te_zero_flag := zero, te_alloc_index := Some (unat a), te_caller := Some (unat b),
            te_stack_depth := length stk, te_caller_1 := caller_1 stk, te_caller_2 := caller_2 stk\<rparr>),
          off + 16 + length (stack_diff_bytes sd), map unat stk)"
proof -
  have buf: "buf = (pre @ u64_bytes a @ u64_bytes b) @ stack_diff_bytes sd @ post" using assms(4) by simp
  note st = read_stack_diff [OF assms(1) buf refl]
  have "unpack_int 8 buf off = unat a" "unpack_int 8 buf (off + 8) = unat b" "off + 24 \<le> length buf"
    using assms(2,4) by (simp_all add: unpack_simps length_stack_diff_bytes)
  moreover have "\<not> (typed = 0 \<and> all_zero (slice off 24 buf))"
  proof
    assume z: "typed = 0 \<and> all_zero (slice off 24 buf)"
    have "slice off 24 buf = u64_bytes a @ u64_bytes b @ u32_bytes (popped sd) @ u32_bytes (depth sd)"
      using assms(2,4) by (simp add: slice_def stack_diff_bytes_def)
    then have "all_zero (u64_bytes a)" "all_zero (u64_bytes b)" "all_zero (u32_bytes (depth sd))" using z by (simp_all add: all_zero_def)
    then have "a = 0" "b = 0" "depth sd = 0" by (simp_all add: all_zero_u64 all_zero_u32)
    then show False using assms(1,3) z by (simp add: diff_against_def)
  qed
  ultimately show ?thesis
    using st assms(2) by (simp add: read_free_def fields_end_def FREE_FIELDS_size_def add.assoc)
qed

lemma read_one_header:
  assumes "buf = pre @ u64_bytes (coldtrace_entry_init t p) @ rest" "off = length pre" "is_type_valid t"
  shows "read_one tid buf off st =
     (let b = unat (base_type t); ptr = unat (take_bit 48 p); zero = (t AND ZERO_FLAG \<noteq> 0) in
      if b \<in> set STACK_ACCESS_TYPES
      then bindD (read_access tid buf (off + 8) b ptr zero st) (\<lambda>(e, off1, st). Inr (Some e, off1, st))
      else read_entry tid buf (off + 8) (unat (coldtrace_entry_init t p)) b ptr zero st)"
proof -
  have u: "unpack_int 8 buf off = unat (coldtrace_entry_init t p)" using assms(1,2) by simp
  have len: "\<not> length buf < off + 8" using assms(1,2) by simp
  have v: "unat (base_type t) < 25" using assms(3) by (simp add: is_type_valid_def entry_consts word_less_nat_alt)
  have z: "(unat t AND READER_ZERO_FLAG \<noteq> 0) = (t AND ZERO_FLAG \<noteq> 0)" unfolding reader_zero by (simp add: unat_eq_zero)
  show ?thesis
    unfolding read_one_def Let_def ENTRY_HEADER_size_def u reader_type entry_init_type reader_base reader_pointer z
    using len v by (simp add: N_ENTRY_TYPES_def)
qed

lemma base_type_unat: "base_type t = numeral k \<longleftrightarrow> unat (base_type t) = unat (numeral k :: u8)"
  "base_type t = 0 \<longleftrightarrow> unat (base_type t) = 0" "base_type t = 1 \<longleftrightarrow> unat (base_type t) = 1"
  by (simp_all only: word_unat_eq_iff unat_0 unat_1)

lemma read_entry_start:
  assumes "buf = pre @ u64_bytes x @ u64_bytes y @ u64_bytes z @ post" "off = length pre"
  shows "read_entry tid buf off tp 9 ptr zero st =
     Inr (Some ((trace_entry_default tid 9 ptr)\<lparr>te_zero_flag := zero, te_atomic_index := Some (unat x),
            te_thread_stack_ptr := Some (unat y), te_thread_stack_size := Some (unat z)\<rparr>), off + 24, st)"
  using assms by (simp add: read_entry_def STACK_ALLOC_TYPES_def fields_end_def THREAD_START_FIELDS_size_def unpack_simps)

lemma read_entry_atomic_access:
  assumes "buf = pre @ u64_bytes x @ u64_bytes y @ post" "off = length pre" "t = 4 \<or> t = 5"
  shows "read_entry tid buf off tp t ptr zero st =
     Inr (Some ((trace_entry_default tid t ptr)\<lparr>te_zero_flag := zero, te_size := Some (unat x),
            te_atomic_index := Some (unat y)\<rparr>), off + 16, st)"
  using assms
  by (auto simp: read_entry_def STACK_ALLOC_TYPES_def ATOMIC_ACCESS_TYPES_def fields_end_def ATOMIC_ACCESS_FIELDS_size_def unpack_simps)

lemma read_entry_atomic:
  assumes "buf = pre @ u64_bytes x @ post" "off = length pre" "t \<notin> {0, 1, 4, 5, 9, 22, 23, 24}"
  shows "read_entry tid buf off tp t ptr zero st =
     Inr (Some ((trace_entry_default tid t ptr)\<lparr>te_zero_flag := zero, te_atomic_index := Some (unat x)\<rparr>), off + 8, st)"
  using assms
  by (simp add: read_entry_def STACK_ALLOC_TYPES_def ATOMIC_ACCESS_TYPES_def fields_end_def ATOMIC_FIELDS_size_def unpack_simps)

lemmas reader_kinds = base_type_unat STACK_ACCESS_TYPES_def STACK_ALLOC_TYPES_def ATOMIC_ACCESS_TYPES_def entry_consts

lemma read_one_stack:
  assumes v: "is_type_valid (l_type i)" "length (l_fields i) = field_count (l_type i)" "\<not> zero_free i"
    and ws: "with_stack (l_type i)" and d: "diff_against st (l_stack i) sd"
    and buf: "buf = pre @ u64_bytes (coldtrace_entry_init (l_type i) (l_ptr i)) @ pack u64_bytes (l_fields i) @ stack_diff_bytes sd @ post"
      "off = length pre"
  shows "read_one tid buf off (map unat st) =
     Inr (Some (trace_entry_of tid i), off + 8 + 8 * length (l_fields i) + length (stack_diff_bytes sd), map unat (l_stack i))"
proof -
  let ?b = "unat (base_type (l_type i))" and ?hdr = "coldtrace_entry_init (l_type i) (l_ptr i)"
  have b2: "buf = (pre @ u64_bytes ?hdr) @ pack u64_bytes (l_fields i) @ stack_diff_bytes sd @ post" "off + 8 = length (pre @ u64_bytes ?hdr)"
    using buf by simp_all
  note hdr = read_one_header [OF buf v(1), unfolded Let_def]
  consider (acc) "?b = 2 \<or> ?b = 3" | (alloc) "?b = 1 \<or> ?b = 22 \<or> ?b = 23" | (free) "?b = 0"
    using ws by (auto simp: with_stack_def Let_def reader_kinds)
  then show ?thesis
  proof cases
    case acc
    then have "field_count (l_type i) = 2" by (auto simp: field_count_def Let_def reader_kinds)
    then obtain x y where f: "l_fields i = [x, y]" using v(2) by (auto simp: length_2_3)
    from b2 have b3: "buf = (pre @ u64_bytes ?hdr) @ u64_bytes x @ u64_bytes y @ stack_diff_bytes sd @ post" by (simp add: f)
    show ?thesis unfolding hdr read_access_ok [OF d b3 b2(2)] using acc f by (auto simp: trace_entry_of_def Let_def reader_kinds)
  next
    case alloc
    then have "field_count (l_type i) = 3" by (auto simp: field_count_def Let_def reader_kinds)
    then obtain x y z where f: "l_fields i = [x, y, z]" using v(2) by (auto simp: length_2_3)
    from b2 have b3: "buf = (pre @ u64_bytes ?hdr) @ u64_bytes x @ u64_bytes y @ u64_bytes z @ stack_diff_bytes sd @ post" by (simp add: f)
    have "read_entry tid buf (off + 8) tp ?b ptr zero (map unat st) =
        bindD (read_alloc tid buf (off + 8) ?b ptr zero (map unat st)) (\<lambda>(e, off1, st). Inr (Some e, off1, st))" for tp ptr zero
      using alloc by (auto simp: read_entry_def STACK_ALLOC_TYPES_def)
    then show ?thesis unfolding hdr read_alloc_ok [OF d b2(2) b3] using alloc f by (auto simp: trace_entry_of_def Let_def reader_kinds)
  next
    case free
    then have "field_count (l_type i) = 2" by (auto simp: field_count_def Let_def reader_kinds)
    then obtain x y where f: "l_fields i = [x, y]" using v(2) by (auto simp: length_2_3)
    from b2 have b3: "buf = (pre @ u64_bytes ?hdr) @ u64_bytes x @ u64_bytes y @ stack_diff_bytes sd @ post" by (simp add: f)
    have "unat ?hdr \<noteq> 0 \<or> x \<noteq> 0 \<or> y \<noteq> 0 \<or> l_stack i \<noteq> []"
      using v(3) f init_zero by (auto simp: zero_free_def COLDTRACE_FREE_def unat_eq_zero)
    note r = read_free_ok [OF d b2(2) this b3]
    have "read_entry tid buf (off + 8) tp ?b ptr zero (map unat st) = read_free tid buf (off + 8) tp ?b ptr zero (map unat st)" for tp ptr zero
      using free by (simp add: read_entry_def)
    then show ?thesis unfolding hdr using free f r by (auto simp: trace_entry_of_def Let_def reader_kinds)
  qed
qed

lemma read_one_plain:
  assumes v: "is_type_valid (l_type i)" "length (l_fields i) = field_count (l_type i)" and ws: "\<not> with_stack (l_type i)"
    and buf: "buf = pre @ u64_bytes (coldtrace_entry_init (l_type i) (l_ptr i)) @ pack u64_bytes (l_fields i) @ post" "off = length pre"
  shows "read_one tid buf off st = Inr (Some (trace_entry_of tid i), off + 8 + 8 * length (l_fields i), st)"
proof -
  let ?b = "unat (base_type (l_type i))" and ?hdr = "coldtrace_entry_init (l_type i) (l_ptr i)"
  have b2: "buf = (pre @ u64_bytes ?hdr) @ pack u64_bytes (l_fields i) @ post" "off + 8 = length (pre @ u64_bytes ?hdr)"
    using buf by simp_all
  note hdr = read_one_header [OF buf v(1), unfolded Let_def]
  have no: "?b \<notin> {0, 1, 2, 3, 22, 23}" using ws by (auto simp: with_stack_def Let_def reader_kinds)
  consider (marker) "?b = 24" | (atomic) "?b = 4 \<or> ?b = 5" | (start) "?b = 9" | (other) "?b \<notin> {0, 1, 2, 3, 4, 5, 9, 22, 23, 24}"
    using no by auto
  then show ?thesis
  proof cases
    case marker
    then have "field_count (l_type i) = 0" by (auto simp: field_count_def Let_def reader_kinds)
    then show ?thesis unfolding hdr using marker v(2) by (auto simp: trace_entry_of_def read_entry_def Let_def reader_kinds)
  next
    case atomic
    then have "field_count (l_type i) = 2" by (auto simp: field_count_def Let_def reader_kinds)
    then obtain x y where f: "l_fields i = [x, y]" using v(2) by (auto simp: length_2_3)
    from b2 have b3: "buf = (pre @ u64_bytes ?hdr) @ u64_bytes x @ u64_bytes y @ post" by (simp add: f)
    show ?thesis unfolding hdr read_entry_atomic_access [OF b3 b2(2) atomic] using atomic f by (auto simp: trace_entry_of_def Let_def reader_kinds)
  next
    case start
    then have "field_count (l_type i) = 3" by (auto simp: field_count_def Let_def reader_kinds)
    then obtain x y z where f: "l_fields i = [x, y, z]" using v(2) by (auto simp: length_2_3)
    from b2 have b3: "buf = (pre @ u64_bytes ?hdr) @ u64_bytes x @ u64_bytes y @ u64_bytes z @ post" by (simp add: f)
    show ?thesis unfolding hdr start read_entry_start [OF b3 b2(2)] using start f by (auto simp: trace_entry_of_def Let_def reader_kinds)
  next
    case other
    then have "field_count (l_type i) = 1" by (auto simp: field_count_def Let_def reader_kinds)
    then obtain x where f: "l_fields i = [x]" using v(2) by (auto simp: length_2_3)
    from b2 have b3: "buf = (pre @ u64_bytes ?hdr) @ u64_bytes x @ post" by (simp add: f)
    have o: "?b \<notin> {0, 1, 4, 5, 9, 22, 23, 24}" using other by simp
    show ?thesis unfolding hdr read_entry_atomic [OF b3 b2(2) o] using other f by (auto simp: trace_entry_of_def Let_def reader_kinds)
  qed
qed

section \<open>Fragments\<close>

text \<open>
  Entries that encode a list of logged entries, from the stack before the first to the stack after the
  last one.
\<close>

definition item_ok :: "logged \<Rightarrow> bool" where
  "item_ok i \<longleftrightarrow> is_type_valid (l_type i) \<and> length (l_fields i) = field_count (l_type i)"

abbreviation entry_for :: "logged \<Rightarrow> coldtrace_stack_diff \<Rightarrow> coldtrace_entry" where
  "entry_for i sd \<equiv> make_entry (l_type i) (l_ptr i) (l_fields i) sd"

abbreviation next_stack :: "logged \<Rightarrow> u64 list \<Rightarrow> u64 list" where
  "next_stack i st \<equiv> (if with_stack (l_type i) then l_stack i else st)"

inductive encodes :: "u64 list \<Rightarrow> logged list \<Rightarrow> coldtrace_entry list \<Rightarrow> u64 list \<Rightarrow> bool" where
  enc_Nil: "encodes st [] [] st"
| enc_Cons: "item_ok i \<Longrightarrow> with_stack (l_type i) \<longrightarrow> diff_against st (l_stack i) sd \<Longrightarrow>
     encodes (next_stack i st) is es st' \<Longrightarrow> encodes st (i # is) (entry_for i sd # es) st'"

inductive_cases encodes_NilE: "encodes st [] es st'"

lemma encodes_append: "encodes st is es st' \<Longrightarrow> encodes st' js ds st'' \<Longrightarrow> encodes st (is @ js) (es @ ds) st''"
  by (induction rule: encodes.induct) (auto intro: enc_Cons)

lemma encodes_snoc:
  assumes "encodes st is es st'" "item_ok i" "with_stack (l_type i) \<longrightarrow> diff_against st' (l_stack i) sd"
  shows "encodes st (is @ [i]) (es @ [entry_for i sd]) (next_stack i st')"
  by (rule encodes_append [OF assms(1)]) (rule enc_Cons [OF assms(2,3) enc_Nil])

lemma encodes_any_start: "encodes st0 is es st' \<Longrightarrow> st0 = [] \<Longrightarrow> \<exists>st''. encodes st is es st''"
proof (induction rule: encodes.induct)
  case (enc_Nil st0)
  then show ?case by (blast intro: encodes.enc_Nil)
next
  case (enc_Cons i st0 sd "is" es st')
  have d: "with_stack (l_type i) \<longrightarrow> diff_against st (l_stack i) sd"
    using enc_Cons by (auto simp: diff_against_def)
  show ?case
  proof (cases "with_stack (l_type i)")
    case True
    then show ?thesis using enc_Cons d encodes.enc_Cons [OF enc_Cons.hyps(1) d, of "is" es st'] by auto
  next
    case False
    then obtain st'' where "encodes st is es st''" using enc_Cons by auto
    then show ?thesis using False d encodes.enc_Cons [OF enc_Cons.hyps(1) d, of "is" es st''] by auto
  qed
qed

lemma length_entry_for:
  assumes "item_ok i"
  shows "length (entry_bytes (entry_for i sd)) =
     8 + 8 * length (l_fields i) + (if with_stack (l_type i) then length (stack_diff_bytes sd) else 0)"
  using assms by (simp add: item_ok_def entry_bytes_make_entry c64.pack_length)

lemma read_one_entry:
  assumes "item_ok i" "\<not> zero_free i" "with_stack (l_type i) \<longrightarrow> diff_against st (l_stack i) sd"
  shows "read_one tid (pre @ entry_bytes (entry_for i sd) @ post) (length pre) (map unat st) =
     Inr (Some (trace_entry_of tid i), length (pre @ entry_bytes (entry_for i sd)), map unat (next_stack i st))"
proof (cases "with_stack (l_type i)")
  case True
  have ok: "is_type_valid (l_type i)" "length (l_fields i) = field_count (l_type i)" "diff_against st (l_stack i) sd"
    using assms True by (simp_all add: item_ok_def)
  have "pre @ entry_bytes (entry_for i sd) @ post = pre @ u64_bytes (coldtrace_entry_init (l_type i) (l_ptr i))
      @ pack u64_bytes (l_fields i) @ stack_diff_bytes sd @ post"
    using ok True by (simp add: entry_bytes_make_entry)
  from read_one_stack [OF ok(1,2) assms(2) True ok(3) this refl] show ?thesis
    using True length_entry_for [OF assms(1)] by simp
next
  case False
  have ok: "is_type_valid (l_type i)" "length (l_fields i) = field_count (l_type i)"
    using assms by (simp_all add: item_ok_def)
  have "pre @ entry_bytes (entry_for i sd) @ post =
      pre @ u64_bytes (coldtrace_entry_init (l_type i) (l_ptr i)) @ pack u64_bytes (l_fields i) @ post"
    using ok False by (simp add: entry_bytes_make_entry)
  from read_one_plain [OF ok False this refl] show ?thesis
    using False length_entry_for [OF assms(1)] by simp
qed

lemma read_loop_ok:
  "encodes st is es st' \<Longrightarrow> \<forall>i\<in>set is. \<not> zero_free i \<Longrightarrow>
   read_loop tid (pre @ concat (map entry_bytes es)) (length pre) (map unat st) =
     (map (trace_entry_of tid) is, None, map unat st')"
proof (induction arbitrary: pre rule: encodes.induct)
  case (enc_Nil st)
  then show ?case by (simp add: read_loop.simps)
next
  case (enc_Cons i st sd "is" es st')
  let ?e = "entry_bytes (entry_for i sd)"
  have one: "read_one tid (pre @ ?e @ concat (map entry_bytes es)) (length pre) (map unat st) =
      Inr (Some (trace_entry_of tid i), length (pre @ ?e), map unat (next_stack i st))"
    using enc_Cons by (intro read_one_entry) auto
  have rest: "read_loop tid ((pre @ ?e) @ concat (map entry_bytes es)) (length (pre @ ?e)) (map unat (next_stack i st)) =
      (map (trace_entry_of tid) is, None, map unat st')"
    using enc_Cons by (intro enc_Cons.IH) simp
  have "0 < length ?e" using length_entry_for [OF enc_Cons.hyps(1)] by simp
  then show ?case
    using one rest by (subst read_loop.simps) simp
qed

section \<open>Files\<close>

text \<open>
  What the reader relies on: \<open>lz4.block.decompress\<close> decodes every block that the block format defines.
\<close>

definition version_supported :: "version_header \<Rightarrow> bool" where
  "version_supported v \<longleftrightarrow> \<not> version_less (unat (major v), unat (minor v), unat (patch v)) MIN_SUPPORTED_VERSION"

definition fragment_of :: "version_header \<Rightarrow> logged list \<Rightarrow> bytes \<Rightarrow> bool" where
  "fragment_of v is f \<longleftrightarrow> (\<exists>es st blk raw. encodes [] is es st \<and> raw = concat (map entry_bytes es) \<and>
     f = version_header_bytes v @ u32_bytes (of_nat (length raw)) @ blk \<and> lz4_decompress blk (length raw) = Some raw \<and>
     length raw \<le> LZ4_MAX_INPUT_SIZE)"

lemma unpack_u8: "off = length pre \<Longrightarrow> unpack_int 1 (pre @ [b] @ post) off = unat b"
  using slice_append_exact [of pre "[b]" post] by (simp add: unpack_int_def)

lemma version_bytes:
  "unpack_int 1 (version_header_bytes v @ rest) 5 = unat (major v)"
  "unpack_int 1 (version_header_bytes v @ rest) 6 = unat (minor v)"
  "unpack_int 1 (version_header_bytes v @ rest) 7 = unat (patch v)"
  using unpack_u8 [of 5 "u32_bytes (git_hash v) @ [padding v]" "major v" "[minor v, patch v] @ rest"]
    unpack_u8 [of 6 "u32_bytes (git_hash v) @ [padding v, major v]" "minor v" "[patch v] @ rest"]
    unpack_u8 [of 7 "u32_bytes (git_hash v) @ [padding v, major v, minor v]" "patch v" rest]
  by (simp_all add: version_header_bytes_def)

locale lz4_block_module =
  fixes lz4_block :: "bytes \<Rightarrow> nat \<Rightarrow> bytes option"
  assumes decodes: "lz4_decompress payload n = Some out \<Longrightarrow> lz4_block payload n = Some out"
begin

lemma decompress_ok:
  assumes "version_supported v" "lz4_decompress blk (length raw) = Some raw" "length raw \<le> max_size" "length raw < 2 ^ 32"
  shows "decompress lz4_block max_size (version_header_bytes v @ u32_bytes (of_nat (length raw)) @ blk)
     = Inr (version_header_bytes v @ raw)"
proof -
  let ?f = "version_header_bytes v @ u32_bytes (of_nat (length raw)) @ blk"
  have raw: "unpack_int 4 ?f 8 = length raw"
    using unpack_u32 [of 8 "version_header_bytes v" "of_nat (length raw)" blk] assms(4)
    by (simp add: unat_of_nat_small)
  have "check_version ?f = Inr ()"
    unfolding check_version_def version_bytes Let_def using assms(1) by (simp add: version_supported_def)
  moreover have "length raw \<le> 255 * length blk" by (rule decompress_ratio [OF assms(2)])
  moreover have "lz4_block blk (length raw) = Some raw" by (rule decodes [OF assms(2)])
  ultimately show ?thesis
    using raw assms(3)
    by (auto simp: decompress_def reader_sizes LZ4_MAX_RATIO_def Let_def mult.commute)
qed

lemma read_file_ok:
  assumes "fragment_of v is f" "version_supported v" "LZ4_MAX_INPUT_SIZE \<le> max_size" "\<forall>i\<in>set is. \<not> zero_free i"
  shows "\<exists>st' :: u64 list. read_file lz4_block max_size tid f (map unat (st :: u64 list)) = (map (trace_entry_of tid) is, None, map unat st')"
proof -
  obtain es st0 blk raw where f: "encodes [] is es st0" "raw = concat (map entry_bytes es)"
      "f = version_header_bytes v @ u32_bytes (of_nat (length raw)) @ blk" "lz4_decompress blk (length raw) = Some raw"
      "length raw \<le> LZ4_MAX_INPUT_SIZE"
    using assms(1) by (auto simp: fragment_of_def)
  obtain st' where enc: "encodes st is es st'" using encodes_any_start [OF f(1) refl] by blast
  have "decompress lz4_block max_size f = Inr (version_header_bytes v @ raw)"
    unfolding f(3) by (rule decompress_ok [OF assms(2) f(4)]) (use f(5) assms(3) in \<open>auto simp: LZ4_MAX_INPUT_SIZE_def\<close>)
  moreover have "read_loop tid (version_header_bytes v @ raw) 8 (map unat st) = (map (trace_entry_of tid) is, None, map unat st')"
    using read_loop_ok [OF enc assms(4), of tid "version_header_bytes v"] f(2) by simp
  ultimately show ?thesis by (auto simp: read_file_def VERSION_HEADER_size_def)
qed

text \<open>Several files in a row; the stack one of them leaves does not matter to the next.\<close>

lemma read_files_ok:
  assumes "list_all2 (fragment_of v) iss ffs" "version_supported v" "LZ4_MAX_INPUT_SIZE \<le> max_size"
    and "\<forall>i\<in>set (concat iss). \<not> zero_free i"
  shows "\<exists>st' :: u64 list. read_files lz4_block max_size tid ffs (map unat (st :: u64 list)) = (map (trace_entry_of tid) (concat iss), None, map unat st')"
  using assms(1,4)
proof (induction arbitrary: st rule: list_all2_induct)
  case Nil
  then show ?case by auto
next
  case (Cons "is" iss f ffs)
  obtain st1 :: "u64 list" where one: "read_file lz4_block max_size tid f (map unat st) = (map (trace_entry_of tid) is, None, map unat st1)"
    using read_file_ok [OF Cons.hyps(1) assms(2,3), of tid st] Cons.prems by auto
  obtain st2 :: "u64 list" where "read_files lz4_block max_size tid ffs (map unat st1) = (map (trace_entry_of tid) (concat iss), None, map unat st2)"
    using Cons.IH [of st1] Cons.prems by auto
  with one show ?case by auto
qed

end

interpretation lz4_block: lz4_block_module lz4_decompress
  by unfold_locales

end
