(* ===== verification/Events_Correct.thy ===== *)
theory Events_Correct
  imports Reader_Correct
begin

text \<open>
  What the subscribers leave in the buffer of a thread: the entries they logged, in order, encoded so
  that the reader rebuilds their call stacks.
\<close>

section \<open>Filling in an entry\<close>

lemma store_fields_mid:
  "w_buffer (t_writer th) = Some (pre @ junk @ post) \<Longrightarrow> length junk = 8 * length vs \<Longrightarrow> off = length pre \<Longrightarrow>
   store_fields off vs th = Inr (with_buffer (pre @ pack u64_bytes vs @ post) th)"
proof (induction vs arbitrary: off pre junk th)
  case Nil
  then show ?case by (simp add: with_buffer_def)
next
  case (Cons v vs)
  have "8 \<le> length junk" using Cons.prems by simp
  then obtain j1 j2 where j: "junk = j1 @ j2" "length j1 = 8" "length j2 = length junk - 8" by (rule split_prefix)
  have st: "thread_store off (u64_bytes v) th = Inr (with_buffer (pre @ u64_bytes v @ (j2 @ post)) th)"
    using Cons.prems j(1,2) by (intro thread_store_mid [of _ _ j1]) simp_all
  have "store_fields (off + 8) vs (with_buffer (pre @ u64_bytes v @ (j2 @ post)) th)
      = Inr (with_buffer ((pre @ u64_bytes v) @ pack u64_bytes vs @ post) (with_buffer (pre @ u64_bytes v @ (j2 @ post)) th))"
    using Cons.prems(2,3) j(3) by (intro Cons.IH [of _ _ j2]) simp_all
  then show ?case using st by simp
qed

text \<open>
  The entries in the buffer encode a list of logged entries, and the part of the call stack that
  counts as recorded is what the reader has rebuilt so far.
\<close>

definition recorded :: "coldtrace_thread \<Rightarrow> logged list \<Rightarrow> bool" where
  "recorded th is \<longleftrightarrow>
     (if w_buffer (t_writer th) = None then is = []
      else \<exists>es st. encodes [] is es st \<and> entries_of (t_writer th) = concat (map entry_bytes es) \<and>
             unat (t_stack_bottom th) \<le> length st \<and>
             take (unat (t_stack_bottom th)) st = take (unat (t_stack_bottom th)) (call_stack th))"

lemma recordedI:
  assumes "w_buffer (t_writer th) \<noteq> None" "encodes [] is es st" "entries_of (t_writer th) = concat (map entry_bytes es)"
    and "unat (t_stack_bottom th) \<le> length st"
    and "take (unat (t_stack_bottom th)) st = take (unat (t_stack_bottom th)) (call_stack th)"
  shows "recorded th is"
  using assms unfolding recorded_def by auto

lemma recorded_get: "thread_inv h th \<Longrightarrow> recorded (get_coldtrace_thread h md th) is = recorded th is"
  by (auto simp: recorded_def get_coldtrace_thread_def thread_inv_def)

lemma diff_at_against:
  assumes "stack_ok th" "lo \<le> t_stack_size th" "unat lo \<le> length st" "take (unat lo) st = take (unat lo) (call_stack th)"
  shows "diff_against st (call_stack th) (stack_diff_at lo th)"
  using assms by (simp add: diff_against_def stack_diff_at_def length_call_stack)

lemma fill_entry:
  assumes inv: "thread_inv h th" and rec: "recorded th is"
    and pl: "placed t ptr fresh th th1 p pre junk post" and inv1: "thread_inv h th1" and ss: "same_stack th th1" "t_initd th1"
    and mv: "writer_moved c fresh (t_writer th) (t_writer th1)"
    and t: "is_type_valid t" "length vs = field_count t"
  obtains th2 where "store_fields (unat p + 8) vs th1 = Inr th2" "thread_inv h th2" "same_stack th th2" "t_initd th2"
    "recorded th2 ((if fresh then [] else is) @ [\<lparr>l_type = t, l_ptr = ptr, l_fields = vs, l_stack = call_stack th\<rparr>])"
    "t_writer th2 = (t_writer th1)\<lparr>w_buffer := w_buffer (t_writer th2)\<rparr>" "w_buffer (t_writer th2) \<noteq> None"
proof -
  let ?hdr = "u64_bytes (coldtrace_entry_init t ptr)" and ?d = "diff_bytes t fresh th"
  let ?b = "(pre @ ?hdr) @ pack u64_bytes vs @ ?d @ post"
  let ?i = "\<lparr>l_type = t, l_ptr = ptr, l_fields = vs, l_stack = call_stack th\<rparr>"
  let ?sd = "stack_diff_at (entry_low fresh th) th"
  note pl' = pl [unfolded placed_def]
  have st: "store_fields (unat p + 8) vs th1 = Inr (with_buffer ?b th1)"
    by (rule store_fields_mid [of _ _ junk]) (use pl' t in simp_all)
  have w1: "w_buffer (t_writer th1) = Some ((pre @ ?hdr) @ junk @ ?d @ post)" using pl' by simp
  have ok: "buffer_ok h ((t_writer th1)\<lparr>w_buffer := Some ?b\<rparr>) ?b"
    by (rule buffer_ok_update [OF writer_inv_Some [OF inv_writer [OF inv1] w1]]) (use pl' t in \<open>simp_all add: c64.pack_length\<close>)
  have inv2: "thread_inv h (with_buffer ?b th1)"
    using inv1 ok pl' ss(2) by (simp add: thread_inv_def writer_inv_def stack_ok_def)
  have eb: "entry_bytes (entry_for ?i ?sd) = ?hdr @ pack u64_bytes vs @ ?d"
    using t by (simp add: entry_bytes_make_entry diff_bytes_def)
  have ent: "entries_of (t_writer (with_buffer ?b th1)) = (if fresh then [] else entries_of (t_writer th)) @ entry_bytes (entry_for ?i ?sd)"
    unfolding eb using pl' t
    by (subst entries_of_prefix [of _ "pre @ ?hdr @ pack u64_bytes vs @ ?d" post]) (simp_all add: c64.pack_length)
  obtain es st0 where base: "encodes [] (if fresh then [] else is) es st0"
      "(if fresh then [] else entries_of (t_writer th)) = concat (map entry_bytes es)"
      "unat (entry_low fresh th) \<le> length st0" "take (unat (entry_low fresh th)) st0 = take (unat (entry_low fresh th)) (call_stack th)"
  proof (cases fresh)
    case True
    then show thesis using that [of "[]" "[]"] encodes.enc_Nil by (simp add: entry_low_def)
  next
    case False
    then have "w_buffer (t_writer th) \<noteq> None" using mv by (auto simp: writer_moved_def)
    then show thesis using rec False that by (auto simp: recorded_def entry_low_def)
  qed
  have lo: "entry_low fresh th \<le> t_stack_size th" using inv_stack_ok [OF inv] by (auto simp: entry_low_def stack_ok_def)
  have enc: "encodes [] ((if fresh then [] else is) @ [?i]) (es @ [entry_for ?i ?sd]) (next_stack ?i st0)"
    by (rule encodes_snoc [OF base(1)]) (use t lo base inv_stack_ok [OF inv] in \<open>auto simp: item_ok_def intro: diff_at_against\<close>)
  have cs: "call_stack th1 = call_stack th" using same_stackD [OF ss(1)] by simp
  have "recorded (with_buffer ?b th1) ((if fresh then [] else is) @ [?i])"
  proof (rule recordedI [OF _ enc])
    show "entries_of (t_writer (with_buffer ?b th1)) = concat (map entry_bytes (es @ [entry_for ?i ?sd]))"
      unfolding ent base(2) by simp
    show "unat (t_stack_bottom (with_buffer ?b th1)) \<le> length (next_stack ?i st0)"
        "take (unat (t_stack_bottom (with_buffer ?b th1))) (next_stack ?i st0) =
         take (unat (t_stack_bottom (with_buffer ?b th1))) (call_stack (with_buffer ?b th1))"
      using pl' base(3,4) length_call_stack [OF inv_stack_ok [OF inv]] by (auto simp: cs)
  qed simp
  then show thesis
    using st inv2 ss by (intro that [of "with_buffer ?b th1"]) (simp_all add: same_stack_def)
qed

end
