(* ===== verification/Trace.thy ===== *)
theory Trace
  imports Events_Correct
begin

text \<open>
  The trace of a thread over its whole life: every entry a thread logs is in the buffer or in one of
  the fragment files, in order, as long as the writer has not failed.
\<close>

section \<open>Fragment files\<close>

definition own_name :: "host \<Rightarrow> config \<Rightarrow> u64 \<Rightarrow> u32 \<Rightarrow> string" where
  "own_name h c md n = fragment_name (path c) (ucast (h_self_id h md)) n"

lemma own_name_inject [simp]: "own_name h c md n = own_name h c md m \<longleftrightarrow> n = m"
  by (simp add: own_name_def fragment_name_inject)

text \<open>
  The numbers of the fragments a thread writes, from the first one on: the next number is taken modulo
  the maximum, so the thread starts over with its own files.
\<close>

primrec fragment_no :: "u32 \<Rightarrow> u32 \<Rightarrow> nat \<Rightarrow> u32" where
  "fragment_no m start 0 = start"
| "fragment_no m start (Suc n) = (fragment_no m start n + 1) mod m"

lemma fragment_no_add:
  assumes "fragment_no m start i < m"
  shows "unat (fragment_no m start (i + k)) = (unat (fragment_no m start i) + k) mod unat m"
proof (induction k)
  case 0
  then show ?case using assms by (simp add: word_less_nat_alt)
next
  case (Suc k)
  let ?f = "fragment_no m start (i + k)"
  have "unat ?f < unat m" using Suc assms by (simp add: word_less_nat_alt)
  then have "unat (?f + 1) = unat ?f + 1" using unat_bound [of m] unat_add_small [of ?f 1] by simp
  then show ?case using Suc by (simp add: unat_mod mod_Suc_eq)
qed

lemma fragment_no_window:
  assumes "0 < k" "k < unat m"
  shows "fragment_no m start (i + k) \<noteq> fragment_no m start i"
proof (cases "fragment_no m start i < m")
  case True
  let ?a = "unat (fragment_no m start i)"
  have "(?a + k) mod unat m \<noteq> ?a"
    using True assms by (cases "?a + k < unat m") (auto simp: word_less_nat_alt le_mod_geq)
  then show ?thesis using fragment_no_add [OF True, of k] by metis
next
  case False
  obtain k' where "k = Suc k'" using assms(1) by (cases k) auto
  moreover have "m \<noteq> 0" using assms(2) by auto
  ultimately have "fragment_no m start (i + k) < m" by (simp add: word_mod_less_divisor word_gt_0)
  then show ?thesis using False by metis
qed

text \<open>
  The files of a thread hold the chunks of its log: all of them, or as many of the last ones as there
  are numbers.
\<close>

definition stored :: "host \<Rightarrow> config \<Rightarrow> u64 \<Rightarrow> os \<Rightarrow> logged list list \<Rightarrow> u32 \<Rightarrow> bool" where
  "stored h c md s chunks start \<longleftrightarrow>
     (\<forall>i<length chunks. length chunks \<le> i + unat (max_file_count c) \<longrightarrow>
        (\<exists>f. node_at s (own_name h c md (fragment_no (max_file_count c) start i)) = Some (Reg f) \<and>
             fragment_of (h_version h) (chunks ! i) f))"

definition numbered :: "config \<Rightarrow> writer_impl \<Rightarrow> nat \<Rightarrow> u32 \<Rightarrow> bool" where
  "numbered c w n start \<longleftrightarrow> (w_buffer w \<noteq> None \<longrightarrow> w_enumerator w = fragment_no (max_file_count c) start n)"

lemma stored_next:
  assumes st: "stored h c md s chunks start" and nu: "numbered c w (length chunks) start" "w_buffer w \<noteq> None"
    and f: "fragment_of (h_version h) cur f" "node_at s' = (node_at s)(own_name h c md (w_enumerator w) \<mapsto> Reg f)"
  shows "stored h c md s' (chunks @ [cur]) start"
  unfolding stored_def
proof (intro impI allI)
  let ?m = "max_file_count c"
  fix i assume i: "i < length (chunks @ [cur])" and win: "length (chunks @ [cur]) \<le> i + unat ?m"
  have en: "w_enumerator w = fragment_no ?m start (length chunks)" using nu by (simp add: numbered_def)
  show "\<exists>f. node_at s' (own_name h c md (fragment_no ?m start i)) = Some (Reg f) \<and> fragment_of (h_version h) ((chunks @ [cur]) ! i) f"
  proof (cases "i = length chunks")
    case True
    then show ?thesis using f en by (simp add: nth_append)
  next
    case False
    then have i': "i < length chunks" using i by simp
    then have k: "0 < length chunks - i" "length chunks - i < unat ?m" "i + (length chunks - i) = length chunks"
      using win by simp_all
    have "fragment_no ?m start i \<noteq> w_enumerator w" using fragment_no_window [OF k(1,2), of start i] k(3) en by simp
    then show ?thesis using st win i' f(2) by (simp add: stored_def nth_append)
  qed
qed

lemma numbered_next:
  assumes "numbered c w n start" "w_buffer w \<noteq> None" "w_enumerator w' = (w_enumerator w + 1) mod max_file_count c"
  shows "numbered c w' (Suc n) start"
  using assms by (simp add: numbered_def)

section \<open>The invariant of a thread and its files\<close>

definition trace_inv :: "host \<Rightarrow> config \<Rightarrow> u64 \<Rightarrow> coldtrace_thread \<Rightarrow> os \<Rightarrow> logged list \<Rightarrow> bool" where
  "trace_inv h c md th s log \<longleftrightarrow> thread_inv h th \<and> list_all item_ok log \<and>
     (t_initd th \<longrightarrow> w_tid (t_writer th) = h_self_id h md) \<and> (w_buffer (t_writer th) \<noteq> None \<longrightarrow> w_mmapped (t_writer th)) \<and>
     (w_failed (t_writer th) \<or>
      (\<exists>chunks cur start. log = concat chunks @ cur \<and> recorded th cur \<and>
         (w_buffer (t_writer th) = None \<and> (w_initd (t_writer th) \<or> \<not> t_initd th) \<longrightarrow> chunks = []) \<and>
         stored h c md s chunks start \<and> numbered c (t_writer th) (length chunks) start))"

text \<open>Every entry fits a fragment together with the call stack of the thread.\<close>

definition deep_ok :: "config \<Rightarrow> coldtrace_thread \<Rightarrow> bool" where
  "deep_ok c th \<longleftrightarrow> 48 + 8 * unat (t_stack_size th) \<le> unat (trace_size c) \<and>
     (w_buffer (t_writer th) \<noteq> None \<longrightarrow> w_size (t_writer th) = trace_size c)"

lemma deep_room:
  assumes "deep_ok c th"
  shows "room c t th \<or> \<not> is_type_valid t"
proof (cases "is_type_valid t")
  case True
  then have "unat (coldtrace_entry_fixed_size t) \<le> 40"
    by (simp add: fixed_size_fields field_count_def with_stack_def Let_def entry_consts)
  then show ?thesis
    using assms True unat_entry_size [OF True, of "t_stack_size th"] by (auto simp: deep_ok_def room_def fits_def)
qed simp

lemma trace_inv_get:
  assumes "trace_inv h c md th s log"
  shows "trace_inv h c md (get_coldtrace_thread h md th) s log"
proof (cases "t_initd th")
  case True
  then show ?thesis using assms by (simp add: get_coldtrace_thread_def)
next
  case False
  have inv: "thread_inv h th" using assms by (simp add: trace_inv_def)
  then have z: "t_writer th = zero_writer" "t_stack_bottom th = 0" using False by (simp_all add: thread_inv_def)
  then obtain cur start where "log = cur" "recorded th cur"
    using assms False by (auto simp: trace_inv_def zero_writer_def)
  then have "log = []" using z by (simp add: recorded_def)
  then show ?thesis
    using get_thread_inv(1) [OF inv, where md = md] False z
    by (auto simp: trace_inv_def get_coldtrace_thread_def recorded_def stored_def numbered_def coldtrace_writer_init_def
          intro!: exI [of _ "[]"])
qed

lemma fragment_file_of:
  assumes "thread_inv h th" "recorded th is" "w_buffer (t_writer th) = Some b" "w_mmapped (t_writer th)"
  shows "fragment_of (h_version h) is (fragment_file h (t_writer th))"
proof -
  have ok: "buffer_ok h (t_writer th) b" using writer_inv_Some [OF inv_writer [OF assms(1)] assms(3)] .
  obtain es st where e: "encodes [] is es st" "entries_of (t_writer th) = concat (map entry_bytes es)"
    using assms(2,3) by (auto simp: recorded_def)
  have "length (entries_of (t_writer th)) \<le> LZ4_MAX_INPUT_SIZE"
    using ok assms(3,4) length_entries_of [OF ok assms(3)] by (auto simp: buffer_ok_def block_ok_def)
  then show ?thesis
    using e compressed_ok(3) [OF ok assms(3,4)] unfolding fragment_of_def fragment_file_def by metis
qed

section \<open>Logging one entry\<close>

abbreviation usable :: "config \<Rightarrow> bool" where
  "usable c \<equiv> config_path_ok c \<and> \<not> disable_writes c"

lemma usable_path_ok: "usable c \<Longrightarrow> path_ok c w"
  by (simp add: path_ok_def)

lemma name_of_own: "w_tid w = h_self_id h md \<Longrightarrow> name_of c w n = own_name h c md n"
  by (simp add: own_name_def)

lemma append_null_inv:
  assumes inv: "trace_inv h c md th s log" and dp: "deep_ok c th" and i: "t_initd th"
    and n: "thread_inv h th'" "same_stack th th'" "t_initd th'" "null_effect c (t_writer th) (t_writer th') s s'"
  shows "trace_inv h c md th' s' log \<and> deep_ok c th'"
proof -
  let ?w = "t_writer th" and ?w' = "t_writer th'"
  have nb: "w_buffer ?w' = None" and own: "same_owner ?w ?w'" and fl: "w_buffer ?w \<noteq> None \<Longrightarrow> w_failed ?w'"
    and dead: "\<not> w_initd ?w \<or> w_failed ?w \<Longrightarrow> ?w' = ?w \<and> s' = s"
    using n(4) by (auto simp: null_effect_def)
  have tid: "w_tid ?w' = h_self_id h md" using inv i own by (simp add: trace_inv_def same_owner_def)
  have dp': "deep_ok c th'" using dp n(2) nb by (simp add: deep_ok_def same_stack_def)
  have "w_failed ?w' \<or> (\<exists>chunks cur start. log = concat chunks @ cur \<and> recorded th' cur \<and>
         (w_buffer ?w' = None \<and> (w_initd ?w' \<or> \<not> t_initd th') \<longrightarrow> chunks = []) \<and>
         stored h c md s' chunks start \<and> numbered c ?w' (length chunks) start)"
  proof (cases "w_failed ?w' \<or> w_failed ?w")
    case True
    then show ?thesis using dead by auto
  next
    case False
    then have none: "w_buffer ?w = None" using fl by blast
    obtain chunks cur start where ch: "log = concat chunks @ cur" "recorded th cur"
        "w_initd ?w \<longrightarrow> chunks = []" "stored h c md s chunks start"
      using inv False none by (auto simp: trace_inv_def)
    then have cur: "cur = []" using none by (simp add: recorded_def)
    have "recorded th' []" using nb by (simp add: recorded_def)
    moreover have "stored h c md s' chunks start"
      using ch(3,4) dead by (cases "w_initd ?w") (auto simp: stored_def)
    ultimately show ?thesis
      using ch cur nb own n(3) by (auto simp: numbered_def same_owner_def intro!: exI [of _ chunks])
  qed
  moreover have "list_all item_ok log" using inv by (simp add: trace_inv_def)
  ultimately show ?thesis using n tid nb dp' by (simp add: trace_inv_def)
qed

text \<open>An entry placed and filled in: it joins the current chunk, or it opens the next one.\<close>

lemma append_entry_inv:
  assumes c: "usable c" and inv: "trace_inv h c md th s log" and dp: "deep_ok c th" and i: "t_initd th"
    and pl: "placed t ptr fresh th th1 p pre junk post" and fe: "file_effect h c fresh (t_writer th) s s'"
    and n: "thread_inv h th1" "same_stack th th1" "t_initd th1" and mv: "writer_moved c fresh (t_writer th) (t_writer th1)"
    and t: "is_type_valid t" "length vs = field_count t"
  obtains th2 where "store_fields (unat p + 8) vs th1 = Inr th2" "same_stack th th2" "t_initd th2" "deep_ok c th2"
    "w_buffer (t_writer th2) \<noteq> None" "trace_inv h c md th2 s' (log @ [\<lparr>l_type = t, l_ptr = ptr, l_fields = vs, l_stack = call_stack th\<rparr>])"
proof -
  let ?w = "t_writer th" and ?i = "\<lparr>l_type = t, l_ptr = ptr, l_fields = vs, l_stack = call_stack th\<rparr>"
  have ti: "thread_inv h th" and tid: "w_tid ?w = h_self_id h md" and mm: "w_buffer ?w \<noteq> None \<Longrightarrow> w_mmapped ?w"
    using inv i by (simp_all add: trace_inv_def)
  have live: "w_initd ?w" "\<not> w_failed ?w" using mv by (simp_all add: writer_moved_def)
  obtain chunks cur start where ch: "log = concat chunks @ cur" "recorded th cur" "w_buffer ?w = None \<longrightarrow> chunks = []"
      "stored h c md s chunks start" "numbered c ?w (length chunks) start"
    using inv live by (auto simp: trace_inv_def)
  obtain th2 where th2: "store_fields (unat p + 8) vs th1 = Inr th2" "thread_inv h th2" "same_stack th th2" "t_initd th2"
      "recorded th2 ((if fresh then [] else cur) @ [?i])"
      "t_writer th2 = (t_writer th1)\<lparr>w_buffer := w_buffer (t_writer th2)\<rparr>" "w_buffer (t_writer th2) \<noteq> None"
    using fill_entry [OF ti ch(2) pl n mv t] by blast
  let ?w2 = "t_writer th2"
  have w2: "w_tid ?w2 = w_tid (t_writer th1)" "w_size ?w2 = w_size (t_writer th1)" "w_mmapped ?w2 = w_mmapped (t_writer th1)"
      "w_enumerator ?w2 = w_enumerator (t_writer th1)"
    by (subst th2(6), simp)+
  note m = mv [unfolded writer_moved_def same_owner_def]
  have mapped: "w_mmapped ?w2" using m w2(3) mm c by auto
  have tid2: "w_tid ?w2 = h_self_id h md" using m w2(1) tid by simp
  have dp2: "deep_ok c th2" using dp m w2(2) th2(3) by (auto simp: deep_ok_def same_stack_def)
  have "\<exists>chunks cur start. log @ [?i] = concat chunks @ cur \<and> recorded th2 cur \<and>
      stored h c md s' chunks start \<and> numbered c ?w2 (length chunks) start"
  proof (cases fresh)
    case False
    then have "s' = s" "w_enumerator ?w2 = w_enumerator ?w" "w_buffer ?w \<noteq> None" using fe m w2 by (auto simp: file_effect_def)
    then show ?thesis
      using ch th2(5) False by (intro exI [of _ chunks] exI [of _ "cur @ [?i]"] exI [of _ start]) (simp add: numbered_def)
  next
    case fr: True
    show ?thesis
    proof (cases "w_buffer ?w")
      case None
      then have "log = []" using ch by (simp add: recorded_def)
      then show ?thesis
        using th2(5) fr
        by (intro exI [of _ "[]"] exI [of _ "[?i]"] exI [of _ "w_enumerator ?w2"]) (simp add: stored_def numbered_def)
    next
      case (Some b)
      then have s': "node_at s' = (node_at s)(own_name h c md (w_enumerator ?w) \<mapsto> Reg (fragment_file h ?w))"
        and en: "w_enumerator ?w2 = (w_enumerator ?w + 1) mod max_file_count c"
        using fe fr m w2(4) mm name_of_own [of ?w h md c] tid by (auto simp: file_effect_def own_name_def)
      have b: "w_buffer ?w \<noteq> None" using Some by simp
      have "stored h c md s' (chunks @ [cur]) start"
        by (rule stored_next [OF ch(4,5) b fragment_file_of [OF ti ch(2) Some mm [OF b]] s'])
      moreover have "numbered c ?w2 (length (chunks @ [cur])) start"
        using numbered_next [OF ch(5) b en] by simp
      ultimately show ?thesis
        using ch(1) th2(5) fr by (intro exI [of _ "chunks @ [cur]"] exI [of _ "[?i]"] exI [of _ start]) simp
    qed
  qed
  moreover have "list_all item_ok (log @ [?i])" using inv t by (simp add: trace_inv_def item_ok_def)
  ultimately have "trace_inv h c md th2 s' (log @ [?i])"
    using th2 tid2 mapped by (auto simp: trace_inv_def)
  then show thesis using that th2 dp2 by blast
qed

section \<open>Subscribers\<close>

definition holds :: "host \<Rightarrow> config \<Rightarrow> u64 \<Rightarrow> ctx \<Rightarrow> bool" where
  "holds h c md x \<longleftrightarrow> trace_inv h c md (x_thread x) (x_os x) (x_log x) \<and> deep_ok c (x_thread x)"

definition keeps :: "host \<Rightarrow> config \<Rightarrow> u64 \<Rightarrow> (ctx \<Rightarrow> ctx res) \<Rightarrow> bool" where
  "keeps h c md f \<longleftrightarrow> (\<forall>x x'. holds h c md x \<longrightarrow> f x = Inr x' \<longrightarrow> holds h c md x')"

text \<open>
  A subscriber returns when writes make progress and, for a thread without a buffer, there are fewer
  files than attempts at a free name.
\<close>

definition ready :: "host \<Rightarrow> config \<Rightarrow> ctx \<Rightarrow> bool" where
  "ready h c x \<longleftrightarrow> max_file_count c \<noteq> 0 \<and> env_live h (12 + comp_capacity (zero_writer\<lparr>w_size := trace_size c\<rparr>)) \<and>
     ev_fuel (h_env h) \<le> 2 ^ 32 \<and> (w_buffer (t_writer (x_thread x)) = None \<longrightarrow> length (fs (x_os x)) < ev_fuel (h_env h))"

definition runs :: "host \<Rightarrow> config \<Rightarrow> u64 \<Rightarrow> (ctx \<Rightarrow> ctx res) \<Rightarrow> bool" where
  "runs h c md f \<longleftrightarrow> (\<forall>x. holds h c md x \<longrightarrow> ready h c x \<longrightarrow> (\<exists>x'. f x = Inr x'))"

text \<open>The rest of a subscriber behind an append: it fills in the entry before anything else.\<close>

definition fills :: "host \<Rightarrow> config \<Rightarrow> u64 \<Rightarrow> u8 \<Rightarrow> u64 \<Rightarrow> (u64 \<Rightarrow> ctx \<Rightarrow> ctx res) \<Rightarrow> bool" where
  "fills h c md t val k \<longleftrightarrow> is_type_valid t \<and> (\<forall>e x. t_initd (x_thread x) \<longrightarrow>
     (\<exists>vs g f. length vs = field_count t \<and> keeps h c md f \<and> runs h c md f \<and>
        k e x = bindR (set_fields t val e vs (x\<lparr>x_globals := g\<rparr>)) f))"

lemma holds_globals [simp]: "holds h c md (x\<lparr>x_globals := g\<rparr>) = holds h c md x"
  by (simp add: holds_def)

lemma deep_ok_get: "thread_inv h th \<Longrightarrow> deep_ok c th \<Longrightarrow> deep_ok c (get_coldtrace_thread h md th)"
  by (auto simp: deep_ok_def get_coldtrace_thread_def thread_inv_def)

lemma holds_inv: "holds h c md x \<Longrightarrow> thread_inv h (x_thread x)"
  by (simp add: holds_def trace_inv_def)

lemma holds_get: "holds h c md x \<Longrightarrow> holds h c md (x\<lparr>x_thread := get_coldtrace_thread h md (x_thread x)\<rparr>)"
  using trace_inv_get deep_ok_get [OF holds_inv] by (simp add: holds_def)

lemma keeps_Inr [simp]: "keeps h c md Inr"
  by (simp add: keeps_def)

lemma fillsD:
  assumes "fills h c md t val k" "t_initd (x_thread x)"
  obtains vs g f where "length vs = field_count t" "keeps h c md f" "runs h c md f"
    "k e x = bindR (set_fields t val e vs (x\<lparr>x_globals := g\<rparr>)) f"
  using assms unfolding fills_def by blast

lemma runs_Inr [simp]: "runs h c md Inr"
  by (simp add: runs_def)

lemma append_result:
  assumes c: "usable c" and v: "is_type_valid t" and x: "holds h c md x"
    and ap: "coldtrace_thread_append h c md t val (x_thread x) (x_os x) = Inr (r, th, s)"
  obtains (none) "r = None" "holds h c md (x\<lparr>x_thread := th, x_os := s\<rparr>)"
  | (some) e where "r = Some e" "t_initd th"
      "\<And>n. node_at s (own_name h c md n) = Some Dir \<Longrightarrow> node_at (x_os x) (own_name h c md n) = Some Dir"
      "\<And>vs g. length vs = field_count t \<Longrightarrow>
        \<exists>th2. set_fields t val e vs (x\<lparr>x_thread := th, x_os := s, x_globals := g\<rparr>) =
            Inr (x\<lparr>x_thread := th2, x_os := s, x_globals := g,
              x_log := x_log x @ [\<lparr>l_type = t, l_ptr = val, l_fields = vs, l_stack = call_stack (x_thread x)\<rparr>]\<rparr>) \<and>
          holds h c md (x\<lparr>x_thread := th2, x_os := s, x_globals := g,
              x_log := x_log x @ [\<lparr>l_type = t, l_ptr = val, l_fields = vs, l_stack = call_stack (x_thread x)\<rparr>]\<rparr>) \<and>
          w_buffer (t_writer th2) \<noteq> None \<and> same_stack (x_thread x) th2"
proof -
  let ?th = "get_coldtrace_thread h md (x_thread x)"
  have inv: "trace_inv h c md ?th (x_os x) (x_log x)" "deep_ok c ?th" and ti: "thread_inv h (x_thread x)"
    using holds_get [OF x] x by (auto simp: holds_def trace_inv_def)
  have room: "room c t (x_thread x)" using deep_room [of c "x_thread x" t] x v by (simp add: holds_def)
  show thesis
    using ti usable_path_ok [OF c] room ap
  proof (cases rule: append_cases)
    case dropped
    then show ?thesis using inv by (intro none) (auto simp: holds_def)
  next
    case null
    have "trace_inv h c md th s (x_log x) \<and> deep_ok c th"
      by (rule append_null_inv [OF inv]) (use null in \<open>auto simp: same_stack_def\<close>)
    then show ?thesis using null by (intro none) (auto simp: holds_def)
  next
    case (entry p pre junk post fresh)
    have ss: "same_stack ?th th" using entry by (simp add: same_stack_def)
    show ?thesis
    proof (rule some [OF entry(1,8)])
      fix n assume "node_at s (own_name h c md n) = Some Dir"
      then show "node_at (x_os x) (own_name h c md n) = Some Dir"
        using entry(5) by (auto simp: file_effect_def created_only_def split: if_splits)
    next
      fix vs :: "u64 list" and g assume vs: "length vs = field_count t"
      let ?i = "\<lparr>l_type = t, l_ptr = val, l_fields = vs, l_stack = call_stack (x_thread x)\<rparr>"
      obtain th2 where th2: "store_fields (unat p + 8) vs th = Inr th2" "same_stack ?th th2" "deep_ok c th2"
          "w_buffer (t_writer th2) \<noteq> None"
          "trace_inv h c md th2 s (x_log x @ [\<lparr>l_type = t, l_ptr = val, l_fields = vs, l_stack = call_stack ?th\<rparr>])"
        by (rule append_entry_inv [OF c inv _ entry(4,5,6) ss entry(8,9) v vs]) (simp, rule that)
      have "call_stack th2 = call_stack (x_thread x)" "same_stack (x_thread x) th2"
        using same_stackD [OF th2(2)] th2(2) by (simp_all add: same_stack_def)
      then show "\<exists>th2. set_fields t val p vs (x\<lparr>x_thread := th, x_os := s, x_globals := g\<rparr>) =
            Inr (x\<lparr>x_thread := th2, x_os := s, x_globals := g, x_log := x_log x @ [?i]\<rparr>) \<and>
          holds h c md (x\<lparr>x_thread := th2, x_os := s, x_globals := g, x_log := x_log x @ [?i]\<rparr>) \<and>
          w_buffer (t_writer th2) \<noteq> None \<and> same_stack (x_thread x) th2"
        using th2(1,3-5) by (intro exI [of _ th2]) (simp add: set_fields_def holds_def)
    qed
  qed
qed

lemma keeps_append:
  assumes c: "usable c" and k: "fills h c md t val k"
  shows "keeps h c md (append_or_return h c md t val k)"
  unfolding keeps_def
proof (intro allI impI)
  fix x x' assume x: "holds h c md x" and run: "append_or_return h c md t val k x = Inr x'"
  have v: "is_type_valid t" using k by (simp add: fills_def)
  obtain r th s where ap: "coldtrace_thread_append h c md t val (x_thread x) (x_os x) = Inr (r, th, s)"
    and rest: "(case r of None \<Rightarrow> Inr (x\<lparr>x_thread := th, x_os := s\<rparr>) | Some e \<Rightarrow> k e (x\<lparr>x_thread := th, x_os := s\<rparr>)) = Inr x'"
    using run by (auto simp: append_or_return_def Let_def)
  show "holds h c md x'"
    using c v x ap
  proof (cases rule: append_result)
    case none
    then show ?thesis using rest by simp
  next
    case (some e)
    let ?x = "x\<lparr>x_thread := th, x_os := s\<rparr>"
    have i: "t_initd (x_thread ?x)" using some(2) by simp
    obtain vs g f where f: "length vs = field_count t" "keeps h c md f" "k e ?x = bindR (set_fields t val e vs (?x\<lparr>x_globals := g\<rparr>)) f"
      by (rule fillsD [OF k i, of e])
    obtain x2 where "set_fields t val e vs (?x\<lparr>x_globals := g\<rparr>) = Inr x2" "holds h c md x2" using some(4) [OF f(1), of g] by auto
    then show ?thesis using rest some(1) f(2,3) by (auto simp: keeps_def)
  qed
qed

lemma runs_append:
  assumes c: "usable c" and k: "fills h c md t val k"
  shows "runs h c md (append_or_return h c md t val k)"
  unfolding runs_def
proof (intro allI impI)
  fix x assume x: "holds h c md x" and rd: "ready h c x"
  let ?th = "get_coldtrace_thread h md (x_thread x)"
  have v: "is_type_valid t" using k by (simp add: fills_def)
  have ti: "thread_inv h (x_thread x)" using x by (rule holds_inv)
  have room: "room c t (x_thread x)" using deep_room [of c "x_thread x" t] x v by (simp add: holds_def)
  have cap: "env_live h (12 + comp_capacity w)" if "w_size w = trace_size c" for w
    using rd that by (simp add: ready_def comp_capacity_def)
  have sz: "w_buffer (t_writer ?th) \<noteq> None \<longrightarrow> w_size (t_writer ?th) = trace_size c"
    using holds_get [OF x] by (simp add: holds_def deep_ok_def)
  have "w_buffer (t_writer ?th) = None \<longrightarrow> w_buffer (t_writer (x_thread x)) = None"
    by (simp add: get_coldtrace_thread_def) (use ti in \<open>auto simp: thread_inv_def\<close>)
  then have "\<exists>r. coldtrace_writer_reserve h c n (t_writer ?th) (x_os x) = Inr r" for n
    using rd sz get_thread_inv(1) [OF ti] usable_path_ok [OF c]
    by (intro reserve_total) (auto simp: ready_def inv_writer intro!: cap)
  then obtain r th s where ap: "coldtrace_thread_append h c md t val (x_thread x) (x_os x) = Inr (r, th, s)"
    using append_returns [OF ti usable_path_ok [OF c] room] by (metis surj_pair)
  show "\<exists>x'. append_or_return h c md t val k x = Inr x'"
    using c v x ap
  proof (cases rule: append_result)
    case none
    then show ?thesis using ap by (simp add: append_or_return_def Let_def)
  next
    case (some e)
    let ?x = "x\<lparr>x_thread := th, x_os := s\<rparr>"
    have i: "t_initd (x_thread ?x)" using some(2) by simp
    obtain vs g f where f: "length vs = field_count t" "runs h c md f" "k e ?x = bindR (set_fields t val e vs (?x\<lparr>x_globals := g\<rparr>)) f"
      by (rule fillsD [OF k i, of e])
    obtain x2 where x2: "set_fields t val e vs (?x\<lparr>x_globals := g\<rparr>) = Inr x2" "holds h c md x2" "w_buffer (t_writer (x_thread x2)) \<noteq> None"
      using some(4) [OF f(1), of g] by fastforce
    moreover have "ready h c x2" using rd x2(3) by (auto simp: ready_def)
    ultimately show ?thesis using some(1) f(2,3) ap by (auto simp: runs_def append_or_return_def Let_def)
  qed
qed

lemma keepsI: "(\<And>x x'. holds h c md x \<Longrightarrow> f x = Inr x' \<Longrightarrow> holds h c md x') \<Longrightarrow> keeps h c md f"
  by (simp add: keeps_def)

lemma keepsD: "keeps h c md f \<Longrightarrow> holds h c md x \<Longrightarrow> f x = Inr x' \<Longrightarrow> holds h c md x'"
  by (simp add: keeps_def)

lemma ready_globals [simp]: "ready h c (x\<lparr>x_globals := g\<rparr>) = ready h c x"
  by (simp add: ready_def)

text \<open>A subscriber that returns and keeps the invariant.\<close>

definition good :: "host \<Rightarrow> config \<Rightarrow> u64 \<Rightarrow> (ctx \<Rightarrow> ctx res) \<Rightarrow> bool" where
  "good h c md f \<longleftrightarrow> keeps h c md f \<and> runs h c md f"

lemma good_keeps: "good h c md f \<Longrightarrow> keeps h c md f"
  by (simp add: good_def)

lemma good_Inr: "good h c md Inr"
  by (simp add: good_def)

lemma good_append: "usable c \<Longrightarrow> fills h c md t val k \<Longrightarrow> good h c md (append_or_return h c md t val k)"
  by (simp add: good_def keeps_append runs_append)

lemma good_when_ok: "good h c md f \<Longrightarrow> good h c md (when_ok ret f)"
  by (cases "ret = 0") (simp_all add: good_def keeps_def runs_def when_ok_def)

text \<open>Work on the counters and lock areas alone, before a subscriber that does not look at them.\<close>

lemma good_globals:
  assumes "\<And>x. \<exists>g i. f x = k i (x\<lparr>x_globals := g\<rparr>)" "\<And>i. good h c md (k i)"
  shows "good h c md f"
proof -
  have "holds h c md x'" if "holds h c md x" "f x = Inr x'" for x x'
    using assms(1) [of x] keepsD [OF good_keeps [OF assms(2)], of "x\<lparr>x_globals := g\<rparr>" for g] that by auto
  moreover have "\<exists>x'. f x = Inr x'" if "holds h c md x" "ready h c x" for x
  proof -
    obtain g i where "f x = k i (x\<lparr>x_globals := g\<rparr>)" using assms(1) by blast
    then show ?thesis using assms(2) [of i] that by (simp add: good_def runs_def)
  qed
  ultimately show ?thesis by (simp add: good_def keeps_def runs_def)
qed

lemma good_draw_atomic: "(\<And>i. good h c md (k i)) \<Longrightarrow> good h c md (draw_atomic h k)"
  by (rule good_globals [where k = k]) (auto simp: draw_atomic_def Let_def split: prod.splits)

lemma bindR_right [simp]: "bindR m Inr = m"
  by (cases m) simp_all

lemma fillsI:
  assumes "is_type_valid t" "\<And>e x. t_initd (x_thread x) \<Longrightarrow> \<exists>vs g f. length vs = field_count t \<and> good h c md f \<and>
    k e x = bindR (set_fields t val e vs (x\<lparr>x_globals := g\<rparr>)) f"
  shows "fills h c md t val k"
  using assms unfolding fills_def good_def by blast

lemma fills_then:
  assumes "is_type_valid t" "length vs = field_count t" "good h c md f"
  shows "fills h c md t val (\<lambda>e x. bindR (set_fields t val e vs x) f)"
proof (rule fillsI [OF assms(1)])
  fix e and x :: ctx
  have "bindR (set_fields t val e vs x) f = bindR (set_fields t val e vs (x\<lparr>x_globals := x_globals x\<rparr>)) f" by simp
  then show "\<exists>vs' g f'. length vs' = field_count t \<and> good h c md f' \<and>
      bindR (set_fields t val e vs x) f = bindR (set_fields t val e vs' (x\<lparr>x_globals := g\<rparr>)) f'"
    using assms(2,3) by blast
qed

lemma fills_set: "is_type_valid t \<Longrightarrow> length vs = field_count t \<Longrightarrow> fills h c md t val (\<lambda>e. set_fields t val e vs)"
  using fills_then [OF _ _ good_Inr, of t vs h c md val] by simp

lemma fills_draw_atomic:
  assumes "is_type_valid t" "\<And>i. length (vs i) = field_count t"
  shows "fills h c md t val (\<lambda>e. draw_atomic h (\<lambda>i. set_fields t val e (vs i)))"
proof (rule fillsI [OF assms(1)])
  fix e and x :: ctx
  obtain i g where "coldtrace_next_atomic_idx h (x_globals x) = (i, g)" by (metis surj_pair)
  then have "draw_atomic h (\<lambda>i. set_fields t val e (vs i)) x = bindR (set_fields t val e (vs i) (x\<lparr>x_globals := g\<rparr>)) Inr"
    by (simp add: draw_atomic_def)
  then show "\<exists>vs' g f. length vs' = field_count t \<and> good h c md f \<and>
      draw_atomic h (\<lambda>i. set_fields t val e (vs i)) x = bindR (set_fields t val e vs' (x\<lparr>x_globals := g\<rparr>)) f"
    using assms(2) good_Inr by blast
qed

lemma fills_draw_alloc:
  assumes "is_type_valid t" "\<And>i. length (vs i) = field_count t"
  shows "fills h c md t val (\<lambda>e. draw_alloc h (\<lambda>i. set_fields t val e (vs i)))"
proof (rule fillsI [OF assms(1)])
  fix e and x :: ctx
  obtain i g where "coldtrace_next_alloc_idx h (x_globals x) = (i, g)" by (metis surj_pair)
  then have "draw_alloc h (\<lambda>i. set_fields t val e (vs i)) x = bindR (set_fields t val e (vs i) (x\<lparr>x_globals := g\<rparr>)) Inr"
    by (simp add: draw_alloc_def)
  then show "\<exists>vs' g f. length vs' = field_count t \<and> good h c md f \<and>
      draw_alloc h (\<lambda>i. set_fields t val e (vs i)) x = bindR (set_fields t val e vs' (x\<lparr>x_globals := g\<rparr>)) f"
    using assms(2) good_Inr by blast
qed

lemma fills_create:
  assumes "is_type_valid t" "field_count t = 1"
  shows "fills h c md t val (\<lambda>e x. case coldtrace_thread_get_create_idx h md (x_thread x) of
           (i, th) \<Rightarrow> set_fields t val e [i] (x\<lparr>x_thread := th\<rparr>))"
proof (rule fillsI [OF assms(1)])
  fix e and x :: ctx assume "t_initd (x_thread x)"
  then have "(case coldtrace_thread_get_create_idx h md (x_thread x) of (i, th) \<Rightarrow> set_fields t val e [i] (x\<lparr>x_thread := th\<rparr>))
      = bindR (set_fields t val e [t_created_thread_idx (x_thread x)] (x\<lparr>x_globals := x_globals x\<rparr>)) Inr"
    by (simp add: coldtrace_thread_get_create_idx_def get_coldtrace_thread_def Let_def)
  then show "\<exists>vs g f. length vs = field_count t \<and> good h c md f \<and>
      (case coldtrace_thread_get_create_idx h md (x_thread x) of (i, th) \<Rightarrow> set_fields t val e [i] (x\<lparr>x_thread := th\<rparr>))
        = bindR (set_fields t val e vs (x\<lparr>x_globals := g\<rparr>)) f"
    using assms(2) good_Inr by (metis One_nat_def length_Cons list.size(3))
qed

lemma recorded_idx [simp]: "recorded (th\<lparr>t_created_thread_idx := i\<rparr>) is = recorded th is"
  by (simp add: recorded_def call_stack_def)

lemma holds_set_idx: "holds h c md x \<Longrightarrow> holds h c md (x\<lparr>x_thread := (x_thread x)\<lparr>t_created_thread_idx := i\<rparr>\<rparr>)"
  by (simp add: holds_def trace_inv_def deep_ok_def thread_inv_def stack_ok_def)

lemma good_set_create_idx: "good h c md (\<lambda>x. Inr (x\<lparr>x_thread := coldtrace_thread_set_create_idx h md i (x_thread x)\<rparr>))"
  using holds_set_idx [OF holds_get] by (fastforce simp: good_def runs_def keeps_def coldtrace_thread_set_create_idx_def)

lemma holds_release [simp]: "holds h c md (release_area h addr x) = holds h c md x"
  by (simp add: release_area_def Let_def)

lemma keeps_acquire: "keeps h c md (FETCH_STACK_ACQ h addr)"
  by (auto simp: keeps_def FETCH_STACK_ACQ_def Let_def split: option.splits prod.splits)

lemmas kind_simps = is_type_valid_def field_count_def base_type_def Let_def entry_consts

lemma good_log_access:
  "usable c \<Longrightarrow> is_type_valid t \<Longrightarrow> field_count t = 2 \<Longrightarrow> good h c md (log_access h c md t val sz pc)"
  unfolding log_access_def by (intro good_append fills_set) simp_all

lemma good_log_alloc:
  "usable c \<Longrightarrow> is_type_valid t \<Longrightarrow> field_count t = 3 \<Longrightarrow> good h c md (log_alloc h c md t val sz pc)"
  unfolding log_alloc_def by (intro good_append fills_draw_alloc) simp_all

lemma good_log_free: "usable c \<Longrightarrow> good h c md (log_free h c md val pc)"
  unfolding log_free_def by (intro good_append fills_draw_alloc) (simp_all add: kind_simps)

lemma good_log_atomic:
  "usable c \<Longrightarrow> is_type_valid t \<Longrightarrow> field_count t = 1 \<Longrightarrow> good h c md (log_atomic h c md t val)"
  unfolding log_atomic_def by (intro good_append fills_draw_atomic) simp_all

lemma good_log_atomic_access:
  "usable c \<Longrightarrow> is_type_valid t \<Longrightarrow> field_count t = 2 \<Longrightarrow> good h c md f \<Longrightarrow>
   good h c md (log_atomic_access h c md t addr sz idx f)"
  unfolding log_atomic_access_def by (intro good_append fills_then) simp_all

lemma release_globals: "\<exists>g. release_area h addr (x\<lparr>x_globals := g0\<rparr>) = x\<lparr>x_globals := g\<rparr>" "\<exists>g. release_area h addr x = x\<lparr>x_globals := g\<rparr>"
  by (auto simp: release_area_def Let_def)

lemma good_releases:
  assumes "usable c"
  shows "good h c md (REL_LOG_R h c md addr sz)"
    and "good h c md (REL_LOG_W h c md addr sz)"
    and "good h c md (REL_LOG_RW h c md addr sz)"
    and "good h c md (REL_LOG_RW_COND h c md addr sz ok)"
    and "good h c md (REL_LOG_FENCE h c md addr)"
proof -
  have r: "good h c md f \<Longrightarrow> good h c md (log_atomic_access h c md COLDTRACE_ATOMIC_READ addr sz idx f)"
    and w: "good h c md f \<Longrightarrow> good h c md (log_atomic_access h c md COLDTRACE_ATOMIC_WRITE addr sz idx f)" for idx f
    by (rule good_log_atomic_access [OF assms], simp_all add: kind_simps)+
  have f: "good h c md (append_or_return h c md COLDTRACE_FENCE addr (\<lambda>e. set_fields COLDTRACE_FENCE addr e [idx]))" for idx
    using assms by (intro good_append fills_set) (simp_all add: kind_simps)
  show "good h c md (REL_LOG_R h c md addr sz)"
    by (rule good_globals [where k = "\<lambda>i. log_atomic_access h c md COLDTRACE_ATOMIC_READ addr sz i Inr", OF _ r [OF good_Inr]]) (metis REL_LOG_R_def release_globals(2))
  show "good h c md (REL_LOG_W h c md addr sz)"
    by (rule good_globals [where k = "\<lambda>i. log_atomic_access h c md COLDTRACE_ATOMIC_WRITE addr sz i Inr", OF _ w [OF good_Inr]]) (metis REL_LOG_W_def release_globals(2))
  show "good h c md (REL_LOG_FENCE h c md addr)"
    by (rule good_globals [where k = "\<lambda>i. append_or_return h c md COLDTRACE_FENCE addr (\<lambda>e. set_fields COLDTRACE_FENCE addr e [i])", OF _ f]) (metis REL_LOG_FENCE_def release_globals(2))
  have rw: "good h c md (log_atomic_access h c md COLDTRACE_ATOMIC_READ addr sz (fst ij)
      (log_atomic_access h c md COLDTRACE_ATOMIC_WRITE addr sz (snd ij) Inr))" for ij
    by (intro r w good_Inr)
  show "good h c md (REL_LOG_RW h c md addr sz)"
  proof (rule good_globals [where k = "\<lambda>ij. log_atomic_access h c md COLDTRACE_ATOMIC_READ addr sz (fst ij)
      (log_atomic_access h c md COLDTRACE_ATOMIC_WRITE addr sz (snd ij) Inr)", OF _ rw])
    fix x show "\<exists>g ij. REL_LOG_RW h c md addr sz x = log_atomic_access h c md COLDTRACE_ATOMIC_READ addr sz (fst ij)
      (log_atomic_access h c md COLDTRACE_ATOMIC_WRITE addr sz (snd ij) Inr) (x\<lparr>x_globals := g\<rparr>)"
    proof -
      obtain j g0 where d: "coldtrace_next_atomic_idx h (x_globals x) = (j, g0)" by (metis surj_pair)
      obtain g where "release_area h addr (x\<lparr>x_globals := g0\<rparr>) = x\<lparr>x_globals := g\<rparr>" using release_globals(1) by blast
      with d show ?thesis
        by (intro exI [of _ g] exI [of _ "(area_idx addr x, j)"]) (simp add: REL_LOG_RW_def draw_atomic_def Let_def)
    qed
  qed
  have cond: "good h c md (log_atomic_access h c md COLDTRACE_ATOMIC_READ addr sz (fst ij)
      (\<lambda>x. if ok then log_atomic_access h c md COLDTRACE_ATOMIC_WRITE addr sz (snd ij) Inr x else Inr x))" for ij
    using r w [OF good_Inr] good_Inr by (cases ok) simp_all
  show "good h c md (REL_LOG_RW_COND h c md addr sz ok)"
  proof (rule good_globals [where k = "\<lambda>ij. log_atomic_access h c md COLDTRACE_ATOMIC_READ addr sz (fst ij)
      (\<lambda>x. if ok then log_atomic_access h c md COLDTRACE_ATOMIC_WRITE addr sz (snd ij) Inr x else Inr x)", OF _ cond])
    fix x show "\<exists>g ij. REL_LOG_RW_COND h c md addr sz ok x = log_atomic_access h c md COLDTRACE_ATOMIC_READ addr sz (fst ij)
      (\<lambda>x. if ok then log_atomic_access h c md COLDTRACE_ATOMIC_WRITE addr sz (snd ij) Inr x else Inr x) (x\<lparr>x_globals := g\<rparr>)"
    proof -
      obtain j g0 where d: "(if ok then coldtrace_next_atomic_idx h (x_globals x) else (0, x_globals x)) = (j, g0)"
        by (metis surj_pair)
      obtain g where "release_area h addr (x\<lparr>x_globals := g0\<rparr>) = x\<lparr>x_globals := g\<rparr>" using release_globals(1) by blast
      then show ?thesis
        unfolding REL_LOG_RW_COND_def d
        by (intro exI [of _ g] exI [of _ "(area_idx addr (x\<lparr>x_globals := g0\<rparr>), j)"]) (simp add: Let_def cong: if_cong)
    qed
  qed
qed

lemma good_plain:
  assumes "subscriber h c md ph f" "usable c" "ph = Plain \<or> ph = Release a"
  shows "good h c md f"
  using assms
  by (cases rule: subscriber.cases)
     (simp_all add: handler_defs good_log_access good_log_alloc good_log_free good_log_atomic good_when_ok
        good_releases good_draw_atomic good_set_create_idx good_append fills_create fills_set
        read_type_def is_type_valid_def field_count_def base_type_def Let_def entry_consts)

lemma keeps_plain:
  assumes "subscriber h c md ph f" "usable c" "ph = Plain \<or> ph = Acquire a \<or> ph = Release a"
  shows "keeps h c md f"
proof (cases "ph = Acquire a")
  case True
  with assms(1) show ?thesis by (cases rule: subscriber.cases) (simp_all add: handler_defs keeps_acquire)
next
  case False
  then show ?thesis using good_plain [OF assms(1,2)] assms(3) good_keeps by blast
qed

section \<open>Function entry and exit, start and end of the thread\<close>

lemma stored_same: "stored h c md s chunks start \<Longrightarrow> fs s' = fs s \<Longrightarrow> stored h c md s' chunks start"
  by (simp add: stored_def node_at_def)

lemma trace_inv_stack:
  assumes inv: "trace_inv h c md th s log" and i: "t_initd th" "t_initd th'" and w: "t_writer th' = t_writer th"
    and st: "stack_ok th'" "t_stack_bottom th' \<le> t_stack_bottom th"
      "take (unat (t_stack_bottom th')) (call_stack th') = take (unat (t_stack_bottom th')) (call_stack th)"
    and f: "fs s' = fs s"
  shows "trace_inv h c md th' s' log"
proof -
  have "recorded th' is" if r: "recorded th is" for "is"
  proof (cases "w_buffer (t_writer th) = None")
    case True
    then show ?thesis using r w by (simp add: recorded_def)
  next
    case False
    let ?n = "unat (t_stack_bottom th')" and ?m = "unat (t_stack_bottom th)"
    obtain es stk where e: "encodes [] is es stk" "entries_of (t_writer th) = concat (map entry_bytes es)"
        "?m \<le> length stk" "take ?m stk = take ?m (call_stack th)"
      using r False by (auto simp: recorded_def)
    have le: "?n \<le> ?m" using st(2) by (simp add: word_le_nat_alt)
    have "take ?n (take ?m stk) = take ?n (take ?m (call_stack th))" using e(4) by simp
    then have tk: "take ?n stk = take ?n (call_stack th')" using le st(3) by (simp add: min_absorb1)
    show ?thesis by (rule recordedI [OF _ e(1) _ _ tk]) (use e le w False in simp_all)
  qed
  then have "w_failed (t_writer th) \<or> (\<exists>chunks cur start. log = concat chunks @ cur \<and> recorded th' cur \<and>
         (w_buffer (t_writer th) = None \<and> (w_initd (t_writer th) \<or> \<not> t_initd th) \<longrightarrow> chunks = []) \<and>
         stored h c md s' chunks start \<and> numbered c (t_writer th) (length chunks) start)"
    using inv stored_same [OF _ f] i unfolding trace_inv_def by metis
  moreover have "t_stack_bottom th' = 0" if "t_stack_bottom th = 0" using st(2) that by simp
  ultimately show ?thesis
    using inv i st(1) by (auto simp: trace_inv_def thread_inv_def w)
qed

lemma frame_inv:
  assumes "subscriber h c md Frame f" "trace_inv h c md (x_thread x) (x_os x) (x_log x)" "growable (x_thread x)" "f x = Inr x'"
  shows "trace_inv h c md (x_thread x') (x_os x') (x_log x')"
proof -
  let ?th = "get_coldtrace_thread h md (x_thread x)"
  have inv: "trace_inv h c md ?th (x_os x) (x_log x)" using assms(2) by (rule trace_inv_get)
  have so: "stack_ok (x_thread x)" using assms(2) by (simp add: trace_inv_def thread_inv_def)
  have len: "unat (t_stack_bottom (x_thread x)) \<le> length (call_stack (x_thread x))"
    using so length_call_stack [OF so] by (simp add: stack_ok_def word_le_nat_alt)
  from assms(1) show ?thesis
  proof cases
    case (53 pc)
    obtain th s where p: "coldtrace_thread_stack_push h md pc (x_thread x) (x_os x) = Inr (th, s)"
        "x' = x\<lparr>x_thread := th, x_os := s\<rparr>"
      using assms(4) 53 by (auto simp: event_stacktrace_enter_def)
    from so assms(3) p(1) have "trace_inv h c md th s (x_log x)"
      by (cases rule: stack_push_cases) (rule trace_inv_stack [OF inv], use len in simp_all)+
    then show ?thesis using p(2) by simp
  next
    case 54
    let ?t = "coldtrace_thread_stack_pop h md (x_thread x)"
    have x': "x' = x\<lparr>x_thread := ?t\<rparr>" using assms(4) 54 by (simp add: event_stacktrace_exit_def)
    have "trace_inv h c md ?t (x_os x) (x_log x)"
    proof (cases "t_failed (x_thread x)")
      case True
      then show ?thesis using inv by (simp add: coldtrace_thread_stack_pop_def)
    next
      case False
      note p = stack_pop_ok [OF so False, where h = h and md = md]
      have "unat (t_stack_bottom ?t) \<le> length (call_stack ?t)"
        using p(1) length_call_stack [OF p(1)] by (simp add: stack_ok_def word_le_nat_alt)
      then show ?thesis
        using p by (intro trace_inv_stack [OF inv]) (simp_all add: butlast_conv_take)
    qed
    then show ?thesis using x' by simp
  qed
qed


definition unused :: "coldtrace_thread \<Rightarrow> logged list \<Rightarrow> bool" where
  "unused th log \<longleftrightarrow> log = [] \<and> w_buffer (t_writer th) = None \<and> t_stack_bottom th = 0"

lemma started:
  assumes "holds h c md x" "unused (x_thread x) (x_log x)"
  shows "holds h c md (x\<lparr>x_thread := coldtrace_thread_init h md (x_thread x)\<rparr>)"
proof -
  have "stack_ok (x_thread x)" using holds_inv [OF assms(1)] by (simp add: thread_inv_def)
  then show ?thesis
    using assms
    by (auto simp: holds_def trace_inv_def thread_inv_def stack_ok_def coldtrace_thread_init_def coldtrace_writer_init_def Let_def
          recorded_def stored_def numbered_def unused_def writer_inv_def deep_ok_def intro!: exI [of _ "[]"])
qed

lemma start_eq:
  assumes "subscriber h c md Start f" "usable c"
  obtains k where "good h c md k" "\<And>x. f x = k (x\<lparr>x_thread := coldtrace_thread_init h md (x_thread x)\<rparr>)"
  using assms(1)
proof cases
  case (26 self stackaddr stacksize)
  have "good h c md (append_or_return h c md COLDTRACE_THREAD_START self
       (\<lambda>e. draw_atomic h (\<lambda>i. set_fields COLDTRACE_THREAD_START self e [i, stackaddr, stacksize])))"
    using assms(2) by (intro good_append fills_draw_atomic) (simp_all add: kind_simps)
  then show thesis using 26 by (intro that) (auto simp: event_thread_start_def)
qed

lemma start_inv:
  assumes "subscriber h c md Start f" "usable c" "holds h c md x" "unused (x_thread x) (x_log x)" "f x = Inr x'"
  shows "holds h c md x'"
proof (rule start_eq [OF assms(1,2)])
  fix k assume "good h c md k" "\<And>x. f x = k (x\<lparr>x_thread := coldtrace_thread_init h md (x_thread x)\<rparr>)"
  then show ?thesis using started [OF assms(3,4)] assms(5) keepsD [OF good_keeps] by metis
qed

lemma fini_failed:
  assumes "writer_inv h w" "path_ok c w" "coldtrace_writer_fini h c w s = Inr (w', s')" "w_failed w"
  shows "w_failed w'"
proof (cases "w_buffer w")
  case None
  then show ?thesis using assms(3,4) by (auto simp: coldtrace_writer_fini_def release_buffers_def split: if_splits)
next
  case (Some b)
  then show ?thesis using writer_inv_Some [OF assms(1) Some] assms(4) by (simp add: buffer_ok_def block_ok_def)
qed

lemma keeps_fini:
  assumes "usable c"
  shows "keeps h c md (thread_fini h c md)"
proof (rule keepsI)
  fix x x' assume x: "holds h c md x" and run: "thread_fini h c md x = Inr x'"
  let ?th = "get_coldtrace_thread h md (x_thread x)"
  let ?w = "t_writer ?th"
  have inv: "trace_inv h c md ?th (x_os x) (x_log x)" and i: "t_initd ?th"
    using holds_get [OF x] by (simp_all add: holds_def)
  have ti: "thread_inv h ?th" and tid: "w_tid ?w = h_self_id h md" and mm: "w_buffer ?w \<noteq> None \<Longrightarrow> w_mmapped ?w"
    using inv i by (simp_all add: trace_inv_def)
  obtain w s where w: "coldtrace_writer_fini h c ?w (x_os x) = Inr (w, s)"
    and x': "x' = x\<lparr>x_thread := ?th\<lparr>t_writer := w, t_stack := [], t_stack_size := 0, t_stack_capacity := 0, t_stack_bottom := 0\<rparr>, x_os := s\<rparr>"
    using run by (auto simp: thread_fini_def coldtrace_thread_fini_def Let_def)
  note fe = fini_effect [OF inv_writer [OF ti] usable_path_ok [OF assms] w]
  have "w_failed w \<or> (\<exists>chunks start. x_log x = concat chunks \<and> stored h c md s chunks start)"
  proof (cases "w_failed w")
    case False
    then have nf: "\<not> w_failed ?w" using fini_failed [OF inv_writer [OF ti] usable_path_ok [OF assms] w] by blast
    then obtain chunks cur start where ch: "x_log x = concat chunks @ cur" "recorded ?th cur"
        "stored h c md (x_os x) chunks start" "numbered c ?w (length chunks) start"
      using inv by (auto simp: trace_inv_def)
    show ?thesis
    proof (cases "w_buffer ?w")
      case None
      then show ?thesis using ch fe(6) by (auto simp: recorded_def)
    next
      case (Some b)
      then have b: "w_buffer ?w \<noteq> None" by simp
      have "node_at s = (node_at (x_os x))(own_name h c md (w_enumerator ?w) \<mapsto> Reg (fragment_file h ?w))"
        using fe(6) b mm [OF b] False name_of_own [OF tid, where c = c] by simp
      from stored_next [OF ch(3,4) b fragment_file_of [OF ti ch(2) Some mm [OF b]] this]
      show ?thesis using ch(1) by (metis concat.simps concat_append append_Nil2)
    qed
  qed simp
  moreover have "list_all item_ok (x_log x)" using inv by (simp add: trace_inv_def)
  ultimately have "trace_inv h c md (x_thread x') (x_os x') (x_log x')"
    using fe(1-4) tid i x' by (auto simp: trace_inv_def thread_inv_def stack_ok_def writer_inv_def recorded_def numbered_def)
  then show "holds h c md x'"
    using x x' fe(1) by (simp add: holds_def deep_ok_def)
qed

lemma keeps_finish:
  assumes "subscriber h c md Finish f" "usable c"
  shows "keeps h c md f"
  using assms(1)
proof cases
  case (28 self)
  have "keeps h c md (log_atomic h c md COLDTRACE_THREAD_EXIT self)"
    by (rule good_keeps [OF good_log_atomic [OF assms(2)]]) (simp_all add: kind_simps)
  note exits = keepsD [OF this] and ends = keepsD [OF keeps_fini [OF assms(2)]]
  show ?thesis
  proof (rule keepsI)
    fix x x' assume x: "holds h c md x" and run: "f x = Inr x'"
    show "holds h c md x'"
    proof (cases "h_self_id h md = h_main_thread h")
      case True
      then obtain x1 where "log_atomic h c md COLDTRACE_THREAD_EXIT self x = Inr x1" "thread_fini h c md x1 = Inr x'"
        using run 28 by (auto simp: event_self_fini_def)
      then show ?thesis using exits [OF x] ends by blast
    next
      case False
      then show ?thesis using run 28 ends [OF x] by (simp add: event_self_fini_def)
    qed
  qed
qed

section \<open>Runs\<close>

text \<open>
  What happens to a thread, as it sees it: its own subscribers, and what other threads do to the counters
  and to files that are not its own.  The first event of a thread, if it is the start event, comes before
  it has logged anything; a call does not nest deeper than what fits a fragment.
\<close>

inductive thread_step :: "host \<Rightarrow> config \<Rightarrow> u64 \<Rightarrow> ctx \<Rightarrow> ctx \<Rightarrow> bool" for h c md where
  step_log: "subscriber h c md ph f \<Longrightarrow> ph = Plain \<or> ph = Acquire a \<or> ph = Release a \<or> ph = Finish \<Longrightarrow>
     f x = Inr x' \<Longrightarrow> thread_step h c md x x'"
| step_start: "subscriber h c md Start f \<Longrightarrow> unused (x_thread x) (x_log x) \<Longrightarrow> f x = Inr x' \<Longrightarrow> thread_step h c md x x'"
| step_frame: "subscriber h c md Frame f \<Longrightarrow> growable (x_thread x) \<Longrightarrow> f x = Inr x' \<Longrightarrow> deep_ok c (x_thread x') \<Longrightarrow>
     thread_step h c md x x'"
| step_other: "\<forall>n. node_at s (own_name h c md n) = node_at (x_os x) (own_name h c md n) \<Longrightarrow>
     thread_step h c md x (x\<lparr>x_globals := g, x_os := s\<rparr>)"

definition fresh_thread :: "config \<Rightarrow> ctx \<Rightarrow> bool" where
  "fresh_thread c x \<longleftrightarrow> x_thread x = zero_thread \<and> x_log x = [] \<and> 48 \<le> unat (trace_size c)"

lemma trace_inv_other:
  assumes "trace_inv h c md th s log" "\<forall>n. node_at s' (own_name h c md n) = node_at s (own_name h c md n)"
  shows "trace_inv h c md th s' log"
  using assms by (simp add: trace_inv_def stored_def)

lemma holds_fresh: "fresh_thread c x \<Longrightarrow> holds h c md x"
  by (auto simp: fresh_thread_def holds_def trace_inv_def deep_ok_def thread_inv_def zero_thread_def zero_writer_def stack_ok_def
        writer_inv_def recorded_def stored_def numbered_def intro!: exI [of _ "[]"])

lemma holds_step:
  assumes "usable c" "holds h c md x" "thread_step h c md x x'"
  shows "holds h c md x'"
  using assms(3)
proof cases
  case (step_log ph f a)
  then show ?thesis using keepsD [OF keeps_plain assms(2)] keepsD [OF keeps_finish assms(2)] assms(1) by blast
next
  case (step_start f)
  then show ?thesis using start_inv assms by blast
next
  case (step_frame f)
  then show ?thesis using frame_inv assms(2) by (auto simp: holds_def)
next
  case (step_other s g)
  then show ?thesis using trace_inv_other assms(2) by (auto simp: holds_def)
qed


interpretation thread_system: inv_system "fresh_thread c" "thread_step h c md" "\<lambda>x. usable c \<longrightarrow> holds h c md x" for h c md
  by unfold_locales (auto intro: holds_fresh holds_step)

lemma stored_files:
  assumes "stored h c md s chunks start"
  defines "k \<equiv> length chunks - min (length chunks) (unat (max_file_count c))"
  obtains ffs where "length ffs = min (length chunks) (unat (max_file_count c))"
    "\<forall>j<length ffs. node_at s (own_name h c md (fragment_no (max_file_count c) start (k + j))) = Some (Reg (ffs ! j))"
    "list_all2 (fragment_of (h_version h)) (drop k chunks) ffs"
proof -
  let ?n = "length chunks - k"
  define ffs where "ffs = map (\<lambda>j. SOME f. node_at s (own_name h c md (fragment_no (max_file_count c) start (k + j))) = Some (Reg f)
      \<and> fragment_of (h_version h) (chunks ! (k + j)) f) [0..<?n]"
  have ex: "\<exists>f. node_at s (own_name h c md (fragment_no (max_file_count c) start (k + j))) = Some (Reg f)
      \<and> fragment_of (h_version h) (chunks ! (k + j)) f" if "j < ?n" for j
  proof -
    have "k + j < length chunks" "length chunks \<le> k + j + unat (max_file_count c)" using that by (auto simp: k_def)
    then show ?thesis using assms(1) unfolding stored_def by blast
  qed
  have "node_at s (own_name h c md (fragment_no (max_file_count c) start (k + j))) = Some (Reg (ffs ! j))"
      "fragment_of (h_version h) (chunks ! (k + j)) (ffs ! j)" if "j < ?n" for j
    using someI_ex [OF ex [OF that]] that by (simp_all add: ffs_def)
  moreover have "length ffs = ?n" "?n = min (length chunks) (unat (max_file_count c))" by (simp_all add: ffs_def k_def)
  ultimately show thesis
    using that [of ffs] by (simp add: list_all2_conv_all_nth k_def)
qed

text \<open>The log of a thread that has ended is what the reader finds in its files.\<close>

lemma holds_read_back:
  assumes "holds h c md x" "w_buffer (t_writer (x_thread x)) = None" "\<not> w_failed (t_writer (x_thread x))"
    and "\<forall>blk n out. lz4_decompress blk n = Some out \<longrightarrow> lz4_block blk n = Some out"
    and "version_supported (h_version h)" "LZ4_MAX_INPUT_SIZE \<le> max_size" "\<forall>i\<in>set (x_log x). \<not> zero_free i"
  shows "\<exists>chunks start ffs st'. x_log x = concat chunks \<and> length ffs = min (length chunks) (unat (max_file_count c)) \<and>
     (\<forall>j<length ffs. node_at (x_os x) (own_name h c md
        (fragment_no (max_file_count c) start (length chunks - length ffs + j))) = Some (Reg (ffs ! j))) \<and>
     read_files lz4_block max_size tid ffs [] =
       (map (trace_entry_of tid) (concat (drop (length chunks - length ffs) chunks)), None, st')"
proof -
  have mod: "lz4_block_module lz4_block" using assms(4) by unfold_locales blast
  obtain chunks start where ch: "x_log x = concat chunks" "stored h c md (x_os x) chunks start"
    using assms(1-3) by (auto simp: holds_def trace_inv_def recorded_def)
  obtain ffs where f: "length ffs = min (length chunks) (unat (max_file_count c))"
      "\<forall>j<length ffs. node_at (x_os x) (own_name h c md
         (fragment_no (max_file_count c) start (length chunks - length ffs + j))) = Some (Reg (ffs ! j))"
      "list_all2 (fragment_of (h_version h)) (drop (length chunks - length ffs) chunks) ffs"
    using stored_files [OF ch(2)] by metis
  have "\<forall>i\<in>set (concat (drop (length chunks - length ffs) chunks)). \<not> zero_free i"
    using assms(7) ch(1) by (auto dest!: in_set_dropD)
  then obtain st' :: "u64 list" where "read_files lz4_block max_size tid ffs [] =
      (map (trace_entry_of tid) (concat (drop (length chunks - length ffs) chunks)), None, map unat st')"
    using lz4_block_module.read_files_ok [OF mod f(3) assms(5,6), of tid "[]"] by auto
  with ch(1) f(1,2) show ?thesis by blast
qed

section \<open>Every subscriber returns\<close>

lemma ready_live: "ready h c x \<Longrightarrow> w_size w = trace_size c \<Longrightarrow> env_live h (12 + comp_capacity w)"
  by (simp add: ready_def comp_capacity_def)

lemma fini_returns:
  assumes c: "usable c" and x: "holds h c md x" and live: "env_live h (12 + comp_capacity (zero_writer\<lparr>w_size := trace_size c\<rparr>))"
  shows "\<exists>x'. thread_fini h c md x = Inr x'"
proof -
  let ?th = "get_coldtrace_thread h md (x_thread x)"
  let ?w = "t_writer ?th"
  have ti: "thread_inv h ?th" and sz: "w_buffer ?w \<noteq> None \<Longrightarrow> w_size ?w = trace_size c"
    using holds_get [OF x] by (simp_all add: holds_def trace_inv_def deep_ok_def)
  have "\<exists>r. coldtrace_writer_fini h c ?w (x_os x) = Inr r"
  proof (cases "w_buffer ?w")
    case None
    then show ?thesis by (simp add: coldtrace_writer_fini_def)
  next
    case (Some b)
    have "\<exists>r. flush h c ?w (x_os x) = Inr r"
      by (rule flush_returns [OF writer_inv_Some [OF inv_writer [OF ti] Some] Some])
         (use c live sz Some in \<open>simp_all add: comp_capacity_def\<close>)
    then show ?thesis using Some by (auto simp: coldtrace_writer_fini_def)
  qed
  then show ?thesis by (auto simp: thread_fini_def coldtrace_thread_fini_def Let_def)
qed

lemma finish_returns:
  assumes "subscriber h c md Finish f" and c: "usable c" and x: "holds h c md x" and rd: "ready h c x"
  shows "\<exists>x'. f x = Inr x'"
  using assms(1)
proof cases
  case (28 self)
  have live: "env_live h (12 + comp_capacity (zero_writer\<lparr>w_size := trace_size c\<rparr>))" using rd by (simp add: ready_def)
  have "good h c md (log_atomic h c md COLDTRACE_THREAD_EXIT self)"
    by (rule good_log_atomic [OF c]) (simp_all add: kind_simps)
  then obtain x1 where "log_atomic h c md COLDTRACE_THREAD_EXIT self x = Inr x1" "holds h c md x1"
    using x rd keepsD unfolding good_def runs_def by blast
  then show ?thesis
    using 28 fini_returns [OF c _ live] x by (cases "h_self_id h md = h_main_thread h") (simp_all add: event_self_fini_def)
qed

lemma subscriber_total:
  assumes c: "usable c" and x: "holds h c md x" "ready h c x" and f: "subscriber h c md ph f"
    and "ph = Start \<longrightarrow> unused (x_thread x) (x_log x)" "ph = Frame \<longrightarrow> growable (x_thread x)"
    and "\<forall>a. ph = Acquire a \<longrightarrow> h_acquire h (a_lock (g_areas (x_globals x) ! get_area a)) \<noteq> None"
  shows "\<exists>x'. f x = Inr x'"
proof (cases ph)
  case Plain
  then show ?thesis using good_plain [OF f c] x by (auto simp: good_def runs_def)
next
  case (Release a)
  then show ?thesis using good_plain [OF f c] x by (auto simp: good_def runs_def)
next
  case (Acquire a)
  from f Acquire have "f = FETCH_STACK_ACQ h a" by (cases rule: subscriber.cases) (simp_all add: handler_defs)
  then show ?thesis using assms(7) Acquire by (auto simp: FETCH_STACK_ACQ_def Let_def split: prod.splits)
next
  case Finish
  then show ?thesis using finish_returns [OF _ c x] f by simp
next
  case Frame
  then have so: "stack_ok (x_thread x)" "growable (x_thread x)" using holds_inv [OF x(1)] assms(6) by (simp_all add: thread_inv_def)
  show ?thesis
    using f Frame push_returns [OF so] by (cases rule: subscriber.cases) (fastforce simp: handler_defs)+
next
  case Start
  show ?thesis
  proof (rule start_eq [OF f [unfolded Start] c])
    fix k assume k: "good h c md k" "\<And>x. f x = k (x\<lparr>x_thread := coldtrace_thread_init h md (x_thread x)\<rparr>)"
    have u: "unused (x_thread x) (x_log x)" using assms(5) Start by simp
    have "ready h c (x\<lparr>x_thread := coldtrace_thread_init h md (x_thread x)\<rparr>)"
      using x(2) u by (simp add: ready_def unused_def)
    then show ?thesis using k started [OF x(1) u] by (simp add: good_def runs_def)
  qed
qed

end
