(* ===== verification/Progress.thy ===== *)
theory Progress
  imports Trace
begin

text \<open>
  Progress: when the calls of the operating system succeed the writer never fails and no entry is
  dropped; what a subscriber logs is then determined by its event.
\<close>

section \<open>A calm operating system\<close>

definition calm :: "host \<Rightarrow> bool" where
  "calm h \<longleftrightarrow> (\<forall>t. \<not> ev_open_err (h_env h) t \<and> (\<exists>n. ev_write (h_env h) t = Wrote n)) \<and>
     (\<forall>t n. ev_mmap_ok (h_env h) t n \<and> ev_alloc_ok (h_env h) t n)"

lemma calmD:
  assumes "calm h"
  shows "\<not> ev_open_err (h_env h) t" "\<exists>n. ev_write (h_env h) t = Wrote n" "ev_mmap_ok (h_env h) t n" "ev_alloc_ok (h_env h) t n"
  using assms by (simp_all add: calm_def)

lemma write_all_calm: "calm h \<Longrightarrow> write_all k h fd p s = Inr (ok, s') \<Longrightarrow> ok"
proof (induction k arbitrary: p s)
  case 0
  then show ?case by (simp split: if_splits)
next
  case (Suc k)
  obtain n where "ev_write (h_env h) (clock s) = Wrote n" using calmD(2) [OF Suc.prems(1)] by blast
  then show ?case using Suc by (auto simp: os_write_def split: if_splits)
qed

lemma first_fragment_calm: "calm h \<Longrightarrow> first_fragment_loop k h c w s = Inr (ok, w', s') \<Longrightarrow> ok"
proof (induction k arbitrary: w s)
  case (Suc k)
  obtain f where "format_file_name c (w_tid w) (w_enumerator w) = Inr f" using Suc.prems by auto
  then show ?case
    using Suc calmD(1) [OF Suc.prems(1), of "clock s"] by (cases "node_at s f") (auto simp: os_open_excl_def)
qed simp

lemma flush_calm:
  assumes "buffer_ok h w b" "w_buffer w = Some b" "w_mmapped w \<longrightarrow> config_path_ok c" "calm h"
    and "node_at s (name_of c w (w_enumerator w)) \<noteq> Some Dir" "flush h c w s = Inr (w', s')"
  shows "w_buffer w' = Some b" "\<not> w_failed w'"
proof -
  have nf: "\<not> w_failed w" using assms(1) by (simp add: buffer_ok_def block_ok_def)
  have "w_buffer w' = Some b \<and> \<not> w_failed w'"
  proof (cases "w_mmapped w")
    case False
    then show ?thesis using assms(2,6) nf by (simp add: flush_def)
  next
    case m: True
    then have c: "config_path_ok c" using assms(3) by simp
    let ?n = "name_of c w (w_enumerator w)"
    obtain cb where eq: "flush h c w s = (if ev_open_err (h_env h) (clock s) \<or> node_at s ?n = Some Dir then Inr (fail w, tick s)
        else bindR (write_all (ev_fuel (h_env h)) h ?n (fragment_file h w) (tick (set_node ?n (Reg []) s)))
               (\<lambda>(fin, s2). if \<not> fin then Inr (fail w, os_unlink ?n s2) else Inr (w\<lparr>w_comp_buf := Some cb\<rparr>, s2)))"
      by (rule flush_mapped [OF assms(1,2) m c, where s = s]) (rule that)
    obtain fin s2 where wr: "write_all (ev_fuel (h_env h)) h ?n (fragment_file h w) (tick (set_node ?n (Reg []) s)) = Inr (fin, s2)"
        "fin \<longrightarrow> w' = w\<lparr>w_comp_buf := Some cb\<rparr>"
      using assms(5,6) calmD(1) [OF assms(4), of "clock s"] unfolding eq by (auto split: if_splits)
    have "fin" by (rule write_all_calm [OF assms(4) wr(1)])
    then show ?thesis using wr(2) assms(2) nf by auto
  qed
  then show "w_buffer w' = Some b" "\<not> w_failed w'" by simp_all
qed

lemma ensure_calm:
  assumes "calm h" "w_initd w" "\<not> w_failed w" "unat (trace_size c) \<le> LZ4_MAX_INPUT_SIZE" "8 \<le> unat (trace_size c)"
    and run: "ensure_buffer h c w s = Inr (ok, w', s')"
  shows ok
proof (cases "w_buffer w")
  case (Some b)
  then show ?thesis using assms(2,3) run by (simp add: ensure_buffer_def)
next
  case None
  let ?w1 = "w\<lparr>w_size := trace_size c, w_offset := 0, w_enumerator := 0\<rparr>"
  have v: "validate_trace_size (trace_size c) b" for b using assms(4,5) by (simp add: validate_trace_size_def sizeof_version_header_def)
  have sz: "unat (trace_size c) < 2 ^ 63" using assms(4) by (simp add: LZ4_MAX_INPUT_SIZE_def)
  have run1: "(if disable_writes c then ensure_pool_buffer h ?w1 s else ensure_mapped_buffer h c ?w1 s) = Inr (ok, w', s')"
    using run None assms(2,3) v by (simp add: ensure_buffer_def Let_def coldtrace_writes_disabled_def coldtrace_get_trace_size_def)
  show ?thesis
  proof (cases "disable_writes c")
    case True
    then show ?thesis using run1 calmD(4) [OF assms(1)] sz by (auto simp: ensure_pool_buffer_def os_alloc_def)
  next
    case False
    have "unat (of_nat FRAG_HDR_SIZE + of_int (LZ4_compressBound (c_int (trace_size c))) :: u64) < 2 ^ 63"
    proof -
      have "comp_capacity ?w1 \<le> 12 * LZ4_MAX_INPUT_SIZE"
        using assms(4) by (auto simp: comp_capacity_def LZ4_compressBound_def LZ4_MAX_INPUT_SIZE_def)
      then show ?thesis using comp_buf_size [of ?w1] assms(4) by (simp add: LZ4_MAX_INPUT_SIZE_def)
    qed
    then show ?thesis
      using run1 False calmD(3,4) [OF assms(1)] sz
      by (auto simp: ensure_mapped_buffer_def os_alloc_def os_mmap_def Let_def first_fragment_def
            split: if_splits dest!: first_fragment_calm [OF assms(1)])
  qed
qed


lemma reserve_calm:
  assumes "calm h" "writer_inv h w" "path_ok c w" "w_initd w" "\<not> w_failed w"
    and "unat (trace_size c) \<le> LZ4_MAX_INPUT_SIZE" "8 \<le> unat (trace_size c)"
    and "\<And>n. node_at s (name_of c w n) \<noteq> Some Dir" "coldtrace_writer_reserve h c n w s = Inr (r, w', s')"
  shows "r \<noteq> None"
proof -
  have c: "\<not> disable_writes c \<longrightarrow> config_path_ok c" using assms(3) by (simp add: path_ok_def)
  obtain ok w1 s1 where en: "ensure_buffer h c w s = Inr (ok, w1, s1)" using assms(9) by (auto simp: coldtrace_writer_reserve_def)
  have ok: ok by (rule ensure_calm [OF assms(1,4-7) en])
  obtain b where b: "w_buffer w1 = Some b" "buffer_ok h w1 b" "w_mmapped w1 \<longrightarrow> config_path_ok c"
    and nd: "node_at s1 (name_of c w1 (w_enumerator w1)) \<noteq> Some Dir"
    using assms(2) c en
  proof (cases rule: ensure_buffer_cases)
    case no
    then show thesis using ok by simp
  next
    case (had b)
    then show thesis
      using that [of b] writer_inv_Some [OF assms(2)] assms(3,8) by (auto simp: path_ok_def)
  next
    case (got b)
    have "w_tid w1 = w_tid w" using ensure_buffer_owner [OF en] by (simp add: same_owner_def)
    then show thesis
      using that [of b] got assms(8) c by (auto simp: created_only_def split: if_splits)
  qed
  show ?thesis
  proof (cases "coldtrace_writer_new_trace c w1 n")
    case False
    then show ?thesis using assms(9) en ok by (auto simp: coldtrace_writer_reserve_def)
  next
    case True
    then obtain w2 s2 where nt: "new_trace h c w1 s1 = Inr (w2, s2)" "r = None \<longrightarrow> w_buffer w2 = None"
      using assms(9) en ok by (auto simp: coldtrace_writer_reserve_def split: if_splits)
    then obtain w3 s3 where fl: "flush h c w1 s1 = Inr (w3, s3)" by (auto simp: new_trace_def)
    have "w_buffer w3 = Some b" by (rule flush_calm [OF b(2,1,3) assms(1) nd fl])
    then show ?thesis using nt fl by (auto simp: new_trace_def begin_fragment_def split: option.splits)
  qed
qed


section \<open>Nothing is dropped\<close>

definition quiet :: "host \<Rightarrow> config \<Rightarrow> u64 \<Rightarrow> ctx \<Rightarrow> bool" where
  "quiet h c md x \<longleftrightarrow> calm h \<and> usable c \<and> unat (trace_size c) \<le> LZ4_MAX_INPUT_SIZE \<and> holds h c md x \<and>
     \<not> t_failed (x_thread x) \<and> (t_initd (x_thread x) \<longrightarrow> w_initd (t_writer (x_thread x)) \<and> \<not> w_failed (t_writer (x_thread x))) \<and>
     (\<forall>n. node_at (x_os x) (own_name h c md n) \<noteq> Some Dir)"

lemma quiet_globals [simp]: "quiet h c md (x\<lparr>x_globals := g\<rparr>) = quiet h c md x"
  by (simp add: quiet_def)

lemma plain_null:
  "append_plain h c t ptr len th s = Inr (None, th', s') \<Longrightarrow> \<exists>n w s1. coldtrace_writer_reserve h c n (t_writer th) s = Inr (None, w, s1)"
  by (fastforce simp: append_plain_def Let_def split: option.splits if_splits)

lemma stack_null:
  "append_with_stack h c t ptr len th s = Inr (None, th', s') \<Longrightarrow>
   \<exists>n w s1. coldtrace_writer_reserve h c n (t_writer th) s = Inr (None, w, s1)"
  unfolding with_stack_eq by (fastforce simp: Let_def split: option.splits)

lemma append_calm:
  assumes q: "quiet h c md x" and t: "is_type_valid t"
    and run: "coldtrace_thread_append h c md t val (x_thread x) (x_os x) = Inr (r, th, s)"
  shows "r \<noteq> None"
proof
  assume r: "r = None"
  let ?th = "get_coldtrace_thread h md (x_thread x)"
  have ti: "trace_inv h c md ?th (x_os x) (x_log x)" using q trace_inv_get by (simp add: quiet_def holds_def)
  have live: "w_initd (t_writer ?th)" "\<not> w_failed (t_writer ?th)" "\<not> t_failed ?th"
    using q by (auto simp: quiet_def get_coldtrace_thread_def coldtrace_writer_init_def)
  have len: "coldtrace_entry_fixed_size t \<noteq> 0" using fixed_size_fields [OF t] by auto
  have "append_plain h c t val (coldtrace_entry_fixed_size t) ?th (x_os x) = Inr (None, th, s) \<or>
      append_with_stack h c t val (coldtrace_entry_fixed_size t) ?th (x_os x) = Inr (None, th, s)"
    using run r live(3) len by (simp add: coldtrace_thread_append_def Let_def split: if_splits)
  then have "\<exists>n w s1. coldtrace_writer_reserve h c n (t_writer ?th) (x_os x) = Inr (None, w, s1)"
    by (elim disjE plain_null stack_null)
  then obtain n w s1 where res: "coldtrace_writer_reserve h c n (t_writer ?th) (x_os x) = Inr (None, w, s1)"
    by blast
  have "8 \<le> unat (trace_size c)" using q by (simp add: quiet_def holds_def deep_ok_def)
  moreover have "w_tid (t_writer ?th) = h_self_id h md" using ti by (simp add: trace_inv_def)
  moreover have "writer_inv h (t_writer ?th)" using ti by (simp add: trace_inv_def inv_writer)
  ultimately show False
    using reserve_calm [OF _ _ _ live(1,2) _ _ _ res] q by (simp add: quiet_def usable_path_ok own_name_def)
qed

text \<open>Logging one entry and going on.\<close>

lemma append_logs:
  assumes q: "quiet h c md x" and t: "is_type_valid t" "length vs = field_count t"
    and run: "append_or_return h c md t val k x = Inr x'"
    and k: "\<And>e y. t_initd (x_thread y) \<Longrightarrow> x_globals y = x_globals x \<Longrightarrow>
      k e y = bindR (set_fields t val e vs (y\<lparr>x_globals := g\<rparr>)) f"
  obtains x2 where "f x2 = Inr x'" "quiet h c md x2" "x_globals x2 = g" "call_stack (x_thread x2) = call_stack (x_thread x)"
    "x_log x2 = x_log x @ [\<lparr>l_type = t, l_ptr = val, l_fields = vs, l_stack = call_stack (x_thread x)\<rparr>]"
    "w_buffer (t_writer (x_thread x2)) \<noteq> None"
proof -
  obtain r th s where ap: "coldtrace_thread_append h c md t val (x_thread x) (x_os x) = Inr (r, th, s)"
    and rest: "(case r of None \<Rightarrow> Inr (x\<lparr>x_thread := th, x_os := s\<rparr>) | Some e \<Rightarrow> k e (x\<lparr>x_thread := th, x_os := s\<rparr>)) = Inr x'"
    using run by (auto simp: append_or_return_def Let_def)
  have c: "usable c" "holds h c md x" using q by (simp_all add: quiet_def)
  show thesis
    using c(1) t(1) c(2) ap
  proof (cases rule: append_result)
    case none
    then show ?thesis using append_calm [OF q t(1) ap] by simp
  next
    case (some e)
    let ?i = "\<lparr>l_type = t, l_ptr = val, l_fields = vs, l_stack = call_stack (x_thread x)\<rparr>"
    obtain th2 where th2: "set_fields t val e vs (x\<lparr>x_thread := th, x_os := s, x_globals := g\<rparr>) =
          Inr (x\<lparr>x_thread := th2, x_os := s, x_globals := g, x_log := x_log x @ [?i]\<rparr>)"
        "holds h c md (x\<lparr>x_thread := th2, x_os := s, x_globals := g, x_log := x_log x @ [?i]\<rparr>)"
        "w_buffer (t_writer th2) \<noteq> None" "same_stack (x_thread x) th2"
      using some(4) [OF t(2), of g] by blast
    have "writer_inv h (t_writer th2)" using th2(2) by (simp add: holds_def trace_inv_def thread_inv_def)
    then have "w_initd (t_writer th2)" "\<not> w_failed (t_writer th2)"
      using th2(3) by (auto simp: writer_inv_def buffer_ok_def block_ok_def)
    then have "quiet h c md (x\<lparr>x_thread := th2, x_os := s, x_globals := g, x_log := x_log x @ [?i]\<rparr>)"
      using q th2(2,4) some(3) by (auto simp: quiet_def same_stack_def)
    moreover have "f (x\<lparr>x_thread := th2, x_os := s, x_globals := g, x_log := x_log x @ [?i]\<rparr>) = Inr x'"
      using rest some(1,2) k [of "x\<lparr>x_thread := th, x_os := s\<rparr>"] th2(1) by simp
    ultimately show ?thesis
      using same_stackD [OF th2(4)] th2(3) that [of "x\<lparr>x_thread := th2, x_os := s, x_globals := g, x_log := x_log x @ [?i]\<rparr>"] by simp
  qed
qed


lemma log_alloc_logs:
  assumes "quiet h c md x" "is_type_valid t" "field_count t = 3" "log_alloc h c md t val sz pc x = Inr x'"
    and "coldtrace_next_alloc_idx h (x_globals x) = (i, g)"
  shows "x_log x' = x_log x @ [\<lparr>l_type = t, l_ptr = val, l_fields = [sz, i, pc], l_stack = call_stack (x_thread x)\<rparr>]"
    "x_globals x' = g" "quiet h c md x'" "call_stack (x_thread x') = call_stack (x_thread x)"
    "w_buffer (t_writer (x_thread x')) \<noteq> None"
proof -
  have "length [sz, i, pc] = field_count t" using assms(3) by simp
  from append_logs [OF assms(1,2) this assms(4) [unfolded log_alloc_def], of g Inr] assms(5)
  obtain x2 where "Inr x2 = (Inr x' :: ctx res)" "quiet h c md x2" "x_globals x2 = g" "call_stack (x_thread x2) = call_stack (x_thread x)"
    "x_log x2 = x_log x @ [\<lparr>l_type = t, l_ptr = val, l_fields = [sz, i, pc], l_stack = call_stack (x_thread x)\<rparr>]"
    "w_buffer (t_writer (x_thread x2)) \<noteq> None"
    by (auto simp: draw_alloc_def)
  then show "x_log x' = x_log x @ [\<lparr>l_type = t, l_ptr = val, l_fields = [sz, i, pc], l_stack = call_stack (x_thread x)\<rparr>]"
    "x_globals x' = g" "quiet h c md x'" "call_stack (x_thread x') = call_stack (x_thread x)"
    "w_buffer (t_writer (x_thread x')) \<noteq> None" by simp_all
qed

lemma log_atomic_access_logs:
  assumes "quiet h c md x" "is_type_valid t" "field_count t = 2" "log_atomic_access h c md t addr sz idx f x = Inr x'"
  obtains x2 where "f x2 = Inr x'" "quiet h c md x2" "x_globals x2 = x_globals x" "call_stack (x_thread x2) = call_stack (x_thread x)"
    "x_log x2 = x_log x @ [\<lparr>l_type = t, l_ptr = addr, l_fields = [sz, idx], l_stack = call_stack (x_thread x)\<rparr>]"
proof -
  have "length [sz, idx] = field_count t" using assms(3) by simp
  from append_logs [OF assms(1,2) this assms(4) [unfolded log_atomic_access_def], of "x_globals x" f] that
  show thesis by (metis (no_types, lifting) ctx.surjective ctx.update_convs(2))
qed

lemma rmw_logs:
  assumes "quiet h c md x" "after_ma_rmw h c md addr sz x = Inr x'" "h_get_inc h (g_atomic_index (x_globals x)) = (j, v)"
  shows "x_log x' = x_log x @
      [\<lparr>l_type = COLDTRACE_ATOMIC_READ, l_ptr = addr, l_fields = [sz, area_idx addr x], l_stack = call_stack (x_thread x)\<rparr>,
       \<lparr>l_type = COLDTRACE_ATOMIC_WRITE, l_ptr = addr, l_fields = [sz, j], l_stack = call_stack (x_thread x)\<rparr>]
    \<and> x_globals x' = x_globals (release_area h addr (x\<lparr>x_globals := (x_globals x)\<lparr>g_atomic_index := v\<rparr>\<rparr>))"
proof -
  let ?x1 = "release_area h addr (x\<lparr>x_globals := (x_globals x)\<lparr>g_atomic_index := v\<rparr>\<rparr>)"
  have x1: "quiet h c md ?x1" "x_log ?x1 = x_log x" "x_thread ?x1 = x_thread x"
    using assms(1) by (simp_all add: release_area_def Let_def)
  have t: "is_type_valid COLDTRACE_ATOMIC_READ" "field_count COLDTRACE_ATOMIC_READ = 2"
    "is_type_valid COLDTRACE_ATOMIC_WRITE" "field_count COLDTRACE_ATOMIC_WRITE = 2" by (simp_all add: kind_simps)
  have "log_atomic_access h c md COLDTRACE_ATOMIC_READ addr sz (area_idx addr x)
      (log_atomic_access h c md COLDTRACE_ATOMIC_WRITE addr sz j Inr) ?x1 = Inr x'"
    using assms(2,3) by (simp add: after_ma_rmw_def REL_LOG_RW_def draw_atomic_def coldtrace_next_atomic_idx_def Let_def)
  then obtain x2 where x2: "log_atomic_access h c md COLDTRACE_ATOMIC_WRITE addr sz j Inr x2 = Inr x'" "quiet h c md x2"
      "x_globals x2 = x_globals ?x1" "call_stack (x_thread x2) = call_stack (x_thread ?x1)"
      "x_log x2 = x_log ?x1 @ [\<lparr>l_type = COLDTRACE_ATOMIC_READ, l_ptr = addr, l_fields = [sz, area_idx addr x],
         l_stack = call_stack (x_thread ?x1)\<rparr>]"
    by (rule log_atomic_access_logs [OF x1(1) t(1,2)])
  show ?thesis
    by (rule log_atomic_access_logs [OF x2(2) t(3,4) x2(1)]) (use x1 x2 in simp)
qed

text \<open>The end of a thread.\<close>

lemma fini_calm:
  assumes q: "quiet h c md x" and run: "thread_fini h c md x = Inr x'"
  shows "x_log x' = x_log x" "w_buffer (t_writer (x_thread x')) = None" "\<not> w_failed (t_writer (x_thread x'))"
proof -
  let ?th = "get_coldtrace_thread h md (x_thread x)"
  let ?w = "t_writer ?th"
  have ti: "trace_inv h c md ?th (x_os x) (x_log x)" using q trace_inv_get by (simp add: quiet_def holds_def)
  have live: "w_initd ?w" "\<not> w_failed ?w"
    using q by (auto simp: quiet_def get_coldtrace_thread_def coldtrace_writer_init_def)
  have wi: "writer_inv h ?w" "w_tid ?w = h_self_id h md" using ti by (simp_all add: trace_inv_def inv_writer)
  obtain w s where w: "coldtrace_writer_fini h c ?w (x_os x) = Inr (w, s)" "x_log x' = x_log x" "t_writer (x_thread x') = w"
    using run by (auto simp: thread_fini_def coldtrace_thread_fini_def Let_def)
  have c: "usable c" "calm h" "node_at (x_os x) (name_of c ?w (w_enumerator ?w)) \<noteq> Some Dir"
    using q wi(2) by (simp_all add: quiet_def own_name_def)
  have "\<not> w_failed w"
  proof (cases "w_buffer ?w")
    case None
    then show ?thesis using w(1) live by (auto simp: coldtrace_writer_fini_def release_buffers_def)
  next
    case (Some b)
    then obtain w1 s1 where fl: "flush h c ?w (x_os x) = Inr (w1, s1)" "w_failed w = w_failed w1"
      using w(1) live by (auto simp: coldtrace_writer_fini_def release_buffers_def)
    then show ?thesis using flush_calm(2) [OF writer_inv_Some [OF wi(1) Some] Some _ c(2,3) fl(1)] c(1) by simp
  qed
  then show "x_log x' = x_log x" "w_buffer (t_writer (x_thread x')) = None" "\<not> w_failed (t_writer (x_thread x'))"
    using w fini_effect(1) [OF wi(1) usable_path_ok [OF c(1)] w(1)] by simp_all
qed

end
