(* ===== verification/Effects.thy ===== *)
theory Effects
  imports Progress
begin

text \<open>
  What a subscriber does to the state it shares with other threads: the counters, the lock areas and
  the files.  A subscriber touches the fragment files of its own thread only, draws at most one index,
  and logs no index it has not drawn or found in the area it releases.
\<close>

section \<open>Indices of logged entries\<close>

text \<open>
  The index a logged entry carries, found by its type as \<open>coldtrace_entry_parse_alloc_index\<close> and
  \<open>coldtrace_entry_parse_atomic_index\<close> find it.  The index of a thread creation was drawn by an earlier
  subscriber and is kept in the thread's state; it is left out here.
\<close>

definition log_alloc_index :: "logged \<Rightarrow> u64 option" where
  "log_alloc_index e =
     (let b = base_type (l_type e) in
      if b = COLDTRACE_ALLOC \<or> b = COLDTRACE_MMAP \<or> b = COLDTRACE_MUNMAP then Some (l_fields e ! 1)
      else if b = COLDTRACE_FREE then Some (l_fields e ! 0) else None)"

definition log_atomic_index :: "logged \<Rightarrow> u64 option" where
  "log_atomic_index e =
     (let b = base_type (l_type e) in
      if COLDTRACE_MMAP \<le> b \<or> b < COLDTRACE_ATOMIC_READ \<or> b = COLDTRACE_THREAD_CREATE then None
      else if b = COLDTRACE_ATOMIC_READ \<or> b = COLDTRACE_ATOMIC_WRITE then Some (l_fields e ! 1)
      else Some (l_fields e ! 0))"

text \<open>The accesses that are ordered by the lock of an area, and the area of such an entry.\<close>

definition is_access :: "logged \<Rightarrow> bool" where
  "is_access e \<longleftrightarrow> l_type e = COLDTRACE_ATOMIC_READ \<or> l_type e = COLDTRACE_ATOMIC_WRITE \<or> l_type e = COLDTRACE_FENCE"

abbreviation indices :: "('e \<Rightarrow> u64 option) \<Rightarrow> 'e list \<Rightarrow> u64 list" where
  "indices f es \<equiv> List.map_filter f es"

definition drawn :: "u64 \<Rightarrow> u64 \<Rightarrow> u64 list \<Rightarrow> bool" where
  "drawn i i' is \<longleftrightarrow> i' = i \<and> is = [] \<or> i' = i + 1 \<and> (is = [] \<or> is = [i])"

definition plain_effect :: "globals \<Rightarrow> globals \<Rightarrow> logged list \<Rightarrow> bool" where
  "plain_effect g g' new \<longleftrightarrow> g_areas g' = g_areas g \<and> drawn (g_alloc_index g) (g_alloc_index g') (indices log_alloc_index new) \<and>
     drawn (g_atomic_index g) (g_atomic_index g') (indices log_atomic_index new) \<and> (\<forall>e\<in>set new. \<not> is_access e)"

definition release_effect :: "host \<Rightarrow> u64 \<Rightarrow> globals \<Rightarrow> globals \<Rightarrow> logged list \<Rightarrow> bool" where
  "release_effect h addr g g' new \<longleftrightarrow>
     (let a = get_area addr; ar = g_areas g ! a; i = a_idx ar; j = g_atomic_index g; is = indices log_atomic_index new in
      g_areas g' = (g_areas g)[a := ar\<lparr>a_lock := h_release h (a_lock ar)\<rparr>] \<and>
      g_alloc_index g' = g_alloc_index g \<and> indices log_alloc_index new = [] \<and> (\<forall>e\<in>set new. is_access e \<and> l_ptr e = addr) \<and>
      (g_atomic_index g' = j \<and> (is = [] \<or> is = [i]) \<or> g_atomic_index g' = j + 1 \<and> (is = [] \<or> is = [i] \<or> is = [i, j])))"

definition own_files :: "host \<Rightarrow> config \<Rightarrow> u64 \<Rightarrow> os \<Rightarrow> os \<Rightarrow> bool" where
  "own_files h c md s s' \<longleftrightarrow> (\<forall>p. (\<forall>n. p \<noteq> own_name h c md n) \<longrightarrow> node_at s' p = node_at s p)"

text \<open>The effect of a subscriber, as a relation of the counters and areas before and after and what it logs.\<close>

definition does :: "host \<Rightarrow> config \<Rightarrow> u64 \<Rightarrow> (globals \<Rightarrow> globals \<Rightarrow> logged list \<Rightarrow> bool) \<Rightarrow> (ctx \<Rightarrow> ctx res) \<Rightarrow> bool" where
  "does h c md P f \<longleftrightarrow> (\<forall>x x'. holds h c md x \<longrightarrow> f x = Inr x' \<longrightarrow> own_files h c md (x_os x) (x_os x') \<and>
     (\<exists>new. x_log x' = x_log x @ new \<and> P (x_globals x) (x_globals x') new))"

lemma own_files_refl [simp]: "own_files h c md s s"
  by (simp add: own_files_def)

lemma own_files_trans: "own_files h c md s s' \<Longrightarrow> own_files h c md s' s'' \<Longrightarrow> own_files h c md s s''"
  by (simp add: own_files_def)

lemma own_files_upd:
  "node_at s' = (node_at s)(own_name h c md n := v) \<Longrightarrow> own_files h c md s s'"
  by (simp add: own_files_def)

lemma map_filter_Cons1 [simp]: "List.map_filter f [e] = (case f e of None \<Rightarrow> [] | Some i \<Rightarrow> [i])"
  by (simp add: List.map_filter_def split: option.split)

section \<open>Appending\<close>

lemma append_own_files:
  assumes c: "usable c" and v: "is_type_valid t" and x: "holds h c md x"
    and ap: "coldtrace_thread_append h c md t val (x_thread x) (x_os x) = Inr (r, th, s)"
  shows "own_files h c md (x_os x) s"
proof -
  let ?th = "get_coldtrace_thread h md (x_thread x)"
  have ti: "thread_inv h (x_thread x)" using x by (rule holds_inv)
  have tid: "w_tid (t_writer ?th) = h_self_id h md" using holds_get [OF x] by (simp add: holds_def trace_inv_def)
  have room: "room c t (x_thread x)" using deep_room [of c "x_thread x" t] x v by (simp add: holds_def)
  show ?thesis
    using ti usable_path_ok [OF c] room ap
  proof (cases rule: append_cases)
    case null
    then have "node_at s = node_at (x_os x) \<or>
        node_at s = (node_at (x_os x))(own_name h c md (w_enumerator (t_writer ?th)) := None)"
      using tid by (simp add: null_effect_def own_name_def)
    then show ?thesis by (auto simp: own_files_def)
  next
    case (entry p pre junk post fresh)
    then show ?thesis using tid by (auto simp: file_effect_def created_only_def own_files_def own_name_def split: if_splits)
  qed simp
qed

lemma append_post:
  assumes c: "usable c" and v: "is_type_valid t" and x: "holds h c md x" and run: "append_or_return h c md t val k x = Inr x'"
    and k: "\<And>e y. t_initd (x_thread y) \<Longrightarrow> x_globals y = x_globals x \<Longrightarrow>
      \<exists>vs. length vs = field_count t \<and> Q vs \<and> k e y = bindR (set_fields t val e vs (y\<lparr>x_globals := g\<rparr>)) f"
  obtains (none) "own_files h c md (x_os x) (x_os x')" "x_log x' = x_log x" "x_globals x' = x_globals x"
  | (some) vs y where "length vs = field_count t" "Q vs" "own_files h c md (x_os x) (x_os y)" "x_globals y = g" "holds h c md y"
      "x_log y = x_log x @ [\<lparr>l_type = t, l_ptr = val, l_fields = vs, l_stack = call_stack (x_thread x)\<rparr>]" "f y = Inr x'"
proof -
  obtain r th s where ap: "coldtrace_thread_append h c md t val (x_thread x) (x_os x) = Inr (r, th, s)"
    and rest: "(case r of None \<Rightarrow> Inr (x\<lparr>x_thread := th, x_os := s\<rparr>) | Some e \<Rightarrow> k e (x\<lparr>x_thread := th, x_os := s\<rparr>)) = Inr x'"
    using run by (auto simp: append_or_return_def Let_def)
  have own: "own_files h c md (x_os x) s" by (rule append_own_files [OF c v x ap])
  show thesis
    using c v x ap
  proof (cases rule: append_result)
    case none
    then show ?thesis using rest own by (intro that(1)) auto
  next
    case (some e)
    let ?x = "x\<lparr>x_thread := th, x_os := s\<rparr>"
    have i: "t_initd (x_thread ?x)" "x_globals ?x = x_globals x" using some(2) by simp_all
    obtain vs where vs: "length vs = field_count t" "Q vs" "k e ?x = bindR (set_fields t val e vs (?x\<lparr>x_globals := g\<rparr>)) f"
      using k [OF i] by blast
    let ?y = "\<lambda>th2. x\<lparr>x_thread := th2, x_os := s, x_globals := g,
      x_log := x_log x @ [\<lparr>l_type = t, l_ptr = val, l_fields = vs, l_stack = call_stack (x_thread x)\<rparr>]\<rparr>"
    obtain th2 where y: "set_fields t val e vs (?x\<lparr>x_globals := g\<rparr>) = Inr (?y th2)" "holds h c md (?y th2)"
      using some(4) [OF vs(1), of g] by blast
    then have "f (?y th2) = Inr x'" using rest some(1) vs(3) by simp
    then show ?thesis using y(2) own vs(1,2) by (intro that(2) [of vs "?y th2"]) simp_all
  qed
qed

section \<open>Plain subscribers\<close>

text \<open>
  What the code relies on from the library of atomics and locks: the counter is incremented by one and the
  old value returned; a lock is taken when it is free, waited for when it is not, and free after a
  release.
\<close>

definition vsync_ok :: "host \<Rightarrow> bool" where
  "vsync_ok h \<longleftrightarrow> (\<forall>v. h_get_inc h v = (v, v + 1)) \<and> h_acquire h False = Some True \<and> h_acquire h True = None \<and>
     (\<forall>b. h_release h b = False)"

lemma next_idx:
  assumes "vsync_ok h"
  shows "coldtrace_next_alloc_idx h g = (g_alloc_index g, g\<lparr>g_alloc_index := g_alloc_index g + 1\<rparr>)"
    and "coldtrace_next_atomic_idx h g = (g_atomic_index g, g\<lparr>g_atomic_index := g_atomic_index g + 1\<rparr>)"
  using assms by (simp_all add: coldtrace_next_alloc_idx_def coldtrace_next_atomic_idx_def vsync_ok_def)

lemma doesI:
  "(\<And>x x'. holds h c md x \<Longrightarrow> f x = Inr x' \<Longrightarrow> own_files h c md (x_os x) (x_os x') \<and>
     (\<exists>new. x_log x' = x_log x @ new \<and> P (x_globals x) (x_globals x') new)) \<Longrightarrow> does h c md P f"
  by (simp add: does_def)

lemma does_append:
  assumes c: "usable c" and v: "is_type_valid t" and P0: "\<And>g. P g g []"
    and k: "\<And>e y. t_initd (x_thread y) \<Longrightarrow>
      \<exists>vs. length vs = field_count t \<and> Q (x_globals y) vs \<and> k e y = set_fields t val e vs (y\<lparr>x_globals := G (x_globals y)\<rparr>)"
    and P1: "\<And>g vs st. Q g vs \<Longrightarrow> length vs = field_count t \<Longrightarrow> P g (G g) [\<lparr>l_type = t, l_ptr = val, l_fields = vs, l_stack = st\<rparr>]"
  shows "does h c md P (append_or_return h c md t val k)"
proof (rule doesI)
  fix x x' assume x: "holds h c md x" and run: "append_or_return h c md t val k x = Inr x'"
  have k': "\<exists>vs. length vs = field_count t \<and> Q (x_globals x) vs \<and>
      k e y = bindR (set_fields t val e vs (y\<lparr>x_globals := G (x_globals x)\<rparr>)) Inr"
    if "t_initd (x_thread y)" "x_globals y = x_globals x" for e and y :: ctx
    using k [OF that(1), of e] that(2) by simp
  show "own_files h c md (x_os x) (x_os x') \<and> (\<exists>new. x_log x' = x_log x @ new \<and> P (x_globals x) (x_globals x') new)"
    by (rule append_post [OF c v x run k']) (use P0 P1 in auto)
qed

lemmas index_simps = log_alloc_index_def log_atomic_index_def is_access_def drawn_def base_type_def field_count_def is_type_valid_def
  Let_def entry_consts

lemma plain_refl [simp]: "plain_effect g g []"
  by (simp add: plain_effect_def drawn_def)

lemma does_log_access:
  assumes "usable c" "is_type_valid t" "base_type t = COLDTRACE_READ \<or> base_type t = COLDTRACE_WRITE"
  shows "does h c md plain_effect (log_access h c md t val sz pc)"
proof -
  have t: "field_count t = 2" "\<not> is_access \<lparr>l_type = t, l_ptr = val, l_fields = vs, l_stack = st\<rparr>" for vs st
    using assms(3) by (auto simp: field_count_def is_access_def base_type_def Let_def entry_consts)
  show ?thesis
    unfolding log_access_def
    by (rule does_append [OF assms(1,2), where G = "\<lambda>g. g" and Q = "\<lambda>_ vs. vs = [sz, pc]"])
       (use assms(3) t in \<open>auto simp: plain_effect_def drawn_def log_alloc_index_def log_atomic_index_def Let_def entry_consts\<close>)
qed

lemma does_log_alloc:
  assumes "usable c" "vsync_ok h" "t = COLDTRACE_ALLOC \<or> t = COLDTRACE_MMAP \<or> t = COLDTRACE_MUNMAP"
  shows "does h c md plain_effect (log_alloc h c md t val sz pc)"
  unfolding log_alloc_def
  by (rule does_append [OF assms(1), where G = "\<lambda>g. g\<lparr>g_alloc_index := g_alloc_index g + 1\<rparr>"
        and Q = "\<lambda>g vs. vs = [sz, g_alloc_index g, pc]"])
     (use assms(3) in \<open>auto simp: draw_alloc_def next_idx [OF assms(2)] plain_effect_def index_simps\<close>)

lemma does_log_free:
  assumes "usable c" "vsync_ok h"
  shows "does h c md plain_effect (log_free h c md val pc)"
  unfolding log_free_def
  by (rule does_append [OF assms(1), where G = "\<lambda>g. g\<lparr>g_alloc_index := g_alloc_index g + 1\<rparr>"
        and Q = "\<lambda>g vs. vs = [g_alloc_index g, pc]"])
     (auto simp: draw_alloc_def next_idx [OF assms(2)] plain_effect_def index_simps)

definition sync_type :: "u8 \<Rightarrow> bool" where
  "sync_type t \<longleftrightarrow> t \<in> set [COLDTRACE_LOCK_ACQUIRE, COLDTRACE_LOCK_RELEASE, COLDTRACE_RW_LOCK_CREATE, COLDTRACE_RW_LOCK_DESTROY,
     COLDTRACE_RW_LOCK_ACQ_SHR, COLDTRACE_RW_LOCK_ACQ_EXC, COLDTRACE_RW_LOCK_REL_SHR, COLDTRACE_RW_LOCK_REL_EXC,
     COLDTRACE_RW_LOCK_REL, COLDTRACE_CXA_GUARD_ACQUIRE, COLDTRACE_CXA_GUARD_RELEASE, COLDTRACE_THREAD_JOIN, COLDTRACE_THREAD_EXIT]"

lemma sync_type_index:
  assumes "sync_type t"
  shows "is_type_valid t" "field_count t = 1" "log_alloc_index \<lparr>l_type = t, l_ptr = p, l_fields = [i], l_stack = st\<rparr> = None"
    "log_atomic_index \<lparr>l_type = t, l_ptr = p, l_fields = [i], l_stack = st\<rparr> = Some i"
    "\<not> is_access \<lparr>l_type = t, l_ptr = p, l_fields = [i], l_stack = st\<rparr>"
  using assms by (auto simp: sync_type_def index_simps)

lemma does_log_atomic:
  assumes "usable c" "vsync_ok h" "sync_type t"
  shows "does h c md plain_effect (log_atomic h c md t val)"
  unfolding log_atomic_def
  by (rule does_append [OF assms(1), where G = "\<lambda>g. g\<lparr>g_atomic_index := g_atomic_index g + 1\<rparr>"
        and Q = "\<lambda>g vs. vs = [g_atomic_index g]"])
     (auto simp: draw_atomic_def next_idx [OF assms(2)] plain_effect_def drawn_def sync_type_index [OF assms(3)])

lemma does_log_start:
  assumes "usable c" "vsync_ok h"
  shows "does h c md plain_effect (append_or_return h c md COLDTRACE_THREAD_START val
     (\<lambda>e. draw_atomic h (\<lambda>i. set_fields COLDTRACE_THREAD_START val e [i, a, b])))"
  by (rule does_append [OF assms(1), where G = "\<lambda>g. g\<lparr>g_atomic_index := g_atomic_index g + 1\<rparr>"
        and Q = "\<lambda>g vs. vs = [g_atomic_index g, a, b]"])
     (auto simp: draw_atomic_def next_idx [OF assms(2)] plain_effect_def index_simps)

lemma does_log_create:
  assumes "usable c"
  shows "does h c md plain_effect (append_or_return h c md COLDTRACE_THREAD_CREATE val (\<lambda>e x.
     case coldtrace_thread_get_create_idx h md (x_thread x) of (i, th) \<Rightarrow> set_fields COLDTRACE_THREAD_CREATE val e [i] (x\<lparr>x_thread := th\<rparr>)))"
proof (rule does_append [OF assms, where G = "\<lambda>g. g" and Q = "\<lambda>g vs. \<exists>i. vs = [i]"])
  fix e and y :: ctx assume "t_initd (x_thread y)"
  then show "\<exists>vs. length vs = field_count COLDTRACE_THREAD_CREATE \<and> (\<exists>i. vs = [i]) \<and>
      (case coldtrace_thread_get_create_idx h md (x_thread y) of
         (i, th) \<Rightarrow> set_fields COLDTRACE_THREAD_CREATE val e [i] (y\<lparr>x_thread := th\<rparr>)) =
      set_fields COLDTRACE_THREAD_CREATE val e vs (y\<lparr>x_globals := x_globals y\<rparr>)"
    by (intro exI [of _ "[t_created_thread_idx (x_thread y)]"])
       (simp add: coldtrace_thread_get_create_idx_def get_coldtrace_thread_def kind_simps)
qed (auto simp: plain_effect_def index_simps)

lemma does_log_marker:
  assumes "usable c"
  shows "does h c md plain_effect (append_or_return h c md COLDTRACE_TEST_MARKER 0 (\<lambda>e. set_fields COLDTRACE_TEST_MARKER 0 e []))"
  by (rule does_append [OF assms, where G = "\<lambda>g. g" and Q = "\<lambda>g vs. vs = []"])
     (auto simp: plain_effect_def index_simps)

lemma does_when_ok: "does h c md plain_effect f \<Longrightarrow> does h c md plain_effect (when_ok ret f)"
  by (auto simp: does_def when_ok_def)

lemma does_set_create:
  assumes "vsync_ok h"
  shows "does h c md plain_effect (draw_atomic h (\<lambda>i x. Inr (x\<lparr>x_thread := coldtrace_thread_set_create_idx h md i (x_thread x)\<rparr>)))"
  by (auto simp: does_def draw_atomic_def next_idx [OF assms] plain_effect_def drawn_def)

lemma does_plain:
  assumes "subscriber h c md Plain f" "usable c" "vsync_ok h"
  shows "does h c md plain_effect f"
  using assms
  by (cases rule: subscriber.cases)
     (simp_all add: handler_defs does_log_access does_log_alloc does_log_free does_log_atomic does_when_ok does_set_create
        does_log_create [unfolded entry_consts] does_log_marker [unfolded entry_consts] sync_type_def read_type_def is_type_valid_def base_type_def Let_def entry_consts)

section \<open>The other subscribers\<close>

text \<open>The accesses of a release, with the lists of indices they may log.\<close>

definition access_effect :: "u64 \<Rightarrow> u64 list set \<Rightarrow> globals \<Rightarrow> globals \<Rightarrow> logged list \<Rightarrow> bool" where
  "access_effect addr S g g' new \<longleftrightarrow> g' = g \<and> (\<forall>e\<in>set new. is_access e \<and> l_ptr e = addr) \<and>
     indices log_alloc_index new = [] \<and> indices log_atomic_index new \<in> S"

lemma does_access_Inr: "does h c md (access_effect addr {[]}) Inr"
  by (simp add: does_def access_effect_def)

lemma does_access:
  assumes c: "usable c" and t: "t = COLDTRACE_ATOMIC_READ \<or> t = COLDTRACE_ATOMIC_WRITE" and f: "does h c md (access_effect addr S) f"
  shows "does h c md (access_effect addr (insert [] ((#) idx ` S))) (log_atomic_access h c md t addr sz idx f)"
proof (rule doesI)
  fix x x' assume x: "holds h c md x" and run: "log_atomic_access h c md t addr sz idx f x = Inr x'"
  have v: "is_type_valid t" "length [sz, idx] = field_count t" using t by (auto simp: kind_simps)
  have k: "\<exists>vs. length vs = field_count t \<and> vs = [sz, idx] \<and>
      bindR (set_fields t addr e [sz, idx] y) f = bindR (set_fields t addr e vs (y\<lparr>x_globals := x_globals x\<rparr>)) f"
    if "x_globals y = x_globals x" for e and y :: ctx
    using v(2) that [symmetric] by simp
  let ?e = "\<lambda>st. \<lparr>l_type = t, l_ptr = addr, l_fields = [sz, idx], l_stack = st\<rparr>"
  have e: "is_access (?e st)" "log_alloc_index (?e st) = None" "log_atomic_index (?e st) = Some idx" for st
    using t by (auto simp: index_simps)
  show "own_files h c md (x_os x) (x_os x') \<and>
      (\<exists>new. x_log x' = x_log x @ new \<and> access_effect addr (insert [] ((#) idx ` S)) (x_globals x) (x_globals x') new)"
  proof (rule append_post [OF c v(1) x run [unfolded log_atomic_access_def] k])
    fix vs y assume y: "own_files h c md (x_os x) (x_os y)" "x_globals y = x_globals x" "holds h c md y" "vs = [sz, idx]"
      "x_log y = x_log x @ [\<lparr>l_type = t, l_ptr = addr, l_fields = vs, l_stack = call_stack (x_thread x)\<rparr>]" "f y = Inr x'"
    then obtain new where n: "own_files h c md (x_os y) (x_os x')" "x_log x' = x_log y @ new"
        "access_effect addr S (x_globals y) (x_globals x') new"
      using f unfolding does_def by blast
    have "access_effect addr (insert [] ((#) idx ` S)) (x_globals x) (x_globals x') (?e (call_stack (x_thread x)) # new)"
      using n(3) y(2) e by (simp add: access_effect_def List.map_filter_simps)
    then show ?thesis using own_files_trans [OF y(1) n(1)] n(2) y(4,5) by simp
  qed (simp_all add: access_effect_def)
qed

lemma does_fence:
  assumes "usable c"
  shows "does h c md (access_effect addr {[], [i]})
     (append_or_return h c md COLDTRACE_FENCE addr (\<lambda>e. set_fields COLDTRACE_FENCE addr e [i]))"
  by (rule does_append [OF assms, where G = "\<lambda>g. g" and Q = "\<lambda>g vs. vs = [i]"])
     (auto simp: access_effect_def index_simps)

text \<open>A release: the lock is given back, possibly after another index is drawn, then the accesses are logged.\<close>

lemma does_release_area:
  assumes k: "\<And>i j. does h c md (access_effect addr (S i j)) (k i j)"
    and f: "\<And>x. f x = k (area_idx addr x) (g_atomic_index (x_globals x))
       (release_area h addr (x\<lparr>x_globals := (x_globals x)\<lparr>g_atomic_index := g_atomic_index (x_globals x) + d\<rparr>\<rparr>))"
    and S: "\<And>i j. d = 0 \<and> S i j \<subseteq> {[], [i]} \<or> d = 1 \<and> S i j \<subseteq> {[], [i], [i, j]}"
  shows "does h c md (release_effect h addr) f"
proof (rule doesI)
  fix x x' assume x: "holds h c md x" and run: "f x = Inr x'"
  let ?i = "area_idx addr x" and ?j = "g_atomic_index (x_globals x)"
  let ?x = "release_area h addr (x\<lparr>x_globals := (x_globals x)\<lparr>g_atomic_index := ?j + d\<rparr>\<rparr>)"
  have "holds h c md ?x" using x by simp
  then obtain new where n: "own_files h c md (x_os ?x) (x_os x')" "x_log x' = x_log ?x @ new"
      "access_effect addr (S ?i ?j) (x_globals ?x) (x_globals x') new"
    using k run unfolding f does_def by blast
  have "release_effect h addr (x_globals x) (x_globals x') new"
    using n(3) S [of ?i ?j] by (auto simp: release_effect_def access_effect_def release_area_def area_idx_def Let_def)
  then show "own_files h c md (x_os x) (x_os x') \<and>
      (\<exists>new. x_log x' = x_log x @ new \<and> release_effect h addr (x_globals x) (x_globals x') new)"
    using n(1,2) by (auto simp: release_area_def Let_def)
qed

lemma does_release:
  assumes "subscriber h c md (Release addr) f" "usable c" "vsync_ok h"
  shows "does h c md (release_effect h addr) f"
proof -
  note r = does_access [OF assms(2), where t = COLDTRACE_ATOMIC_READ, simplified]
    and w = does_access [OF assms(2), where t = COLDTRACE_ATOMIC_WRITE, simplified]
  note one = does_access_Inr [of h c md addr]
  have R: "does h c md (release_effect h addr) (REL_LOG_R h c md addr sz)" for sz
    by (rule does_release_area [OF r [OF one], where d = 0]) (simp_all add: REL_LOG_R_def Let_def)
  have W: "does h c md (release_effect h addr) (REL_LOG_W h c md addr sz)" for sz
    by (rule does_release_area [OF w [OF one], where d = 0]) (simp_all add: REL_LOG_W_def Let_def)
  have RW: "does h c md (release_effect h addr) (REL_LOG_RW h c md addr sz)" for sz
    by (rule does_release_area [OF r [OF w [OF one]], where d = 1])
       (simp_all add: REL_LOG_RW_def draw_atomic_def next_idx [OF assms(3)] Let_def)
  have F: "does h c md (release_effect h addr) (REL_LOG_FENCE h c md addr)"
    by (rule does_release_area [OF does_fence [OF assms(2)], where d = 0]) (simp_all add: REL_LOG_FENCE_def Let_def)
  have C: "does h c md (release_effect h addr) (REL_LOG_RW_COND h c md addr sz ok)" for sz ok
  proof (cases ok)
    case True
    show ?thesis
      by (rule does_release_area [OF r [OF w [OF one]], where d = 1])
         (simp_all add: True REL_LOG_RW_COND_def area_idx_def next_idx [OF assms(3)] Let_def)
  next
    case False
    show ?thesis
      by (rule does_release_area [OF r [OF one], where d = 0]) (simp_all add: False REL_LOG_RW_COND_def area_idx_def Let_def)
  qed
  show ?thesis
    using assms(1) by (cases rule: subscriber.cases) (simp_all add: handler_defs R W RW F C)
qed

definition acquire_effect :: "u64 \<Rightarrow> globals \<Rightarrow> globals \<Rightarrow> logged list \<Rightarrow> bool" where
  "acquire_effect addr g g' new \<longleftrightarrow>
     (let a = get_area addr in
      \<not> a_lock (g_areas g ! a) \<and> g_areas g' = (g_areas g)[a := \<lparr>a_lock = True, a_idx = g_atomic_index g\<rparr>] \<and>
      g_atomic_index g' = g_atomic_index g + 1 \<and> g_alloc_index g' = g_alloc_index g \<and> new = [])"

lemma does_acquire:
  assumes "subscriber h c md (Acquire addr) f" "vsync_ok h"
  shows "does h c md (acquire_effect addr) f"
proof -
  have "f = FETCH_STACK_ACQ h addr" using assms(1) by (cases rule: subscriber.cases) (simp_all add: handler_defs)
  moreover have "does h c md (acquire_effect addr) (FETCH_STACK_ACQ h addr)"
  proof (rule doesI)
    fix x x' assume run: "FETCH_STACK_ACQ h addr x = Inr x'"
    let ?a = "get_area addr" and ?g = "x_globals x"
    have l: "h_acquire h (a_lock (g_areas ?g ! ?a)) = (if a_lock (g_areas ?g ! ?a) then None else Some True)"
      using assms(2) by (cases "a_lock (g_areas ?g ! ?a)") (simp_all add: vsync_ok_def)
    have "\<not> a_lock (g_areas ?g ! ?a)" using run l by (auto simp: FETCH_STACK_ACQ_def Let_def)
    then show "own_files h c md (x_os x) (x_os x') \<and> (\<exists>new. x_log x' = x_log x @ new \<and> acquire_effect addr ?g (x_globals x') new)"
      using run l by (auto simp: FETCH_STACK_ACQ_def Let_def next_idx [OF assms(2)] acquire_effect_def)
  qed
  ultimately show ?thesis by simp
qed

lemma does_frame:
  assumes "subscriber h c md Frame f"
  shows "does h c md plain_effect f"
proof -
  have push: "node_at s' = node_at s" if "coldtrace_thread_stack_push h md pc th s = Inr (th', s')" for pc th th' s s'
    using that by (auto simp: coldtrace_thread_stack_push_def grow_stack_def os_realloc_words_def Let_def fun_eq_iff split: if_splits)
  from assms show ?thesis by (cases rule: subscriber.cases) (auto simp: handler_defs does_def own_files_def push)
qed

lemma does_fini:
  assumes "usable c"
  shows "does h c md plain_effect (thread_fini h c md)"
proof (rule doesI)
  fix x x' assume x: "holds h c md x" and run: "thread_fini h c md x = Inr x'"
  let ?th = "get_coldtrace_thread h md (x_thread x)"
  have inv: "thread_inv h ?th" "w_tid (t_writer ?th) = h_self_id h md"
    using holds_get [OF x] by (simp_all add: holds_def trace_inv_def)
  obtain w s where w: "coldtrace_writer_fini h c (t_writer ?th) (x_os x) = Inr (w, s)" "x_os x' = s"
      "x_log x' = x_log x" "x_globals x' = x_globals x"
    using run by (auto simp: thread_fini_def coldtrace_thread_fini_def Let_def)
  have "own_files h c md (x_os x) s"
    using fini_effect(5) [OF inv_writer [OF inv(1)] usable_path_ok [OF assms] w(1)] inv(2)
    by (auto simp: own_files_def own_name_def)
  then show "own_files h c md (x_os x) (x_os x') \<and> (\<exists>new. x_log x' = x_log x @ new \<and> plain_effect (x_globals x) (x_globals x') new)"
    using w by simp
qed

lemma does_finish:
  assumes "subscriber h c md Finish f" "usable c" "vsync_ok h"
  shows "does h c md plain_effect f"
  using assms(1)
proof cases
  case (28 self)
  have lg: "does h c md plain_effect (log_atomic h c md COLDTRACE_THREAD_EXIT self)"
    by (rule does_log_atomic [OF assms(2,3)]) (simp add: sync_type_def)
  have kp: "keeps h c md (log_atomic h c md COLDTRACE_THREAD_EXIT self)"
    by (rule good_keeps [OF good_log_atomic [OF assms(2)]]) (simp_all add: kind_simps)
  show ?thesis
  proof (cases "h_self_id h md = h_main_thread h")
    case False
    then show ?thesis using 28 does_fini [OF assms(2), of h md] by (simp add: event_self_fini_def does_def)
  next
    case True
    show ?thesis
    proof (rule doesI)
      fix x x' assume x: "holds h c md x" and run: "f x = Inr x'"
      obtain x1 where x1: "log_atomic h c md COLDTRACE_THREAD_EXIT self x = Inr x1" "thread_fini h c md x1 = Inr x'"
        using run 28 True by (auto simp: event_self_fini_def)
      obtain new where n: "own_files h c md (x_os x) (x_os x1)" "x_log x1 = x_log x @ new" "plain_effect (x_globals x) (x_globals x1) new"
        using lg x x1(1) unfolding does_def by blast
      have "own_files h c md (x_os x1) (x_os x')" "x_log x' = x_log x1" "x_globals x' = x_globals x1"
        using does_fini [OF assms(2), of h md] keepsD [OF kp x x1(1)] x1(2)
        by (auto simp: does_def thread_fini_def)
      then show "own_files h c md (x_os x) (x_os x') \<and> (\<exists>new. x_log x' = x_log x @ new \<and> plain_effect (x_globals x) (x_globals x') new)"
        using n own_files_trans by simp
    qed
  qed
qed

lemma start_effect:
  assumes "subscriber h c md Start f" "usable c" "vsync_ok h" "holds h c md x" "unused (x_thread x) (x_log x)" "f x = Inr x'"
  shows "own_files h c md (x_os x) (x_os x') \<and> (\<exists>new. x_log x' = x_log x @ new \<and> plain_effect (x_globals x) (x_globals x') new)"
  using assms(1)
proof cases
  case (26 self stackaddr stacksize)
  then show ?thesis
    using does_log_start [OF assms(2,3), of md self stackaddr stacksize] started [OF assms(4,5)] assms(6)
    unfolding does_def event_thread_start_def by fastforce
qed

section \<open>All subscribers\<close>

text \<open>The condition under which a thread runs a subscriber, and what the subscriber then does.\<close>

definition allowed :: "config \<Rightarrow> phase \<Rightarrow> ctx \<Rightarrow> ctx \<Rightarrow> bool" where
  "allowed c ph x x' \<longleftrightarrow> (ph = Start \<longrightarrow> unused (x_thread x) (x_log x)) \<and>
     (ph = Frame \<longrightarrow> growable (x_thread x) \<and> deep_ok c (x_thread x'))"

primrec phase_effect :: "host \<Rightarrow> phase \<Rightarrow> globals \<Rightarrow> globals \<Rightarrow> logged list \<Rightarrow> bool" where
  "phase_effect h Plain = plain_effect"
| "phase_effect h Start = plain_effect"
| "phase_effect h (Acquire a) = acquire_effect a"
| "phase_effect h (Release a) = release_effect h a"
| "phase_effect h Finish = plain_effect"
| "phase_effect h Frame = plain_effect"

lemma subscriber_effect:
  assumes "usable c" "vsync_ok h" "holds h c md x" "subscriber h c md ph f" "f x = Inr x'" "allowed c ph x x'"
  obtains new where "own_files h c md (x_os x) (x_os x')" "x_log x' = x_log x @ new"
    "phase_effect h ph (x_globals x) (x_globals x') new" "holds h c md x'"
proof -
  have "thread_step h c md x x'"
    using assms(4-6) by (cases ph) (auto simp: allowed_def intro: step_log step_start step_frame)
  then have "holds h c md x'" using holds_step assms(1,3) by blast
  moreover have "own_files h c md (x_os x) (x_os x') \<and> (\<exists>new. x_log x' = x_log x @ new \<and> phase_effect h ph (x_globals x) (x_globals x') new)"
  proof (cases ph)
    case Start
    then show ?thesis using start_effect assms by (simp add: allowed_def)
  qed (use assms does_plain does_frame does_finish does_acquire does_release in \<open>simp_all add: does_def\<close>)
  ultimately show thesis using that by blast
qed

end
