(* ===== verification/Procmaps.thy ===== *)
theory Procmaps
  imports Writer
begin

text \<open>
  The copy of the process maps of \<open>src/procmaps.c\<close>: when the first thread after the main thread starts,
  or when a thread ends before that, \<open>/proc/<pid>/maps\<close> and the files mapped into the process are copied
  to the trace directory.

  The number of the process, \<open>getpid()\<close>, is an argument.  A C string ends before the first NUL of its
  array.  A return value of 0 is success and -1 an error, as in the code.
\<close>

section \<open>Files and directories\<close>

definition MAX_LINE_LENGTH :: nat where "MAX_LINE_LENGTH = 256"

definition MAPS_PATH_LENGTH :: nat where "MAPS_PATH_LENGTH = 1024"

definition MAX_BUFFER_SIZE :: nat where "MAX_BUFFER_SIZE = 4096"

definition MAX_UNIQUE_PATHS :: nat where "MAX_UNIQUE_PATHS = 1000"

text \<open>One call of \<open>mkdir\<close>: true unless it fails with an error other than \<open>EEXIST\<close>; an empty name
  is an error.\<close>

definition mkdir_once :: "os_env \<Rightarrow> string \<Rightarrow> os \<Rightarrow> bool \<times> os" where
  "mkdir_once env p s =
     (if p = [] then (False, tick s)
      else case os_mkdir env p s of
        (Inr _, s') \<Rightarrow> (True, s')
      | (Inl e, s') \<Rightarrow> (e = EEXIST, s'))"

text \<open>The loop of \<open>mkdir_\<close> over the positions of the path: a slash ends the name of a directory.\<close>

fun mkdir_loop :: "os_env \<Rightarrow> string \<Rightarrow> nat list \<Rightarrow> os \<Rightarrow> bool \<times> os" where
  "mkdir_loop env temp [] s = (True, s)"
| "mkdir_loop env temp (p # ps) s =
     (if temp ! p = CHR ''/'' then
        (case mkdir_once env (take p temp) s of
           (False, s') \<Rightarrow> (False, s')
         | (True, s') \<Rightarrow> mkdir_loop env temp ps s')
      else mkdir_loop env temp ps s)"

definition mkdir :: "os_env \<Rightarrow> string \<Rightarrow> os \<Rightarrow> (int \<times> os) res" where
  "mkdir env dir s =
     (let temp0 = snprintf_trunc MAPS_PATH_LENGTH dir in
      if temp0 = [] then Inl Out_Of_Bounds
      else
        let temp = (if last temp0 = CHR ''/'' then butlast temp0 else temp0) in
        case mkdir_loop env temp [1..<length temp] s of
          (False, s1) \<Rightarrow> Inr (-1, s1)
        | (True, s1) \<Rightarrow>
            (case mkdir_once env temp s1 of
               (False, s2) \<Rightarrow> Inr (-1, s2)
             | (True, s2) \<Rightarrow> Inr (0, s2)))"

text \<open>The loop of \<open>cp_\<close>; what \<open>fwrite\<close> returns is ignored.\<close>

function cp_loop :: "os_env \<Rightarrow> string \<Rightarrow> bytes \<Rightarrow> os \<Rightarrow> os" where
  "cp_loop env dst fsrc s =
     (case os_fread env MAX_BUFFER_SIZE fsrc s of
        (buffer, fsrc', s1) \<Rightarrow>
          if length buffer = 0 then s1 else cp_loop env dst fsrc' (os_fwrite env dst buffer s1))"
  by pat_completeness auto

termination
  by (relation "measure (\<lambda>(env, dst, fsrc, s). length fsrc)") (auto simp: os_fread_def Let_def)

declare cp_loop.simps [simp del]

definition cp :: "os_env \<Rightarrow> string \<Rightarrow> string \<Rightarrow> os \<Rightarrow> int \<times> os" where
  "cp env src dst s =
     (case os_fopen_read env src s of
        (None, s1) \<Rightarrow> (-1, s1)
      | (Some fsrc, s1) \<Rightarrow>
          (case os_open_trunc env dst s1 of
             (Inl _, s2) \<Rightarrow> (-1, s2)
           | (Inr _, s2) \<Rightarrow> (0, cp_loop env dst fsrc s2)))"

section \<open>Copying the maps and the mapped files\<close>

definition copy_proc_maps :: "os_env \<Rightarrow> u32 \<Rightarrow> string \<Rightarrow> os \<Rightarrow> (int \<times> os) res" where
  "copy_proc_maps env pid dir s =
     (let src = snprintf_trunc MAPS_PATH_LENGTH (''/proc/'' @ dec_int (sint pid) @ ''/maps'');
          dst = snprintf_trunc MAPS_PATH_LENGTH (dir @ ''/maps'')
      in bindR (mkdir env dir s) (\<lambda>(r, s1).
           if r \<noteq> 0 then Inr (-1, s1)
           else case cp env src dst s1 of (r2, s2) \<Rightarrow> Inr (if r2 \<noteq> 0 then -1 else 0, s2)))"

text \<open>The characters of an array up to its first NUL.\<close>

definition c_string :: "bytes \<Rightarrow> string" where
  "c_string bs = map (\<lambda>b. char_of (unat b)) (takeWhile (\<lambda>b. b \<noteq> 0) bs)"

text \<open>The path at the end of a line, without the newline; \<open>None\<close> when there is no slash.\<close>

definition line_path :: "bytes \<Rightarrow> string option" where
  "line_path line = map_option (takeWhile (\<lambda>c. c \<noteq> CHR 0x0A)) (strchr (CHR ''/'') (c_string line))"

text \<open>
  The body of the loop for the path of a line: the directory of the destination is made and the file
  copied.  The first component is false when the function returns at once.
\<close>

definition copy_one :: "os_env \<Rightarrow> string \<Rightarrow> string \<Rightarrow> os \<Rightarrow> (bool \<times> int \<times> os) res" where
  "copy_one env dir src s =
     (let dst = snprintf_trunc MAPS_PATH_LENGTH (dir @ src) in
      bindR (case strrchr (CHR ''/'') dst of
               None \<Rightarrow> Inr (0, s)
             | Some last_slash \<Rightarrow> mkdir env (take (length dst - length last_slash) dst) s) (\<lambda>(r, s1).
        if r \<noteq> 0 then Inr (False, -1, s1)
        else case cp env src dst s1 of (r2, s2) \<Rightarrow> Inr (True, r2, s2)))"

text \<open>Two calls of \<open>strcat\<close> on the array of the paths copied so far.\<close>

definition mark_copied :: "string \<Rightarrow> string \<Rightarrow> string res" where
  "mark_copied unique src =
     (let unique' = unique @ '':'' @ src in
      if MAPS_PATH_LENGTH * MAX_UNIQUE_PATHS < length unique' + 1 then Inl Out_Of_Bounds else Inr unique')"

lemma take_line_less: "take_line n bs \<noteq> [] \<Longrightarrow> length bs - length (take_line n bs) < length bs"
  by (cases bs; cases n) auto

function copy_loop :: "os_env \<Rightarrow> string \<Rightarrow> bytes \<Rightarrow> string \<Rightarrow> int \<Rightarrow> os \<Rightarrow> (int \<times> os) res" where
  "copy_loop env dir file unique ret s =
     (case os_fgets env MAX_LINE_LENGTH file s of
        (None, s1) \<Rightarrow> Inr (ret, s1)
      | (Some (line, file'), s1) \<Rightarrow>
          (case line_path line of
             None \<Rightarrow> copy_loop env dir file' unique ret s1
           | Some src \<Rightarrow>
               if strstr unique src then copy_loop env dir file' unique ret s1
               else if has_ext src ''.bin'' then copy_loop env dir file' unique ret s1
               else
                 (case copy_one env dir src s1 of
                    Inl e \<Rightarrow> Inl e
                  | Inr (False, r, s2) \<Rightarrow> Inr (-1, s2)
                  | Inr (True, r, s2) \<Rightarrow>
                      if r \<noteq> 0 then copy_loop env dir file' unique (-1) s2
                      else (case mark_copied unique src of
                              Inl e \<Rightarrow> Inl e
                            | Inr unique' \<Rightarrow> copy_loop env dir file' unique' ret s2))))"
  by pat_completeness auto

termination
  by (relation "measure (\<lambda>(env, dir, file, unique, ret, s). length file)")
     (auto simp: os_fgets_def Let_def take_line_less split: if_splits)

declare copy_loop.simps [simp del]

definition copy_mapped_files :: "os_env \<Rightarrow> string \<Rightarrow> os \<Rightarrow> (int \<times> os) res" where
  "copy_mapped_files env dir s =
     (let proc_maps = snprintf_trunc MAPS_PATH_LENGTH (dir @ ''/maps'') in
      case os_fopen_read env proc_maps s of
        (None, s1) \<Rightarrow> Inr (-1, s1)
      | (Some file, s1) \<Rightarrow> copy_loop env dir file [] 0 s1)"

section \<open>Subscribers\<close>

record procmaps =
  maps_copied :: bool
  pm_lock :: bool

definition procmaps_init :: "(string \<Rightarrow> string option) \<Rightarrow> procmaps \<Rightarrow> procmaps" where
  "procmaps_init getenv m =
     (if getenv ''COLDTRACE_DISABLE_COPY'' \<noteq> None then m\<lparr>maps_copied := True\<rparr> else m)"

text \<open>Failures of the two copies are only logged.\<close>

definition copy_maps_and_mapped_files :: "host \<Rightarrow> config \<Rightarrow> u32 \<Rightarrow> procmaps \<Rightarrow> os \<Rightarrow> (procmaps \<times> os) res" where
  "copy_maps_and_mapped_files h c pid m s =
     (let m1 = m\<lparr>maps_copied := True\<rparr>; dir = coldtrace_get_path c in
      if dir = [] then Inr (m1, s)
      else
        bindR (copy_proc_maps (h_env h) pid dir s) (\<lambda>(_, s1).
        bindR (copy_mapped_files (h_env h) dir s1) (\<lambda>(_, s2). Inr (m1, s2))))"

definition with_lock :: "host \<Rightarrow> (procmaps \<Rightarrow> os \<Rightarrow> (procmaps \<times> os) res) \<Rightarrow> procmaps \<Rightarrow> os \<Rightarrow> (procmaps \<times> os) res" where
  "with_lock h k m s =
     (case h_acquire h (pm_lock m) of
        None \<Rightarrow> Inl No_Progress
      | Some l \<Rightarrow>
          bindR (k (m\<lparr>pm_lock := l\<rparr>) s) (\<lambda>(m1, s1). Inr (m1\<lparr>pm_lock := h_release h (pm_lock m1)\<rparr>, s1)))"

definition procmaps_self_init :: "host \<Rightarrow> config \<Rightarrow> u32 \<Rightarrow> u64 \<Rightarrow> procmaps \<Rightarrow> os \<Rightarrow> (procmaps \<times> os) res" where
  "procmaps_self_init h c pid md =
     with_lock h (\<lambda>m s. if maps_copied m \<or> h_self_id h md = h_main_thread h then Inr (m, s)
                        else copy_maps_and_mapped_files h c pid m s)"

definition procmaps_self_fini :: "host \<Rightarrow> config \<Rightarrow> u32 \<Rightarrow> u64 \<Rightarrow> procmaps \<Rightarrow> os \<Rightarrow> (procmaps \<times> os) res" where
  "procmaps_self_fini h c pid md =
     with_lock h (\<lambda>m s. if maps_copied m then Inr (m, s) else copy_maps_and_mapped_files h c pid m s)"

end
