(* ===== verification/Procmaps_Correct.thy ===== *)
theory Procmaps_Correct
  imports Procmaps
begin

text \<open>
  What copying the maps does to the file system: directories and the destinations of the copies appear,
  what exists elsewhere stays, and a copied file has the bytes of its source.
\<close>

section \<open>Copying a file\<close>

text \<open>Streams that transfer what they are asked to.\<close>

definition full_transfers :: "os_env \<Rightarrow> bool" where
  "full_transfers env \<longleftrightarrow> (\<forall>t. MAX_BUFFER_SIZE \<le> ev_fread env t \<and> MAX_BUFFER_SIZE \<le> ev_fwrite env t)"

lemma node_at_fwrite:
  assumes "full_transfers env" "length buf \<le> MAX_BUFFER_SIZE" "node_at s p = Some (Reg old)"
  shows "node_at (os_fwrite env p buf s) q = (if q = p then Some (Reg (old @ buf)) else node_at s q)"
proof -
  have "take (ev_fwrite env (clock s)) buf = buf" using assms(1,2) by (simp add: full_transfers_def order_trans)
  then show ?thesis using assms(3) by (simp add: os_fwrite_def node_at_append_file)
qed

lemma cp_loop_frame: "q \<noteq> dst \<Longrightarrow> node_at (cp_loop env dst fl s) q = node_at s q"
proof (induction env dst fl s rule: cp_loop.induct)
  case (1 env dst fl s)
  obtain buf rest s1 where r: "os_fread env MAX_BUFFER_SIZE fl s = (buf, rest, s1)" by (metis surj_pair)
  have s1: "node_at s1 q = node_at s q" using r by (auto simp: os_fread_def Let_def)
  show ?case
    using 1 s1 by (subst cp_loop.simps) (simp add: r os_fwrite_def node_at_append_other)
qed

lemma cp_loop_exact:
  "full_transfers env \<Longrightarrow> node_at s dst = Some (Reg old) \<Longrightarrow> node_at (cp_loop env dst fl s) dst = Some (Reg (old @ fl))"
proof (induction env dst fl s arbitrary: old rule: cp_loop.induct)
  case (1 env dst fl s)
  let ?n = "MAX_BUFFER_SIZE"
  have r: "os_fread env ?n fl s = (take ?n fl, drop ?n fl, tick s)"
    using 1(2) by (simp add: os_fread_def full_transfers_def min_def Let_def)
  show ?case
  proof (cases "fl = []")
    case True
    then show ?thesis using 1(3) r by (subst cp_loop.simps) simp
  next
    case False
    then have ne: "length (take ?n fl) \<noteq> 0" by (simp add: MAX_BUFFER_SIZE_def)
    have nd: "node_at (os_fwrite env dst (take ?n fl) (tick s)) dst = Some (Reg (old @ take ?n fl))"
      using node_at_fwrite [OF 1(2), of "take ?n fl" "tick s" dst old dst] 1(3) by simp
    show ?thesis
      using 1(1) [OF r [symmetric] refl ne 1(2) nd] ne by (subst cp_loop.simps) (simp add: r)
  qed
qed

lemma cp_frame: "cp env src dst s = (r, s') \<Longrightarrow> q \<noteq> dst \<Longrightarrow> node_at s' q = node_at s q"
  by (auto simp: cp_def os_fopen_read_def os_open_trunc_def cp_loop_frame split: option.splits sum.splits if_splits)

lemma cp_result: "cp env src dst s = (r, s') \<Longrightarrow> r = 0 \<or> r = -1 \<and> node_at s' dst = node_at s dst"
  by (auto simp: cp_def os_fopen_read_def os_open_trunc_def split: option.splits sum.splits if_splits)

lemma cp_exact:
  assumes "full_transfers env" "node_at s src = Some (Reg bs)" "cp env src dst s = (0, s')"
  shows "node_at s' dst = Some (Reg bs)"
proof -
  have "s' = cp_loop env dst bs (tick (set_node dst (Reg []) (tick s)))"
    using assms(2,3) by (auto simp: cp_def os_fopen_read_def os_open_trunc_def split: if_splits)
  then show ?thesis using cp_loop_exact [OF assms(1), of _ dst "[]" bs] by simp
qed

section \<open>Making directories\<close>

text \<open>Directories may appear; what exists stays.\<close>

definition only_dirs :: "os \<Rightarrow> os \<Rightarrow> bool" where
  "only_dirs s s' \<longleftrightarrow> (\<forall>q. node_at s' q = node_at s q \<or> node_at s q = None \<and> node_at s' q = Some Dir)"

lemma only_dirs_refl [simp]: "only_dirs s s"
  by (simp add: only_dirs_def)

lemma only_dirs_trans: "only_dirs s s' \<Longrightarrow> only_dirs s' s'' \<Longrightarrow> only_dirs s s''"
  unfolding only_dirs_def by (metis option.distinct(1))

lemma mkdir_once_dirs: "mkdir_once env p s = (r, s') \<Longrightarrow> only_dirs s s'"
  by (auto simp: mkdir_once_def os_mkdir_def only_dirs_def split: if_splits option.splits)

lemma mkdir_loop_dirs: "mkdir_loop env temp ps s = (r, s') \<Longrightarrow> only_dirs s s'"
proof (induction ps arbitrary: s)
  case (Cons p ps)
  obtain ok s1 where m: "mkdir_once env (take p temp) s = (ok, s1)" by (metis surj_pair)
  show ?case
    using Cons.prems Cons.IH [of s] Cons.IH [of s1] mkdir_once_dirs [OF m] only_dirs_trans [of s s1]
    by (cases ok) (auto simp: m split: if_splits)
qed simp

lemma mkdir_dirs: "mkdir env p s = Inr (r, s') \<Longrightarrow> only_dirs s s'"
proof -
  assume run: "mkdir env p s = Inr (r, s')"
  define temp where "temp = (let t = snprintf_trunc MAPS_PATH_LENGTH p in if last t = CHR ''/'' then butlast t else t)"
  obtain a s1 where l: "mkdir_loop env temp [1..<length temp] s = (a, s1)" by (metis surj_pair)
  obtain b s2 where o: "mkdir_once env temp s1 = (b, s2)" by (metis surj_pair)
  have "s' = s1 \<or> s' = s2"
    using run l o by (cases a; cases b) (auto simp: mkdir_def Let_def temp_def split: if_splits)
  then show ?thesis using mkdir_loop_dirs [OF l] mkdir_once_dirs [OF o] only_dirs_trans by blast
qed

lemma mkdir_total: "p \<noteq> [] \<Longrightarrow> \<exists>r s'. mkdir env p s = Inr (r, s')"
  by (simp add: mkdir_def snprintf_trunc_def MAPS_PATH_LENGTH_def Let_def split: prod.splits bool.splits)

section \<open>The paths of the maps file\<close>

text \<open>The lines as \<open>fgets\<close> cuts them, and the paths at their ends.\<close>

function file_lines :: "bytes \<Rightarrow> bytes list" where
  "file_lines bs =
     (let line = take_line (MAX_LINE_LENGTH - 1) bs in
      if line = [] then [] else line # file_lines (drop (length line) bs))"
  by pat_completeness auto

termination
  by (relation "measure length") (auto simp: take_line_less)

declare file_lines.simps [simp del]

definition maps_paths :: "bytes \<Rightarrow> string list" where
  "maps_paths bs = List.map_filter line_path (file_lines bs)"

text \<open>The array of the copied paths.\<close>

definition marks :: "string list \<Rightarrow> string" where
  "marks ps = concat (map ((#) (CHR '':'')) ps)"

lemma marks_simps [simp]: "marks [] = []" "marks (ps @ [p]) = marks ps @ '':'' @ p"
  by (simp_all add: marks_def)

lemma length_take_line: "length (take_line n bs) \<le> n"
  by (induction n bs rule: take_line.induct) auto

lemma take_line_le: "length (take_line n bs) \<le> length bs"
  by (induction n bs rule: take_line.induct) auto

lemma strchr_Some: "strchr c s = Some r \<Longrightarrow> \<exists>t. r = c # t \<and> length r \<le> length s"
  by (induction c s rule: strchr.induct) (auto split: if_splits)

lemma length_c_string: "length (c_string bs) \<le> length bs"
  by (simp add: c_string_def length_takeWhile_le)

lemma line_path_shape:
  assumes "line_path line = Some p"
  shows "\<exists>t. p = CHR ''/'' # t" "length p \<le> length line"
proof -
  obtain r where r: "strchr (CHR ''/'') (c_string line) = Some r" "p = takeWhile (\<lambda>c. c \<noteq> CHR 0x0A) r"
    using assms by (auto simp: line_path_def)
  obtain t where t: "r = CHR ''/'' # t" "length r \<le> length line"
    using strchr_Some [OF r(1)] length_c_string [of line] by auto
  then show "\<exists>t. p = CHR ''/'' # t" "length p \<le> length line"
    using r(2) length_takeWhile_le [of "\<lambda>c. c \<noteq> CHR 0x0A" t] by simp_all
qed

lemma starts_with_mono: "starts_with p s \<Longrightarrow> starts_with p (s @ t)"
  by (induction p s rule: starts_with.induct) simp_all

lemma strstr_mono: "strstr s p \<Longrightarrow> strstr (s @ t) p"
proof (induction s)
  case Nil
  then show ?case by (cases t) simp_all
next
  case (Cons x s)
  then show ?case using starts_with_mono [of p "x # s" t] by auto
qed

lemma strstr_suffix: "strstr (s @ p) p"
proof (induction s)
  case Nil
  then show ?case using starts_with_append [of p "[]"] by (cases p) simp_all
qed simp

lemma strstr_marks: "p \<in> set ps \<Longrightarrow> strstr (marks ps) p"
proof (induction ps rule: rev_induct)
  case (snoc x ps)
  then show ?case using strstr_mono strstr_suffix [of "marks ps @ '':''" x] by (auto simp: append_assoc)
qed simp

section \<open>Copying the mapped files\<close>

lemma copy_one_cases:
  assumes "length dir + length src < MAPS_PATH_LENGTH" "dir \<noteq> []" "src = CHR ''/'' # t"
  obtains (dirfail) s1 where "copy_one env dir src s = Inr (False, -1, s1)" "only_dirs s s1"
  | (copied) s1 r s2 where "copy_one env dir src s = Inr (True, r, s2)" "only_dirs s s1" "cp env src (dir @ src) s1 = (r, s2)"
proof -
  have dst: "snprintf_trunc MAPS_PATH_LENGTH (dir @ src) = dir @ src" using assms(1) by (simp add: snprintf_fits)
  obtain r pre where r: "strrchr (CHR ''/'') (dir @ src) = Some r" "dir @ src = pre @ r" "pre \<noteq> []"
  proof -
    have "strrchr (CHR ''/'') src \<noteq> None" using assms(3) by (simp only: strrchr_None) simp
    then obtain r where "strrchr (CHR ''/'') src = Some r" by blast
    then obtain pre post where r: "src = pre @ r" "r = CHR ''/'' # post" "CHR ''/'' \<notin> set post" using strrchr_Some by blast
    then show thesis using that [of r "dir @ pre"] assms(2) strrchr_split [OF r(3), of "dir @ pre"] by simp
  qed
  then have d: "take (length (dir @ src) - length r) (dir @ src) = pre" by simp
  obtain q s1 where m: "mkdir env pre s = Inr (q, s1)" using mkdir_total [OF r(3)] by blast
  obtain k s2 where c: "cp env src (dir @ src) s1 = (k, s2)" by (metis surj_pair)
  have one: "copy_one env dir src s = (if q \<noteq> 0 then Inr (False, -1, s1) else Inr (True, k, s2))"
    unfolding copy_one_def dst Let_def using r(1) d m c by simp
  show thesis
    using one mkdir_dirs [OF m] c by (cases "q = 0") (auto intro: dirfail copied)
qed

text \<open>
  What the loop maintains: the sources are as they were, and the files copied so far are at their
  destinations.
\<close>

definition copied_ok :: "string \<Rightarrow> string set \<Rightarrow> os \<Rightarrow> string list \<Rightarrow> os \<Rightarrow> bool" where
  "copied_ok dir P s0 ds s \<longleftrightarrow> set ds \<subseteq> P \<and> (\<forall>q\<in>P. node_at s0 q \<noteq> None \<longrightarrow> node_at s q = node_at s0 q) \<and>
     (\<forall>q\<in>set ds. \<forall>bs. node_at s0 q = Some (Reg bs) \<longrightarrow> node_at s (dir @ q) = Some (Reg bs))"

lemma copied_ok_dirs: "copied_ok dir P s0 ds s \<Longrightarrow> only_dirs s s' \<Longrightarrow> copied_ok dir P s0 ds s'"
  unfolding copied_ok_def only_dirs_def by (metis option.distinct(1))

lemma copied_ok_tick [simp]: "copied_ok dir P s0 ds (tick s) = copied_ok dir P s0 ds s"
  by (simp add: copied_ok_def)

lemma copied_ok_cp:
  assumes "full_transfers env" "copied_ok dir P s0 ds s" "src \<in> P" "src \<notin> set ds" "\<forall>q\<in>P. q \<noteq> dir @ src"
    and run: "cp env src (dir @ src) s = (r, s')"
  shows "copied_ok dir P s0 ds s'" "r = 0 \<Longrightarrow> copied_ok dir P s0 (ds @ [src]) s'"
proof -
  note fr = cp_frame [OF run]
  have src: "node_at s' q = node_at s q" if "q \<in> P" for q using fr assms(5) that by blast
  have old: "node_at s' (dir @ q) = node_at s (dir @ q)" if "q \<in> set ds" for q
    by (rule fr) (use that assms(4) in auto)
  show ok: "copied_ok dir P s0 ds s'" using assms(2) src old by (simp add: copied_ok_def)
  show "copied_ok dir P s0 (ds @ [src]) s'" if r: "r = 0"
  proof -
    have "node_at s' (dir @ src) = Some (Reg bs)" if "node_at s0 src = Some (Reg bs)" for bs
    proof (rule cp_exact [OF assms(1)])
      show "node_at s src = Some (Reg bs)" using assms(2,3) that by (simp add: copied_ok_def)
      show "cp env src (dir @ src) s = (0, s')" using run r by simp
    qed
    then show ?thesis using ok assms(3) by (auto simp: copied_ok_def)
  qed
qed

definition covered :: "string list \<Rightarrow> string \<Rightarrow> bool" where
  "covered ds p \<longleftrightarrow> has_ext p ''.bin'' \<or> strstr (marks ds) p"

lemma covered_mono: "covered ds p \<Longrightarrow> covered (ds @ nx) p"
  using strstr_mono by (auto simp: covered_def marks_def)

lemma maps_paths_step:
  assumes "take_line (MAX_LINE_LENGTH - 1) bs = line" "line \<noteq> []"
  shows "maps_paths bs = (case line_path line of None \<Rightarrow> [] | Some p \<Rightarrow> [p]) @ maps_paths (drop (length line) bs)"
  using assms by (simp add: maps_paths_def file_lines.simps [of bs] Let_def List.map_filter_simps split: option.split)

lemma maps_paths_empty: "take_line (MAX_LINE_LENGTH - 1) bs = [] \<Longrightarrow> maps_paths bs = []"
  by (simp add: maps_paths_def file_lines.simps [of bs] List.map_filter_simps)

definition loop_result :: "string \<Rightarrow> string set \<Rightarrow> os \<Rightarrow> string list \<Rightarrow> bytes \<Rightarrow> int \<Rightarrow> (int \<times> os) res \<Rightarrow> bool" where
  "loop_result dir P s0 ds fl ret res \<longleftrightarrow>
     (\<exists>r s'. res = Inr (r, s') \<and> (r = 0 \<longrightarrow> ret = 0 \<and>
        (\<exists>nx. copied_ok dir P s0 (ds @ nx) s' \<and> (\<forall>p\<in>set (maps_paths fl). covered (ds @ nx) p))))"

lemma loop_skip:
  assumes "loop_result dir P s0 ds (drop (length line) fl) ret res" "take_line (MAX_LINE_LENGTH - 1) fl = line" "line \<noteq> []"
    and "line_path line = None \<or> (\<exists>p. line_path line = Some p \<and> covered ds p)"
  shows "loop_result dir P s0 ds fl ret res"
  using assms(1,4) covered_mono [of ds] maps_paths_step [OF assms(2,3)] by (fastforce simp: loop_result_def)

lemma loop_copy:
  assumes "loop_result dir P s0 (ds @ [p]) (drop (length line) fl) ret res" "take_line (MAX_LINE_LENGTH - 1) fl = line" "line \<noteq> []"
    and "line_path line = Some p"
  shows "loop_result dir P s0 ds fl ret res"
proof -
  have "covered (ds @ [p] @ nx) p" for nx
    using covered_mono [of "ds @ [p]" p nx] strstr_marks [of p "ds @ [p]"] by (simp add: covered_def)
  then show ?thesis
    using assms(1,4) maps_paths_step [OF assms(2,3)] unfolding loop_result_def by (fastforce simp: append_assoc)
qed

abbreviation maps_room :: "string list \<Rightarrow> bytes \<Rightarrow> bool" where
  "maps_room ds fl \<equiv> length (marks ds) + 2 * length fl < MAPS_PATH_LENGTH * MAX_UNIQUE_PATHS"

lemma copy_loop_step:
  assumes line: "take_line (MAX_LINE_LENGTH - 1) fl = line" and rest: "drop (length line) fl = rest"
  shows "copy_loop env dir fl u ret s =
     (if line = [] \<or> ev_fread env (clock s) = 0 then Inr (ret, tick s)
      else case line_path line of
        None \<Rightarrow> copy_loop env dir rest u ret (tick s)
      | Some p \<Rightarrow>
          if strstr u p \<or> has_ext p ''.bin'' then copy_loop env dir rest u ret (tick s)
          else (case copy_one env dir p (tick s) of
             Inl e \<Rightarrow> Inl e
           | Inr (False, r, s2) \<Rightarrow> Inr (-1, s2)
           | Inr (True, r, s2) \<Rightarrow>
               if r \<noteq> 0 then copy_loop env dir rest u (-1) s2
               else (case mark_copied u p of Inl e \<Rightarrow> Inl e | Inr u' \<Rightarrow> copy_loop env dir rest u' ret s2)))"
proof -
  have "os_fgets env MAX_LINE_LENGTH fl s =
      (if line = [] \<or> ev_fread env (clock s) = 0 then None else Some (line, rest), tick s)"
    using line rest by (simp add: os_fgets_def Let_def)
  then show ?thesis by (subst copy_loop.simps) (auto split: option.split)
qed

lemma full_reads: "full_transfers env \<Longrightarrow> ev_fread env t \<noteq> 0"
  by (simp add: full_transfers_def MAX_BUFFER_SIZE_def) (meson less_le_trans zero_less_numeral)

text \<open>A file that is not marked yet: its directory is made, the file copied and marked.\<close>

lemma loop_new:
  assumes env: "full_transfers env" and dir: "dir \<noteq> []" "length dir < 128" and P: "p \<in> P" "\<forall>q\<in>P. q \<noteq> dir @ p"
    and line: "take_line (MAX_LINE_LENGTH - 1) fl = line" "line_path line = Some p" "drop (length line) fl = rest"
    and new: "\<not> strstr (marks ds) p" "\<not> has_ext p ''.bin''" and ok: "copied_ok dir P s0 ds s" and room: "maps_room ds fl"
    and IH: "\<And>ds' ret' s'. copied_ok dir P s0 ds' s' \<Longrightarrow> maps_room ds' rest \<Longrightarrow>
      loop_result dir P s0 ds' rest ret' (copy_loop env dir rest (marks ds') ret' s')"
  shows "loop_result dir P s0 ds fl ret (copy_loop env dir fl (marks ds) ret s)"
proof -
  obtain t where t: "p = CHR ''/'' # t" using line_path_shape(1) [OF line(2)] by blast
  have lp: "length p \<le> length line" by (rule line_path_shape(2) [OF line(2)])
  then have ne: "line \<noteq> []" using t by auto
  have len: "length line \<le> 255" "length line + length rest = length fl"
    using length_take_line [of "MAX_LINE_LENGTH - 1" fl] take_line_le [of "MAX_LINE_LENGTH - 1" fl] line(1,3)
    by (auto simp: MAX_LINE_LENGTH_def)
  have fits: "length dir + length p < MAPS_PATH_LENGTH" using dir(2) lp len(1) by (simp add: MAPS_PATH_LENGTH_def)
  note step = copy_loop_step [OF line(1,3), of env dir "marks ds" ret s] line(2) new ne full_reads [OF env]
  from fits dir(1) t show ?thesis
  proof (cases rule: copy_one_cases [where env = env and s = "tick s"])
    case (dirfail s1)
    then show ?thesis using step by (simp add: loop_result_def)
  next
    case (copied s1 r s2)
    have nd: "p \<notin> set ds" using strstr_marks new(1) by blast
    have "copied_ok dir P s0 ds s1" using copied_ok_dirs [OF _ copied(2)] ok by simp
    note cp = copied_ok_cp [OF env this P(1) nd P(2) copied(3)]
    show ?thesis
    proof (cases "r = 0")
      case False
      then have "copy_loop env dir fl (marks ds) ret s = copy_loop env dir rest (marks ds) (-1) s2" using step copied(1) by simp
      then show ?thesis using IH [OF cp(1), of "-1"] room len(2) by (auto simp: loop_result_def)
    next
      case True
      have room': "maps_room (ds @ [p]) rest" using room len(2) lp t by simp
      then have "mark_copied (marks ds) p = Inr (marks (ds @ [p]))" by (simp add: mark_copied_def Let_def)
      then have "copy_loop env dir fl (marks ds) ret s = copy_loop env dir rest (marks (ds @ [p])) ret s2"
        using step copied(1) True by simp
      then show ?thesis using loop_copy [OF _ line(1) ne line(2)] IH [OF cp(2) [OF True] room', of ret] line(3) by metis
    qed
  qed
qed

lemma copy_loop_ok:
  assumes env: "full_transfers env" and dir: "dir \<noteq> []" "length dir < 128" and P: "\<forall>p\<in>P. \<forall>q\<in>P. p \<noteq> dir @ q"
  shows "set (maps_paths fl) \<subseteq> P \<Longrightarrow> copied_ok dir P s0 ds s \<Longrightarrow> maps_room ds fl \<Longrightarrow>
     loop_result dir P s0 ds fl ret (copy_loop env dir fl (marks ds) ret s)"
proof (induction "length fl" arbitrary: fl ds ret s rule: less_induct)
  case less
  define line where "line = take_line (MAX_LINE_LENGTH - 1) fl"
  define rest where "rest = drop (length line) fl"
  note line = line_def [symmetric] and rest = rest_def [symmetric]
  note step = copy_loop_step [OF line rest, of env dir "marks ds" ret s] full_reads [OF env]
  show ?case
  proof (cases "line = []")
    case True
    then show ?thesis
      using less.prems(2) maps_paths_empty [of fl] step line by (auto simp: loop_result_def intro!: exI [of _ "[]"])
  next
    case False
    have len: "length rest < length fl" using take_line_less [of "MAX_LINE_LENGTH - 1" fl] False by (simp add: line_def rest_def)
    note paths = maps_paths_step [OF line False, unfolded rest]
    have IH: "loop_result dir P s0 ds' rest ret' (copy_loop env dir rest (marks ds') ret' s')"
      if "copied_ok dir P s0 ds' s'" "maps_room ds' rest" for ds' ret' s'
      by (rule less.hyps [OF len _ that]) (use less.prems(1) paths in auto)
    have rm: "maps_room ds rest" using less.prems(3) len by simp
    show ?thesis
    proof (cases "line_path line = None \<or> (\<exists>p. line_path line = Some p \<and> covered ds p)")
      case True
      then have "copy_loop env dir fl (marks ds) ret s = copy_loop env dir rest (marks ds) ret (tick s)"
        using step False by (auto simp: covered_def)
      then show ?thesis using loop_skip [OF _ line False True] IH [of ds "tick s" ret] less.prems(2) rm rest by simp
    next
      case new: False
      then obtain p where p: "line_path line = Some p" "\<not> strstr (marks ds) p" "\<not> has_ext p ''.bin''" by (auto simp: covered_def)
      have pP: "p \<in> P" using less.prems(1) paths p(1) by simp
      then have "\<forall>q\<in>P. q \<noteq> dir @ p" using P by blast
      from loop_new [OF env dir pP this line p(1) rest p(2,3) less.prems(2,3) IH] show ?thesis by blast
    qed
  qed
qed

section \<open>Trace files\<close>

text \<open>No trace file that exists is touched, whatever the operating system answers.\<close>

definition keeps_bin :: "os \<Rightarrow> os \<Rightarrow> bool" where
  "keeps_bin s s' \<longleftrightarrow> (\<forall>q. has_ext q ''.bin'' \<longrightarrow> node_at s q \<noteq> None \<longrightarrow> node_at s' q = node_at s q)"

lemma keeps_bin_trans: "keeps_bin s s' \<Longrightarrow> keeps_bin s' s'' \<Longrightarrow> keeps_bin s s''"
  unfolding keeps_bin_def by metis

lemma keeps_bin_refl [simp]: "keeps_bin s s" "keeps_bin s (tick s)"
  by (simp_all add: keeps_bin_def)

lemma only_dirs_bin: "only_dirs s s' \<Longrightarrow> keeps_bin s s'"
  unfolding only_dirs_def keeps_bin_def by metis

lemma cp_bin: "cp env src dst s = (r, s') \<Longrightarrow> \<not> has_ext dst ''.bin'' \<Longrightarrow> keeps_bin s s'"
  unfolding keeps_bin_def using cp_frame by metis

lemma bin_suffix:
  assumes "has_ext (dir @ CHR ''/'' # t) ''.bin''"
  shows "has_ext (CHR ''/'' # t) ''.bin''"
proof -
  obtain pre where e: "dir @ CHR ''/'' # t = pre @ ''.bin''" using assms by (auto simp: has_ext_iff)
  from e [unfolded append_eq_append_conv2] show ?thesis
  proof (elim exE disjE conjE)
    fix us assume "dir = pre @ us" "us @ CHR ''/'' # t = ''.bin''"
    then have "CHR ''/'' \<in> set ''.bin''" by (metis in_set_conv_decomp)
    then show ?thesis by simp
  next
    fix us assume "dir @ us = pre" "CHR ''/'' # t = us @ ''.bin''"
    then show ?thesis by (simp only: has_ext_iff) auto
  qed
qed

lemma copy_one_bin:
  assumes "length dir + length src < MAPS_PATH_LENGTH" "dir \<noteq> []" "src = CHR ''/'' # t" "\<not> has_ext src ''.bin''"
    and run: "copy_one env dir src s = Inr (k, r, s')"
  shows "keeps_bin s s'"
  using assms(1-3)
proof (cases rule: copy_one_cases [where env = env and s = s])
  case (dirfail s1)
  then show ?thesis using run only_dirs_bin by auto
next
  case (copied s1 r2 s2)
  have "\<not> has_ext (dir @ src) ''.bin''" using bin_suffix assms(3,4) by blast
  then have "keeps_bin s1 s2" by (rule cp_bin [OF copied(3)])
  then have "keeps_bin s s2" by (rule keeps_bin_trans [OF only_dirs_bin [OF copied(2)]])
  then show ?thesis using run copied(1) by simp
qed

lemma copy_loop_bin:
  assumes dir: "dir \<noteq> []" "length dir < 128"
  shows "copy_loop env dir fl u ret s = Inr (r, s') \<Longrightarrow> keeps_bin s s'"
proof (induction "length fl" arbitrary: fl u ret s rule: less_induct)
  case less
  define line where "line = take_line (MAX_LINE_LENGTH - 1) fl"
  define rest where "rest = drop (length line) fl"
  note run = less.prems [unfolded copy_loop_step [OF line_def [symmetric] rest_def [symmetric]]]
  show ?case
  proof (cases "line = [] \<or> ev_fread env (clock s) = 0")
    case True
    then show ?thesis using run by auto
  next
    case False
    then have "length rest < length fl" using take_line_less [of "MAX_LINE_LENGTH - 1" fl] by (simp add: line_def rest_def)
    then have go: "keeps_bin s s'" if "copy_loop env dir rest u' ret' s1 = Inr (r, s')" "keeps_bin s s1" for u' ret' s1
      using less.hyps [of rest] that keeps_bin_trans by blast
    show ?thesis
    proof (cases "line_path line = None \<or> (\<exists>p. line_path line = Some p \<and> (strstr u p \<or> has_ext p ''.bin''))")
      case True
      then have "copy_loop env dir rest u ret (tick s) = Inr (r, s')" using run False by auto
      then show ?thesis by (rule go) simp
    next
      case new: False
      then obtain p where p: "line_path line = Some p" "\<not> strstr u p" "\<not> has_ext p ''.bin''" by auto
      obtain t where t: "p = CHR ''/'' # t" using line_path_shape(1) [OF p(1)] by blast
      have "length dir + length p < MAPS_PATH_LENGTH"
        using dir(2) line_path_shape(2) [OF p(1)] length_take_line [of "MAX_LINE_LENGTH - 1" fl]
        by (simp add: MAPS_PATH_LENGTH_def MAX_LINE_LENGTH_def line_def)
      note one = copy_one_bin [OF this dir(1) t p(3), of env "tick s"]
      obtain k q s2 where c: "copy_one env dir p (tick s) = Inr (k, q, s2)"
        using run False p by (cases "copy_one env dir p (tick s)") auto
      have kb: "keeps_bin s s2" using one [OF c] keeps_bin_trans keeps_bin_refl(2) by blast
      show ?thesis
        using run False p c kb go by (cases k; cases "mark_copied u p") (auto split: if_splits)
    qed
  qed
qed

lemma copy_maps_keeps_bin:
  assumes "length (path c) < 128" and run: "copy_maps_and_mapped_files h c pid m s = Inr (m', s')"
  shows "keeps_bin s s'"
proof (cases "path c = []")
  case True
  then show ?thesis using run by (simp add: copy_maps_and_mapped_files_def)
next
  case False
  let ?env = "h_env h" and ?dir = "path c"
  obtain r1 s1 r2 where c1: "copy_proc_maps ?env pid ?dir s = Inr (r1, s1)" and c2: "copy_mapped_files ?env ?dir s1 = Inr (r2, s')"
    using run False by (auto simp: copy_maps_and_mapped_files_def Let_def)
  have dst: "snprintf_trunc MAPS_PATH_LENGTH (?dir @ ''/maps'') = ?dir @ ''/maps''"
    using assms(1) by (intro snprintf_fits) (simp add: MAPS_PATH_LENGTH_def)
  have nb: "\<not> has_ext (?dir @ ''/maps'') ''.bin''"
    using bin_suffix [of ?dir "''maps''"] by (auto simp: has_ext_def)
  obtain q s0 where mk: "mkdir ?env ?dir s = Inr (q, s0)" using mkdir_total [OF False] by blast
  have "keeps_bin s s0" by (rule only_dirs_bin [OF mkdir_dirs [OF mk]])
  moreover have "keeps_bin s0 s1"
    using c1 mk cp_bin [OF _ nb] by (auto simp: copy_proc_maps_def dst Let_def split: if_splits prod.splits)
  moreover have "keeps_bin s1 s'"
  proof (cases "os_fopen_read ?env (?dir @ ''/maps'') s1")
    case (Pair f s2)
    then have s2: "s2 = tick s1" by (auto simp: os_fopen_read_def)
    show ?thesis
    proof (cases f)
      case None
      then show ?thesis using c2 Pair s2 by (auto simp: copy_mapped_files_def dst)
    next
      case (Some fl)
      then have "copy_loop ?env ?dir fl [] 0 s2 = Inr (r2, s')" using c2 Pair by (simp add: copy_mapped_files_def dst)
      then show ?thesis using copy_loop_bin [OF False assms(1)] s2 keeps_bin_refl(2) keeps_bin_trans by blast
    qed
  qed
  ultimately show ?thesis using keeps_bin_trans by blast
qed

lemma procmaps_keep_bin:
  assumes "length (path c) < 128"
  shows "procmaps_self_init h c pid md m s = Inr (m', s') \<Longrightarrow> keeps_bin s s'"
    and "procmaps_self_fini h c pid md m s = Inr (m', s') \<Longrightarrow> keeps_bin s s'"
  using copy_maps_keeps_bin [OF assms]
  by (auto simp: procmaps_self_init_def procmaps_self_fini_def with_lock_def split: option.splits if_splits)

end
