(* ===== verification/System.thy ===== *)
theory System
  imports Effects Procmaps_Correct
begin

text \<open>
  The traced process: threads that share the counters, the lock areas and the file system.

  A step of the process is one subscriber run by one of its threads, or the copy of the process maps by
  a thread that starts or ends; the steps of different threads interleave in any order.  The interception layer runs the two subscribers of an atomic access before
  and after it, so a thread acquires an area and then releases the same area; which thread is between
  the two is part of the state, as are the entries logged so far in the order of logging and the number
  of steps.  These three are not memory of the program.

  Within a step the accesses to shared state are the ones to the counters and areas, each a single atomic
  operation or protected by the area's lock, and the calls of the operating system on files of the thread.
\<close>

section \<open>State and steps\<close>

record system =
  y_threads :: "u64 \<Rightarrow> coldtrace_thread"
  y_globals :: globals
  y_os :: os
  y_maps :: procmaps
  y_trace :: "(u64 \<times> logged) list"
  y_pending :: "u64 \<Rightarrow> u64 option"
  y_steps :: nat

definition log_of :: "u64 \<Rightarrow> (u64 \<times> logged) list \<Rightarrow> logged list" where
  "log_of md tr = map snd (filter (\<lambda>p. fst p = md) tr)"

definition view :: "u64 \<Rightarrow> system \<Rightarrow> ctx" where
  "view md y = \<lparr>x_thread = y_threads y md, x_globals = y_globals y, x_os = y_os y, x_log = log_of md (y_trace y)\<rparr>"

primrec pending_after :: "phase \<Rightarrow> u64 option \<Rightarrow> u64 option" where
  "pending_after Plain p = p"
| "pending_after Start p = p"
| "pending_after (Acquire a) p = Some a"
| "pending_after (Release a) p = None"
| "pending_after Finish p = p"
| "pending_after Frame p = p"

primrec paired :: "phase \<Rightarrow> u64 option \<Rightarrow> bool" where
  "paired Plain p = True"
| "paired Start p = True"
| "paired (Acquire a) p = (p = None)"
| "paired (Release a) p = (p = Some a)"
| "paired Finish p = True"
| "paired Frame p = True"

definition commit :: "u64 \<Rightarrow> phase \<Rightarrow> ctx \<Rightarrow> system \<Rightarrow> system" where
  "commit md ph x y = \<lparr>y_threads = (y_threads y)(md := x_thread x), y_globals = x_globals x, y_os = x_os x, y_maps = y_maps y,
     y_trace = y_trace y @ map (Pair md) (drop (length (log_of md (y_trace y))) (x_log x)),
     y_pending = (y_pending y)(md := pending_after ph (y_pending y md)), y_steps = Suc (y_steps y)\<rparr>"

inductive sys_step :: "host \<Rightarrow> config \<Rightarrow> u64 set \<Rightarrow> system \<Rightarrow> system \<Rightarrow> bool" for h c T where
  run_subscriber: "md \<in> T \<Longrightarrow> subscriber h c md ph f \<Longrightarrow> paired ph (y_pending y md) \<Longrightarrow> f (view md y) = Inr x \<Longrightarrow>
     allowed c ph (view md y) x \<Longrightarrow> sys_step h c T y (commit md ph x y)"
| run_maps_init: "md \<in> T \<Longrightarrow> procmaps_self_init h c pid md (y_maps y) (y_os y) = Inr (m, s) \<Longrightarrow>
     sys_step h c T y (y\<lparr>y_maps := m, y_os := s\<rparr>)"
| run_maps_fini: "md \<in> T \<Longrightarrow> procmaps_self_fini h c pid md (y_maps y) (y_os y) = Inr (m, s) \<Longrightarrow>
     sys_step h c T y (y\<lparr>y_maps := m, y_os := s\<rparr>)"

definition sys_init :: "config \<Rightarrow> system \<Rightarrow> bool" where
  "sys_init c y \<longleftrightarrow> (\<forall>md. y_threads y md = zero_thread) \<and> y_globals y = initial_globals \<and> y_trace y = [] \<and>
     (\<forall>md. y_pending y md = None) \<and> y_steps y = 0 \<and> \<not> pm_lock (y_maps y) \<and> 48 \<le> unat (trace_size c)"

text \<open>Every thread has a number of its own; file names print the low 32 bits.\<close>

definition distinct_ids :: "host \<Rightarrow> u64 set \<Rightarrow> bool" where
  "distinct_ids h T \<longleftrightarrow> inj_on (\<lambda>md. ucast (h_self_id h md) :: u32) T"

section \<open>Locks of the areas\<close>

definition lock_inv :: "u64 set \<Rightarrow> area list \<Rightarrow> (u64 \<Rightarrow> u64 option) \<Rightarrow> bool" where
  "lock_inv T areas pending \<longleftrightarrow> length areas = 128 \<and>
     (\<forall>md addr. pending md = Some addr \<longrightarrow> md \<in> T \<and> a_lock (areas ! get_area addr)) \<and>
     (\<forall>a<128. a_lock (areas ! a) \<longrightarrow> (\<exists>md addr. pending md = Some addr \<and> get_area addr = a)) \<and>
     (\<forall>md md' addr addr'. pending md = Some addr \<and> pending md' = Some addr' \<and> get_area addr = get_area addr' \<longrightarrow> md = md')"

lemma get_area_less [simp]: "get_area addr < 128"
proof -
  have "drop_bit AREA_SHIFT addr mod AREAS < AREAS" by (rule word_mod_less_divisor) (simp add: AREAS_def)
  then show ?thesis by (simp add: get_area_def word_less_nat_alt AREAS_def)
qed

lemma lock_invI:
  assumes "length areas = 128" "\<And>md addr. pending md = Some addr \<Longrightarrow> md \<in> T \<and> a_lock (areas ! get_area addr)"
    and "\<And>a. a < 128 \<Longrightarrow> a_lock (areas ! a) \<Longrightarrow> \<exists>md addr. pending md = Some addr \<and> get_area addr = a"
    and "\<And>md md' addr addr'. pending md = Some addr \<Longrightarrow> pending md' = Some addr' \<Longrightarrow> get_area addr = get_area addr' \<Longrightarrow> md = md'"
  shows "lock_inv T areas pending"
  using assms by (simp add: lock_inv_def)

lemma lock_invD:
  assumes "lock_inv T areas pending"
  shows "length areas = 128" "pending md = Some addr \<Longrightarrow> md \<in> T" "pending md = Some addr \<Longrightarrow> a_lock (areas ! get_area addr)"
    "a < 128 \<Longrightarrow> a_lock (areas ! a) \<Longrightarrow> \<exists>md addr. pending md = Some addr \<and> get_area addr = a"
    "pending md = Some addr \<Longrightarrow> pending md' = Some addr' \<Longrightarrow> get_area addr = get_area addr' \<Longrightarrow> md = md'"
  using assms unfolding lock_inv_def by blast+

lemma lock_inv_acquire:
  assumes inv: "lock_inv T areas pending" and md: "md \<in> T" "pending md = None" and free: "\<not> a_lock (areas ! get_area addr)"
  shows "lock_inv T (areas[get_area addr := \<lparr>a_lock = True, a_idx = i\<rparr>]) (pending(md := Some addr))"
proof (rule lock_invI)
  note I = lock_invD [OF inv]
  have other: "get_area addr' \<noteq> get_area addr" if "pending md' = Some addr'" for md' addr' using I(3) [OF that] free by metis
  show "length (areas[get_area addr := \<lparr>a_lock = True, a_idx = i\<rparr>]) = 128" using I(1) by simp
  fix md' addr' assume p: "(pending(md := Some addr)) md' = Some addr'"
  show "md' \<in> T \<and> a_lock (areas[get_area addr := \<lparr>a_lock = True, a_idx = i\<rparr>] ! get_area addr')"
  proof (cases "md' = md")
    case True
    then show ?thesis using p md(1) I(1) by simp
  next
    case False
    then have "pending md' = Some addr'" using p by simp
    then show ?thesis using I(2,3) other [of md' addr'] by simp
  qed
  fix md'' addr'' assume "(pending(md := Some addr)) md'' = Some addr''" "get_area addr' = get_area addr''"
  then show "md' = md''"
    using p other [of md' addr'] other [of md'' addr''] I(5) [of md' addr' md'' addr''] by (metis fun_upd_apply option.inject)
next
  note I = lock_invD [OF inv]
  fix a assume a: "a < 128" "a_lock (areas[get_area addr := \<lparr>a_lock = True, a_idx = i\<rparr>] ! a)"
  show "\<exists>md' addr'. (pending(md := Some addr)) md' = Some addr' \<and> get_area addr' = a"
  proof (cases "a = get_area addr")
    case False
    then obtain md' addr' where "pending md' = Some addr'" "get_area addr' = a" using a I(4) [of a] by auto
    then show ?thesis using md(2) by (intro exI [of _ md'] exI [of _ addr']) auto
  qed auto
qed

lemma lock_inv_release:
  assumes inv: "lock_inv T areas pending" and md: "pending md = Some addr" and ar: "\<not> a_lock ar"
  shows "lock_inv T (areas[get_area addr := ar]) (pending(md := None))"
proof (rule lock_invI)
  note I = lock_invD [OF inv]
  show "length (areas[get_area addr := ar]) = 128" using I(1) by simp
  fix md' addr' assume p: "(pending(md := None)) md' = Some addr'"
  then have p': "pending md' = Some addr'" "md' \<noteq> md" by (auto split: if_splits)
  then have "get_area addr' \<noteq> get_area addr" using I(5) [OF p'(1) md] by blast
  then show "md' \<in> T \<and> a_lock (areas[get_area addr := ar] ! get_area addr')" using p' I(2,3) by simp
  fix md'' addr'' assume "(pending(md := None)) md'' = Some addr''" "get_area addr' = get_area addr''"
  then show "md' = md''" using p' I(5) by (auto split: if_splits)
next
  note I = lock_invD [OF inv]
  fix a assume a: "a < 128" "a_lock (areas[get_area addr := ar] ! a)"
  have "a \<noteq> get_area addr" using a(2) ar I(1) by auto
  then obtain md' addr' where "pending md' = Some addr'" "get_area addr' = a" "md' \<noteq> md" using a I(4) md by force
  then show "\<exists>md' addr'. (pending(md := None)) md' = Some addr' \<and> get_area addr' = a" by auto
qed

section \<open>Indices\<close>

definition fresh_below :: "u64 \<Rightarrow> u64 list \<Rightarrow> bool" where
  "fresh_below k is \<longleftrightarrow> distinct is \<and> (\<forall>i\<in>set is. i < k)"

text \<open>The indices of the accesses to one area, in the order of logging.\<close>

definition area_order :: "nat \<Rightarrow> logged list \<Rightarrow> u64 list" where
  "area_order a es = indices log_atomic_index (filter (\<lambda>e. is_access e \<and> get_area (l_ptr e) = a) es)"

text \<open>The areas whose lock is held, with the index drawn at the acquisition.\<close>

definition held :: "globals \<Rightarrow> nat \<Rightarrow> u64 \<Rightarrow> bool" where
  "held g a i \<longleftrightarrow> a < length (g_areas g) \<and> a_lock (g_areas g ! a) \<and> a_idx (g_areas g ! a) = i"

definition held_inv :: "globals \<Rightarrow> logged list \<Rightarrow> bool" where
  "held_inv g es \<longleftrightarrow>
     (\<forall>a i. held g a i \<longrightarrow> i < g_atomic_index g \<and> i \<notin> set (indices log_atomic_index es) \<and> (\<forall>k\<in>set (area_order a es). k < i)) \<and>
     (\<forall>a b i. held g a i \<and> held g b i \<longrightarrow> a = b)"

definition index_inv :: "nat \<Rightarrow> globals \<Rightarrow> logged list \<Rightarrow> bool" where
  "index_inv n g es \<longleftrightarrow> unat (g_atomic_index g) \<le> n \<and> unat (g_alloc_index g) \<le> n \<and>
     fresh_below (g_atomic_index g) (indices log_atomic_index es) \<and> fresh_below (g_alloc_index g) (indices log_alloc_index es) \<and>
     held_inv g es \<and> (\<forall>a. sorted_wrt (<) (area_order a es))"

lemma map_filter_append [simp]: "List.map_filter f (xs @ ys) = List.map_filter f xs @ List.map_filter f ys"
  by (simp add: List.map_filter_def)

lemma area_order_append [simp]: "area_order a (es @ new) = area_order a es @ area_order a new"
  by (simp add: area_order_def)

lemma area_order_subset: "set (area_order a es) \<subseteq> set (indices log_atomic_index es)"
  by (auto simp: area_order_def List.map_filter_def)

lemma area_order_plain: "\<forall>e\<in>set new. \<not> is_access e \<Longrightarrow> area_order a new = []"
  by (simp add: area_order_def List.map_filter_def)

lemma area_order_access:
  "\<forall>e\<in>set new. is_access e \<and> l_ptr e = addr \<Longrightarrow>
   area_order a new = (if a = get_area addr then indices log_atomic_index new else [])"
proof -
  assume "\<forall>e\<in>set new. is_access e \<and> l_ptr e = addr"
  then have "filter (\<lambda>e. is_access e \<and> get_area (l_ptr e) = a) new = (if a = get_area addr then new else [])"
    by (induction new) auto
  then show ?thesis by (simp add: area_order_def List.map_filter_def)
qed

lemma suc_index:
  fixes i k :: u64
  assumes "unat i \<le> n" "Suc n < 2 ^ 64"
  shows "unat (i + 1) = Suc (unat i)" "i < i + 1" "k < i \<Longrightarrow> k < i + 1"
proof -
  show u: "unat (i + 1) = Suc (unat i)" using assms unat_add_small [of i 1] by simp
  then show "i < i + 1" "k < i \<Longrightarrow> k < i + 1" by (simp_all add: word_less_nat_alt)
qed

lemma drawn_fresh:
  assumes "fresh_below i is" "drawn i i' new" "unat i \<le> n" "Suc n < 2 ^ 64"
  shows "fresh_below i' (is @ new)" "unat i' \<le> Suc n" "k < i \<Longrightarrow> k < i'" "k < i \<Longrightarrow> k \<notin> set new"
  using assms suc_index [OF assms(3,4)] by (auto simp: drawn_def fresh_below_def)

lemma held_invI:
  assumes "\<And>a i. held g a i \<Longrightarrow> i < g_atomic_index g" "\<And>a i. held g a i \<Longrightarrow> i \<notin> set (indices log_atomic_index es)"
    and "\<And>a i k. held g a i \<Longrightarrow> k \<in> set (area_order a es) \<Longrightarrow> k < i" "\<And>a b i. held g a i \<Longrightarrow> held g b i \<Longrightarrow> a = b"
  shows "held_inv g es"
  using assms unfolding held_inv_def by blast

lemma held_invD:
  assumes "held_inv g es" "held g a i"
  shows "i < g_atomic_index g" "i \<notin> set (indices log_atomic_index es)" "k \<in> set (area_order a es) \<Longrightarrow> k < i" "held g b i \<Longrightarrow> b = a"
  using assms unfolding held_inv_def by blast+

lemma held_same: "g_areas g' = g_areas g \<Longrightarrow> held g' a i = held g a i"
  by (simp add: held_def)

lemma held_acquire:
  "g_areas g' = (g_areas g)[b := \<lparr>a_lock = True, a_idx = j\<rparr>] \<Longrightarrow> held g' a i \<Longrightarrow> a = b \<and> i = j \<or> a \<noteq> b \<and> held g a i"
  by (cases "a = b") (auto simp: held_def)

lemma held_release:
  "g_areas g' = (g_areas g)[b := ar] \<Longrightarrow> \<not> a_lock ar \<Longrightarrow> held g' a i \<Longrightarrow> a \<noteq> b \<and> held g a i"
  by (cases "a = b") (auto simp: held_def)

lemma index_inv_plain:
  assumes inv: "index_inv n g es" and n: "Suc n < 2 ^ 64" and ef: "plain_effect g g' new"
  shows "index_inv (Suc n) g' (es @ new)"
proof -
  have I: "unat (g_atomic_index g) \<le> n" "unat (g_alloc_index g) \<le> n" "fresh_below (g_atomic_index g) (indices log_atomic_index es)"
    "fresh_below (g_alloc_index g) (indices log_alloc_index es)" "held_inv g es" using inv by (simp_all add: index_inv_def)
  have E: "g_areas g' = g_areas g" "drawn (g_atomic_index g) (g_atomic_index g') (indices log_atomic_index new)"
    "drawn (g_alloc_index g) (g_alloc_index g') (indices log_alloc_index new)" "area_order a new = []" for a
    using ef area_order_plain by (simp_all add: plain_effect_def)
  note at = drawn_fresh [OF I(3) E(2) I(1) n] and al = drawn_fresh [OF I(4) E(3) I(2) n]
  have "held_inv g' (es @ new)"
  proof (rule held_invI)
    fix a i assume "held g' a i"
    then have h: "held g a i" using held_same [OF E(1)] by simp
    show "i < g_atomic_index g'" by (rule at(3) [OF held_invD(1) [OF I(5) h]])
    show "i \<notin> set (indices log_atomic_index (es @ new))" using at(4) held_invD(1,2) [OF I(5) h] by simp
    show "k < i" if "k \<in> set (area_order a (es @ new))" for k using that E(4) held_invD(3) [OF I(5) h] by simp
    show "a = b" if "held g' b i" for b using held_invD(4) [OF I(5) h] held_same [OF E(1)] that by blast
  qed
  then show ?thesis using inv at al E(4) by (simp add: index_inv_def)
qed

lemma index_inv_acquire:
  assumes inv: "index_inv n g es" and n: "Suc n < 2 ^ 64" and ef: "acquire_effect addr g g' new"
  shows "index_inv (Suc n) g' (es @ new)"
proof -
  let ?a = "get_area addr" and ?i = "g_atomic_index g"
  have I: "unat ?i \<le> n" "fresh_below ?i (indices log_atomic_index es)" "held_inv g es" using inv by (simp_all add: index_inv_def)
  have E: "g_areas g' = (g_areas g)[?a := \<lparr>a_lock = True, a_idx = ?i\<rparr>]" "g_atomic_index g' = ?i + 1"
    "g_alloc_index g' = g_alloc_index g" "new = []" using ef by (simp_all add: acquire_effect_def Let_def)
  note s = suc_index [OF I(1) n]
  have lt: "k < ?i" if "k \<in> set (indices log_atomic_index es)" for k using I(2) that by (auto simp: fresh_below_def)
  then have ord: "k < ?i" if "k \<in> set (area_order a es)" for a k using area_order_subset that by blast
  have old: "a = ?a \<and> i = ?i \<or> a \<noteq> ?a \<and> held g a i \<and> i < ?i" if "held g' a i" for a i
    using held_acquire [OF E(1) that] held_invD(1) [OF I(3)] by blast
  have "held_inv g' es"
  proof (rule held_invI)
    fix a i assume h: "held g' a i"
    show "i < g_atomic_index g'" using old [OF h] s(2,3) E(2) by auto
    show "i \<notin> set (indices log_atomic_index es)" using old [OF h] lt held_invD(2) [OF I(3)] by blast
    show "k < i" if "k \<in> set (area_order a es)" for k using old [OF h] ord [OF that] held_invD(3) [OF I(3)] that by blast
    show "a = b" if "held g' b i" for b using old [OF h] old [OF that] held_invD(4) [OF I(3)] by auto
  qed
  moreover have "fresh_below (?i + 1) (indices log_atomic_index es)" using I(2) s(3) by (auto simp: fresh_below_def)
  ultimately show ?thesis using inv s(1) E(2-4) by (simp add: index_inv_def)
qed

lemma index_inv_release:
  assumes inv: "index_inv n g es" and n: "Suc n < 2 ^ 64" and ef: "release_effect h addr g g' new"
    and hl: "held g (get_area addr) (a_idx (g_areas g ! get_area addr))" and rel: "\<And>b. \<not> h_release h b"
  shows "index_inv (Suc n) g' (es @ new)"
proof -
  let ?a = "get_area addr" and ?j = "g_atomic_index g" and ?is = "indices log_atomic_index new"
  let ?i = "a_idx (g_areas g ! ?a)"
  have I: "unat ?j \<le> n" "fresh_below ?j (indices log_atomic_index es)" "held_inv g es" using inv by (simp_all add: index_inv_def)
  have E: "g_areas g' = (g_areas g)[?a := (g_areas g ! ?a)\<lparr>a_lock := h_release h (a_lock (g_areas g ! ?a))\<rparr>]"
    "g_alloc_index g' = g_alloc_index g" "indices log_alloc_index new = []"
    "g_atomic_index g' = ?j \<and> (?is = [] \<or> ?is = [?i]) \<or> g_atomic_index g' = ?j + 1 \<and> (?is = [] \<or> ?is = [?i] \<or> ?is = [?i, ?j])"
    and acc: "\<forall>e\<in>set new. is_access e \<and> l_ptr e = addr"
    using ef by (simp_all add: release_effect_def Let_def)
  have ord: "area_order a new = (if a = ?a then ?is else [])" for a by (rule area_order_access [OF acc])
  note s = suc_index [OF I(1) n]
  note H = held_invD [OF I(3)]
  have up: "k < g_atomic_index g'" if "k < ?j" for k using that s(3) E(4) by auto
  have fr: "fresh_below (g_atomic_index g') (indices log_atomic_index es @ ?is)"
    using E(4) I(2) H(1,2) [OF hl] s by (auto simp: fresh_below_def)
  have old: "a \<noteq> ?a \<and> held g a i" if "held g' a i" for a i
    by (rule held_release [OF E(1) _ that]) (simp add: rel)
  have "held_inv g' (es @ new)"
  proof (rule held_invI)
    fix a i assume h: "held g' a i"
    note o = old [OF h, THEN conjunct2]
    show "i < g_atomic_index g'" using H(1) [OF o] up by blast
    have "i \<noteq> ?i" "i \<noteq> ?j" using H(1) [OF o] H(4) [OF hl] old [OF h] by auto
    then show "i \<notin> set (indices log_atomic_index (es @ new))" using H(2) [OF o] E(4) by auto
    show "k < i" if "k \<in> set (area_order a (es @ new))" for k using that H(3) [OF o] ord old [OF h] by auto
    show "a = b" if "held g' b i" for b using H(4) [OF o] old [OF that] by blast
  qed
  moreover have "sorted_wrt (<) (area_order a (es @ new))" for a
    using inv less_trans [OF H(3) [OF hl] H(1) [OF hl]] H(1,3) [OF hl] E(4) ord by (auto simp: index_inv_def sorted_wrt_append dest: area_order_subset [THEN subsetD])
  moreover have "unat (g_atomic_index g') \<le> Suc n" using E(4) I(1) s(1) by auto
  ultimately show ?thesis using inv E(2,3) fr by (simp add: index_inv_def)
qed

section \<open>The invariant of the process\<close>

definition sys_inv :: "host \<Rightarrow> config \<Rightarrow> u64 set \<Rightarrow> system \<Rightarrow> bool" where
  "sys_inv h c T y \<longleftrightarrow> (\<forall>md\<in>T. holds h c md (view md y)) \<and> lock_inv T (g_areas (y_globals y)) (y_pending y) \<and>
     (y_steps y < 2 ^ 64 \<longrightarrow> index_inv (y_steps y) (y_globals y) (map snd (y_trace y)))"

lemma commit_trace:
  assumes "x_log x = log_of md (y_trace y) @ new"
  shows "y_trace (commit md ph x y) = y_trace y @ map (Pair md) new" "map snd (y_trace (commit md ph x y)) = map snd (y_trace y) @ new"
  using assms by (simp_all add: commit_def comp_def)

lemma view_commit:
  assumes "x_log x = log_of md (y_trace y) @ new"
  shows "view md (commit md ph x y) = x"
    and "md' \<noteq> md \<Longrightarrow> view md' (commit md ph x y) = (view md' y)\<lparr>x_globals := x_globals x, x_os := x_os x\<rparr>"
proof -
  have f: "filter (\<lambda>p. fst p = d) (map (Pair md) new) = (if d = md then map (Pair md) new else [])" for d
    by (induction new) auto
  show "view md (commit md ph x y) = x" "md' \<noteq> md \<Longrightarrow> view md' (commit md ph x y) = (view md' y)\<lparr>x_globals := x_globals x, x_os := x_os x\<rparr>"
    using assms by (simp_all add: view_def commit_trace(1) [OF assms] log_of_def f comp_def) (simp_all add: commit_def)
qed

lemma view_simps [simp]: "x_thread (view md y) = y_threads y md" "x_globals (view md y) = y_globals y" "x_os (view md y) = y_os y"
    "x_log (view md y) = log_of md (y_trace y)"
  by (simp_all add: view_def)

lemma holds_other:
  assumes "distinct_ids h T" "md \<in> T" "md' \<in> T" "md' \<noteq> md" "holds h c md' x" "own_files h c md (x_os x) s"
  shows "holds h c md' (x\<lparr>x_globals := g, x_os := s\<rparr>)"
proof -
  have "(ucast (h_self_id h md) :: u32) \<noteq> ucast (h_self_id h md')"
    using assms(1-4) by (auto simp: distinct_ids_def dest: inj_onD)
  then have "own_name h c md' n \<noteq> own_name h c md m" for n m by (simp add: own_name_def fragment_name_inject)
  then have "\<forall>n. node_at s (own_name h c md' n) = node_at (x_os x) (own_name h c md' n)"
    using assms(6) by (simp add: own_files_def)
  then show ?thesis using assms(5) trace_inv_other by (auto simp: holds_def)
qed

lemma sys_inv_init: "sys_init c y \<Longrightarrow> sys_inv h c T y"
proof -
  assume i: "sys_init c y"
  have "holds h c md (view md y)" for md
    by (rule holds_fresh) (use i in \<open>simp add: sys_init_def fresh_thread_def view_def log_of_def\<close>)
  moreover have "lock_inv T (g_areas (y_globals y)) (y_pending y)"
    using i by (auto simp: sys_init_def lock_inv_def initial_globals_def AREAS_def)
  moreover have "\<not> held initial_globals a j" for a j by (auto simp: held_def initial_globals_def)
  then have "index_inv 0 (y_globals y) []"
    using i by (auto simp: sys_init_def index_inv_def held_inv_def fresh_below_def area_order_def List.map_filter_def initial_globals_def)
  ultimately show ?thesis using i by (simp add: sys_inv_def sys_init_def)
qed

lemma lock_inv_step:
  assumes "lock_inv T (g_areas g) pending" "md \<in> T" "paired ph (pending md)" "phase_effect h ph g g' new" "vsync_ok h"
  shows "lock_inv T (g_areas g') (pending(md := pending_after ph (pending md)))"
proof (cases ph)
  case (Acquire a)
  then show ?thesis using lock_inv_acquire [OF assms(1,2)] assms(3,4) by (simp add: acquire_effect_def Let_def)
next
  case (Release a)
  then show ?thesis
    using lock_inv_release [OF assms(1)] assms(3-5) by (simp add: release_effect_def vsync_ok_def Let_def)
qed (use assms in \<open>simp_all add: plain_effect_def\<close>)

lemma index_inv_step:
  assumes "index_inv n g es" "Suc n < 2 ^ 64" "lock_inv T (g_areas g) pending" "paired ph (pending md)"
    and "phase_effect h ph g g' new" "vsync_ok h"
  shows "index_inv (Suc n) g' (es @ new)"
proof (cases ph)
  case (Release a)
  then have "held g (get_area a) (a_idx (g_areas g ! get_area a))"
    using lock_invD(1,3) [OF assms(3)] assms(4) by (simp add: held_def)
  then show ?thesis using index_inv_release [OF assms(1,2)] assms(5,6) Release by (simp add: vsync_ok_def)
qed (use assms index_inv_plain index_inv_acquire in \<open>simp_all\<close>)

text \<open>The copy of the maps leaves the files of all threads alone.\<close>

lemma holds_maps:
  assumes "holds h c md x" "keeps_bin (x_os x) s"
  shows "holds h c md (x\<lparr>x_os := s\<rparr>)"
proof -
  have "has_ext (own_name h c md n) ''.bin''" for n by (simp only: has_ext_iff own_name_def fragment_name_def) simp
  then have "node_at s (own_name h c md n) = Some (Reg f)" if "node_at (x_os x) (own_name h c md n) = Some (Reg f)" for n f
    using assms(2) that by (simp add: keeps_bin_def)
  then have "stored h c md s chunks start" if "stored h c md (x_os x) chunks start" for chunks start
    using that unfolding stored_def by blast
  then have "trace_inv h c md (x_thread x) s (x_log x)" using assms(1) unfolding holds_def trace_inv_def by blast
  then show ?thesis using assms(1) by (simp add: holds_def)
qed

lemma sys_inv_maps:
  assumes "sys_inv h c T y" "keeps_bin (y_os y) s"
  shows "sys_inv h c T (y\<lparr>y_maps := m, y_os := s\<rparr>)"
proof -
  have v: "view md (y\<lparr>y_maps := m, y_os := s\<rparr>) = (view md y)\<lparr>x_os := s\<rparr>" for md by (simp add: view_def)
  have "holds h c md (view md (y\<lparr>y_maps := m, y_os := s\<rparr>))" if "md \<in> T" for md
    unfolding v by (rule holds_maps) (use assms that in \<open>simp_all add: sys_inv_def\<close>)
  then show ?thesis using assms by (simp add: sys_inv_def)
qed

lemma usable_path_length: "usable c \<Longrightarrow> length (path c) < 128"
  by (simp add: config_path_ok_def DEFAULT_PATH_SIZE_def)

lemma sys_inv_step:
  assumes "usable c" "vsync_ok h" "distinct_ids h T" and inv: "sys_inv h c T y" and st: "sys_step h c T y y'"
  shows "sys_inv h c T y'"
  using st
proof cases
  case (run_subscriber md ph f x)
  let ?v = "view md y"
  have I: "holds h c md' (view md' y)" if "md' \<in> T" for md' using inv that by (simp add: sys_inv_def)
  obtain new where n: "own_files h c md (x_os ?v) (x_os x)" "x_log x = x_log ?v @ new"
      "phase_effect h ph (x_globals ?v) (x_globals x) new" "holds h c md x"
    by (rule subscriber_effect [OF assms(1,2) I [OF run_subscriber(2)] run_subscriber(3,5,6)])
  have lg: "x_log x = log_of md (y_trace y) @ new" and g: "x_globals ?v = y_globals y" "x_os ?v = y_os y" using n(2) by (simp_all add: view_def)
  have "holds h c md' (view md' y')" if "md' \<in> T" for md'
  proof (cases "md' = md")
    case True
    then show ?thesis using n(4) view_commit(1) [OF lg] run_subscriber(1) by simp
  next
    case False
    have "x_os (view md' y) = y_os y" by (simp add: view_def)
    then show ?thesis
      using holds_other [OF assms(3) run_subscriber(2) that False I [OF that]] n(1) g(2) view_commit(2) [OF lg False] run_subscriber(1)
      by simp
  qed
  moreover have lk: "lock_inv T (g_areas (x_globals ?v)) (y_pending y)" using inv g by (simp add: sys_inv_def)
  then have "lock_inv T (g_areas (x_globals x)) ((y_pending y)(md := pending_after ph (y_pending y md)))"
    using run_subscriber(2,4) n(3) assms(2) by (rule lock_inv_step)
  then have "lock_inv T (g_areas (y_globals y')) (y_pending y')" using run_subscriber(1) by (simp add: commit_def)
  moreover have "y_steps y' < 2 ^ 64 \<longrightarrow> index_inv (y_steps y') (y_globals y') (map snd (y_trace y'))"
  proof
    assume b: "y_steps y' < 2 ^ 64"
    have y': "y_steps y' = Suc (y_steps y)" "y_globals y' = x_globals x" using run_subscriber(1) by (simp_all add: commit_def)
    have "index_inv (y_steps y) (x_globals ?v) (map snd (y_trace y))" using inv g b y' by (simp add: sys_inv_def)
    moreover have "Suc (y_steps y) < 2 ^ 64" using b y' by simp
    ultimately have "index_inv (Suc (y_steps y)) (x_globals x) (map snd (y_trace y) @ new)"
      using lk run_subscriber(4) n(3) assms(2) by (rule index_inv_step)
    then show "index_inv (y_steps y') (y_globals y') (map snd (y_trace y'))"
      using y' commit_trace(2) [OF lg] run_subscriber(1) by simp
  qed
  ultimately show ?thesis by (simp add: sys_inv_def)
next
  case (run_maps_init md pid m s)
  then show ?thesis using sys_inv_maps [OF inv procmaps_keep_bin(1) [OF usable_path_length [OF assms(1)]]] by blast
next
  case (run_maps_fini md pid m s)
  then show ?thesis using sys_inv_maps [OF inv procmaps_keep_bin(2) [OF usable_path_length [OF assms(1)]]] by blast
qed

interpretation process: inv_system "sys_init c" "sys_step h c T"
  "\<lambda>y. usable c \<and> vsync_ok h \<and> distinct_ids h T \<longrightarrow> sys_inv h c T y" for h c T
  by unfold_locales (auto intro: sys_inv_init sys_inv_step)

end
