(* ===== verification/Trace_Props.thy ===== *)
theory Trace_Props
  imports Progress
begin

text \<open>
  The properties of the subscribers: they return, they log what their event says, and what a thread
  logs can be read back from its files.
\<close>

section \<open>A concrete run\<close>

text \<open>
  A thread with small fragments: it allocates a block and ends.
\<close>

definition sample_trace_config :: config where
  "sample_trace_config = (sample_config False)\<lparr>trace_size := 48\<rparr>"

definition sample_ctx :: ctx where
  "sample_ctx = \<lparr>x_thread = zero_thread, x_globals = initial_globals, x_os = sample_os, x_log = []\<rparr>"

lemma sample_usable: "usable sample_trace_config"
  by (simp add: sample_trace_config_def config_path_ok_def DEFAULT_PATH_SIZE_def sample_config_def)

lemma sample_calm: "calm sample_host"
  by (simp add: calm_def sample_host_def calm_env_def)

lemma sample_fresh: "fresh_thread sample_trace_config sample_ctx"
  by (simp add: fresh_thread_def sample_ctx_def sample_trace_config_def)

lemma sample_ready: "length (fs (x_os x)) < 100 \<Longrightarrow> ready sample_host sample_trace_config x"
  using sample_live [of 76]
  by (simp add: ready_def sample_trace_config_def sample_config_def comp_capacity_def LZ4_compressBound_def LZ4_MAX_INPUT_SIZE_def
        sample_host_def calm_env_def)

lemma sample_quiet: "quiet sample_host sample_trace_config 2 sample_ctx"
  using holds_fresh [OF sample_fresh, of sample_host 2] sample_usable sample_calm
  by (simp add: quiet_def) (simp add: sample_ctx_def zero_thread_def sample_trace_config_def sample_os_def node_at_def own_name_def
        fragment_name_def sample_config_def LZ4_MAX_INPUT_SIZE_def)

lemma sample_malloc: "\<exists>x. after_malloc sample_host sample_trace_config 2 16 0x401000 0x5000 sample_ctx = Inr x"
  by (rule subscriber_total [OF sample_usable holds_fresh [OF sample_fresh] sample_ready subscriber.intros(1)])
     (simp_all add: sample_ctx_def sample_os_def)

lemma sample_step:
  obtains x where "after_malloc sample_host sample_trace_config 2 16 0x401000 0x5000 sample_ctx = Inr x"
    "reach (fresh_thread sample_trace_config) (thread_step sample_host sample_trace_config 2) x"
    "x_log x = [\<lparr>l_type = COLDTRACE_ALLOC, l_ptr = 0x5000, l_fields = [16, 0, 0x401000], l_stack = []\<rparr>]"
    "quiet sample_host sample_trace_config 2 x" "w_buffer (t_writer (x_thread x)) \<noteq> None"
proof -
  let ?h = sample_host and ?c = sample_trace_config
  obtain x where run: "after_malloc ?h ?c 2 16 0x401000 0x5000 sample_ctx = Inr x" using sample_malloc by blast
  have "reach (fresh_thread ?c) (thread_step ?h ?c 2) sample_ctx" using sample_fresh by (rule reach_init)
  moreover have "thread_step ?h ?c 2 sample_ctx x" by (rule step_log [OF subscriber.intros(1) _ run]) simp
  ultimately have rc: "reach (fresh_thread ?c) (thread_step ?h ?c 2) x" by (rule reach_step)
  have t: "is_type_valid COLDTRACE_ALLOC" "field_count COLDTRACE_ALLOC = 3" by (simp_all add: kind_simps)
  have idx: "coldtrace_next_alloc_idx ?h (x_globals sample_ctx) = (0, (x_globals sample_ctx)\<lparr>g_alloc_index := 1\<rparr>)"
    by (simp add: coldtrace_next_alloc_idx_def sample_host_def sample_ctx_def initial_globals_def)
  from log_alloc_logs [OF sample_quiet t run [unfolded after_malloc_def] idx] run rc that show thesis
    by (simp add: sample_ctx_def call_stack_def zero_thread_def)
qed

lemma sample_log_readable:
  "x_log x = [\<lparr>l_type = COLDTRACE_ALLOC, l_ptr = 0x5000, l_fields = [16, 0, 0x401000], l_stack = []\<rparr>] \<Longrightarrow>
   \<forall>i\<in>set (x_log x). \<not> zero_free i"
  by (simp add: zero_free_def kind_simps)

lemma sample_version: "version_supported (h_version sample_host)" "LZ4_MAX_INPUT_SIZE \<le> 0x7E000000"
  by (simp_all add: version_supported_def version_less_def MIN_SUPPORTED_VERSION_def sample_host_def
        current_version_header_def LZ4_MAX_INPUT_SIZE_def)

section \<open>Properties\<close>



text \<open>
  C13: A successful allocation is logged exactly.  While the calls of the operating system succeed,
  the subscriber of \<open>malloc\<close> adds one entry to the log of the thread: the block, its size, the
  current value of the allocation counter, the call site and the thread's call stack; the counter is
  increased and nothing else of the global state changes.
\<close>

theorem malloc_logged:
  assumes "quiet h c md x" "after_malloc h c md sz pc ret x = Inr x'" "h_get_inc h (g_alloc_index (x_globals x)) = (i, v)"
  shows "x_log x' = x_log x @ [\<lparr>l_type = COLDTRACE_ALLOC, l_ptr = ret, l_fields = [sz, i, pc], l_stack = call_stack (x_thread x)\<rparr>]
    \<and> x_globals x' = (x_globals x)\<lparr>g_alloc_index := v\<rparr> \<and> quiet h c md x'"
proof -
  have t: "is_type_valid COLDTRACE_ALLOC" "field_count COLDTRACE_ALLOC = 3" by (simp_all add: kind_simps)
  have i: "coldtrace_next_alloc_idx h (x_globals x) = (i, (x_globals x)\<lparr>g_alloc_index := v\<rparr>)"
    using assms(3) by (simp add: coldtrace_next_alloc_idx_def)
  show ?thesis using log_alloc_logs [OF assms(1) t assms(2) [unfolded after_malloc_def] i] by simp
qed

theorem malloc_logged_witness:
  "\<exists>x. after_malloc sample_host sample_trace_config 2 16 0x401000 0x5000 sample_ctx = Inr x \<and>
     x_log x = [\<lparr>l_type = COLDTRACE_ALLOC, l_ptr = 0x5000, l_fields = [16, 0, 0x401000], l_stack = []\<rparr>] \<and>
     g_alloc_index (x_globals x) = 1"
proof -
  obtain x where run: "after_malloc sample_host sample_trace_config 2 16 0x401000 0x5000 sample_ctx = Inr x"
    using sample_malloc by blast
  have "h_get_inc sample_host (g_alloc_index (x_globals sample_ctx)) = (0, 1)"
    by (simp add: sample_host_def sample_ctx_def initial_globals_def)
  from malloc_logged [OF sample_quiet run this] run show ?thesis
    by (simp add: sample_ctx_def call_stack_def zero_thread_def)
qed



text \<open>
  What a thread logs can be read back.  After the end of a thread whose writer has not failed, the
  log of the thread splits into fragments.  The files of the thread hold as many of the last fragments as
  there are file numbers, and the reader, given these files in the order they were written, yields exactly
  the entries the subscribers logged, with pointers, fields and call stacks.  This holds in every run,
  with other threads changing the counters and other files at any time, for every implementation of the
  reader's LZ4 module that decodes what the block format defines.
\<close>

theorem trace_read_back:
  assumes "usable c" "reach (fresh_thread c) (thread_step h c md) x"
    and "w_buffer (t_writer (x_thread x)) = None" "\<not> w_failed (t_writer (x_thread x))"
    and "\<forall>blk n out. lz4_decompress blk n = Some out \<longrightarrow> lz4_block blk n = Some out"
    and "version_supported (h_version h)" "LZ4_MAX_INPUT_SIZE \<le> max_size" "\<forall>i\<in>set (x_log x). \<not> zero_free i"
  shows "\<exists>chunks start ffs st'. x_log x = concat chunks \<and> length ffs = min (length chunks) (unat (max_file_count c)) \<and>
     (\<forall>j<length ffs. node_at (x_os x) (own_name h c md
        (fragment_no (max_file_count c) start (length chunks - length ffs + j))) = Some (Reg (ffs ! j))) \<and>
     read_files lz4_block max_size tid ffs [] =
       (map (trace_entry_of tid) (concat (drop (length chunks - length ffs) chunks)), None, st')"
  using thread_system.reach_inv [OF assms(2)] assms(1,3-8) by (intro holds_read_back) blast+

theorem trace_read_back_witness:
  "\<exists>x chunks start ffs st'. reach (fresh_thread sample_trace_config) (thread_step sample_host sample_trace_config 2) x \<and>
     x_log x = [\<lparr>l_type = COLDTRACE_ALLOC, l_ptr = 0x5000, l_fields = [16, 0, 0x401000], l_stack = []\<rparr>] \<and>
     x_log x = concat chunks \<and> length ffs = min (length chunks) (unat (max_file_count sample_trace_config)) \<and>
     (\<forall>j<length ffs. node_at (x_os x) (own_name sample_host sample_trace_config 2
        (fragment_no (max_file_count sample_trace_config) start (length chunks - length ffs + j))) = Some (Reg (ffs ! j))) \<and>
     read_files lz4_decompress (0x7E000000) 2 ffs [] =
       (map (trace_entry_of 2) (concat (drop (length chunks - length ffs) chunks)), None, st')"
proof -
  let ?h = sample_host and ?c = sample_trace_config
  obtain x1 where x1: "reach (fresh_thread ?c) (thread_step ?h ?c 2) x1" "quiet ?h ?c 2 x1"
      "x_log x1 = [\<lparr>l_type = COLDTRACE_ALLOC, l_ptr = 0x5000, l_fields = [16, 0, 0x401000], l_stack = []\<rparr>]"
    by (rule sample_step)
  have hx: "holds ?h ?c 2 x1" using x1(2) by (simp add: quiet_def)
  have "env_live ?h (12 + comp_capacity (zero_writer\<lparr>w_size := trace_size ?c\<rparr>))"
    using sample_ready [of sample_ctx] by (simp add: ready_def sample_ctx_def sample_os_def)
  then obtain x where run: "thread_fini ?h ?c 2 x1 = Inr x"
    using fini_returns [OF sample_usable hx] by blast
  then have fin: "event_self_fini ?h ?c 2 0x7000 x1 = Inr x" by (simp add: event_self_fini_def sample_host_def)
  have "thread_step ?h ?c 2 x1 x" by (rule step_log [OF subscriber.intros(28) _ fin]) simp
  with x1(1) have rc: "reach (fresh_thread ?c) (thread_step ?h ?c 2) x" by (rule reach_step)
  note e = fini_calm [OF x1(2) run]
  note lg = e(1) [unfolded x1(3)]
  have "\<forall>blk n out. lz4_decompress blk n = Some out \<longrightarrow> lz4_decompress blk n = Some out" by simp
  from trace_read_back [OF sample_usable rc e(2,3) this sample_version sample_log_readable [OF lg], of 2] rc lg
  show ?thesis by blast
qed

text \<open>
  C3: A fragment decodes on its own.  At any point of a run the file the thread's buffer would be
  flushed to holds the last entries of the log, and reading it yields exactly these entries whatever
  stack the reader has rebuilt before: every fragment starts with a full call stack.
\<close>

theorem fragment_decodes_alone:
  assumes "usable c" "reach (fresh_thread c) (thread_step h c md) x" "w_buffer (t_writer (x_thread x)) \<noteq> None"
    and "\<forall>blk n out. lz4_decompress blk n = Some out \<longrightarrow> lz4_block blk n = Some out"
    and "version_supported (h_version h)" "LZ4_MAX_INPUT_SIZE \<le> max_size" "\<forall>i\<in>set (x_log x). \<not> zero_free i"
  shows "\<exists>older newest. x_log x = older @ newest \<and> (\<forall>st :: u64 list. \<exists>st'.
     read_file lz4_block max_size tid (fragment_file h (t_writer (x_thread x))) (map unat st)
       = (map (trace_entry_of tid) newest, None, st'))"
proof -
  let ?w = "t_writer (x_thread x)"
  have mod: "lz4_block_module lz4_block" using assms(4) by unfold_locales blast
  have inv: "trace_inv h c md (x_thread x) (x_os x) (x_log x)"
    using thread_system.reach_inv [OF assms(2)] assms(1) by (simp add: holds_def)
  obtain b where b: "w_buffer ?w = Some b" using assms(3) by blast
  have ti: "thread_inv h (x_thread x)" and mm: "w_mmapped ?w" using inv b by (simp_all add: trace_inv_def)
  have "\<not> w_failed ?w" using writer_inv_Some [OF inv_writer [OF ti] b] by (simp add: buffer_ok_def block_ok_def)
  then obtain chunks cur where ch: "x_log x = concat chunks @ cur" "recorded (x_thread x) cur"
    using inv by (auto simp: trace_inv_def)
  have z: "\<forall>i\<in>set cur. \<not> zero_free i" using assms(7) ch(1) by simp
  show ?thesis
    using lz4_block_module.read_file_ok [OF mod fragment_file_of [OF ti ch(2) b mm] assms(5,6) z, of tid] ch(1) by blast
qed

theorem fragment_decodes_alone_witness:
  "\<exists>x older newest st'. after_malloc sample_host sample_trace_config 2 16 0x401000 0x5000 sample_ctx = Inr x \<and>
     x_log x = older @ newest \<and>
     read_file lz4_decompress 0x7E000000 2 (fragment_file sample_host (t_writer (x_thread x))) [1, 2, 3]
       = (map (trace_entry_of 2) newest, None, st')"
proof -
  let ?h = sample_host and ?c = sample_trace_config
  obtain x where x: "after_malloc ?h ?c 2 16 0x401000 0x5000 sample_ctx = Inr x"
      "reach (fresh_thread ?c) (thread_step ?h ?c 2) x" "\<forall>i\<in>set (x_log x). \<not> zero_free i"
      "w_buffer (t_writer (x_thread x)) \<noteq> None"
    by (rule sample_step) (use sample_log_readable in blast)
  have "\<forall>blk n out. lz4_decompress blk n = Some out \<longrightarrow> lz4_decompress blk n = Some out" by simp
  from fragment_decodes_alone [OF sample_usable x(2,4) this sample_version x(3), of 2]
  obtain older newest where r: "x_log x = older @ newest" "\<forall>st :: u64 list. \<exists>st'.
     read_file lz4_decompress 0x7E000000 2 (fragment_file ?h (t_writer (x_thread x))) (map unat st)
       = (map (trace_entry_of 2) newest, None, st')" by blast
  have "map unat [1, 2, 3 :: u64] = [1, 2, 3]" by simp
  then show ?thesis using r(2) [rule_format, of "[1, 2, 3]"] r(1) x(1) by metis
qed

text \<open>
  C12: What the subscribers log is well typed.  In every reachable state the buffer and the call stack of
  the thread are consistent, and every logged entry has a valid type and exactly the fields of the
  structure of its type.
\<close>

theorem logged_entries_well_typed:
  assumes "usable c" "reach (fresh_thread c) (thread_step h c md) x"
  shows "thread_inv h (x_thread x) \<and> list_all item_ok (x_log x)"
  using thread_system.reach_inv [OF assms(2)] assms(1) by (simp add: holds_def trace_inv_def)

theorem logged_entries_well_typed_witness:
  "\<exists>x. reach (fresh_thread sample_trace_config) (thread_step sample_host sample_trace_config 2) x \<and> length (x_log x) = 1 \<and>
     thread_inv sample_host (x_thread x) \<and> list_all item_ok (x_log x)"
proof -
  obtain x where "reach (fresh_thread sample_trace_config) (thread_step sample_host sample_trace_config 2) x" "length (x_log x) = 1"
    by (rule sample_step) simp
  with logged_entries_well_typed [OF sample_usable] show ?thesis by blast
qed

end
