(* ===== verification/System_Props.thy ===== *)
theory System_Props
  imports System Trace_Props
begin

text \<open>
  The properties of the whole process: every thread's files can be read back next to the other threads,
  the lock of an area excludes other threads, indices are unique and follow the order of the accesses to
  an area, and no thread waits for anything but the holder of an area.
\<close>

section \<open>A concrete run\<close>

text \<open>Two threads of which the second runs.\<close>

definition sample_system :: system where
  "sample_system = \<lparr>y_threads = (\<lambda>_. zero_thread), y_globals = initial_globals, y_os = sample_os,
     y_maps = \<lparr>maps_copied = False, pm_lock = False\<rparr>, y_trace = [],
     y_pending = (\<lambda>_. None), y_steps = 0\<rparr>"

abbreviation sample_reach :: "system \<Rightarrow> bool" where
  "sample_reach \<equiv> reach (sys_init sample_trace_config) (sys_step sample_host sample_trace_config {1, 2})"

lemma sample_vsync: "vsync_ok sample_host" and sample_ids: "distinct_ids sample_host {1, 2}"
  by (simp_all add: vsync_ok_def sample_host_def distinct_ids_def inj_on_def)

lemma sample_view: "view 2 sample_system = sample_ctx"
  by (simp add: view_def sample_system_def sample_ctx_def log_of_def)

lemma sample_init: "sample_reach sample_system"
  by (rule reach_init) (simp add: sys_init_def sample_system_def sample_trace_config_def)

lemma sample_run:
  assumes "sample_reach y" "subscriber sample_host sample_trace_config 2 ph f" "paired ph (y_pending y 2)"
    and "f (view 2 y) = Inr x" "ph \<noteq> Start" "ph \<noteq> Frame"
  shows "sample_reach (commit 2 ph x y)"
proof -
  have "allowed sample_trace_config ph (view 2 y) x" using assms(5,6) by (simp add: allowed_def)
  then have "sys_step sample_host sample_trace_config {1, 2} y (commit 2 ph x y)"
    using assms(2-4) by (intro run_subscriber [where f = f]) simp_all
  with assms(1) show ?thesis by (rule reach_step)
qed

text \<open>The second thread has acquired the area of an address.\<close>

definition sample_locked :: ctx where
  "sample_locked = sample_ctx\<lparr>x_globals := initial_globals\<lparr>g_atomic_index := 1,
     g_areas := (g_areas initial_globals)[get_area 0x5000 := \<lparr>a_lock = True, a_idx = 0\<rparr>]\<rparr>\<rparr>"

lemma sample_area: "get_area 0x5000 = 64"
  by (simp add: get_area_def AREA_SHIFT_def AREAS_def unat_mod)

lemma sample_acquire: "before_ma_rmw sample_host sample_trace_config 2 0x5000 sample_ctx = Inr sample_locked"
  by (simp add: before_ma_rmw_def FETCH_STACK_ACQ_def sample_area Let_def coldtrace_next_atomic_idx_def sample_host_def sample_ctx_def
        sample_locked_def initial_globals_def AREAS_def)

definition sample_waiting :: system where
  "sample_waiting = commit 2 (Acquire 0x5000) sample_locked sample_system"

lemma sample_waiting_reach: "sample_reach sample_waiting"
  unfolding sample_waiting_def
proof (rule sample_run [OF sample_init])
  show "subscriber sample_host sample_trace_config 2 (Acquire 0x5000) (before_ma_rmw sample_host sample_trace_config 2 0x5000)"
    by (rule subscriber.intros)
  show "before_ma_rmw sample_host sample_trace_config 2 0x5000 (view 2 sample_system) = Inr sample_locked"
    by (simp add: sample_view sample_acquire)
qed (simp_all add: sample_system_def)

lemma sample_waiting_view: "view 2 sample_waiting = sample_locked" "y_pending sample_waiting 2 = Some 0x5000"
  "y_pending sample_waiting 1 = None" "y_steps sample_waiting = 1" "y_trace sample_waiting = []"
  by (simp_all add: sample_waiting_def view_def commit_def sample_locked_def sample_ctx_def sample_system_def log_of_def)

text \<open>It then gives the area back and logs the read and the write.\<close>

lemma sample_rmw:
  obtains x where "after_ma_rmw sample_host sample_trace_config 2 0x5000 8 sample_locked = Inr x"
    "x_log x = [\<lparr>l_type = COLDTRACE_ATOMIC_READ, l_ptr = 0x5000, l_fields = [8, 0], l_stack = []\<rparr>,
       \<lparr>l_type = COLDTRACE_ATOMIC_WRITE, l_ptr = 0x5000, l_fields = [8, 1], l_stack = []\<rparr>]"
proof -
  let ?h = sample_host and ?c = sample_trace_config
  have q: "quiet ?h ?c 2 sample_locked" "ready ?h ?c sample_locked"
    using sample_quiet sample_ready [of sample_ctx] by (simp_all add: sample_locked_def) (simp add: sample_ctx_def sample_os_def)
  have "subscriber ?h ?c 2 (Release 0x5000) (after_ma_rmw ?h ?c 2 0x5000 8)" by (rule subscriber.intros)
  then obtain x where run: "after_ma_rmw ?h ?c 2 0x5000 8 sample_locked = Inr x"
    using subscriber_total [OF sample_usable _ q(2)] q(1) by (fastforce simp: quiet_def)
  have "h_get_inc ?h (g_atomic_index (x_globals sample_locked)) = (1, 2)" "area_idx 0x5000 sample_locked = 0"
      "x_log sample_locked = []" "call_stack (x_thread sample_locked) = []"
    by (simp_all add: sample_host_def sample_locked_def area_idx_def sample_area initial_globals_def AREAS_def sample_ctx_def
          call_stack_def zero_thread_def)
  with rmw_logs [OF q(1) run] run that show thesis by simp
qed

lemma sample_rmw_system:
  obtains y where "sample_reach y" "y_steps y = 2"
    "y_trace y = [(2, \<lparr>l_type = COLDTRACE_ATOMIC_READ, l_ptr = 0x5000, l_fields = [8, 0], l_stack = []\<rparr>),
       (2, \<lparr>l_type = COLDTRACE_ATOMIC_WRITE, l_ptr = 0x5000, l_fields = [8, 1], l_stack = []\<rparr>)]"
proof -
  let ?h = sample_host and ?c = sample_trace_config
  obtain x where x: "after_ma_rmw ?h ?c 2 0x5000 8 sample_locked = Inr x"
    "x_log x = [\<lparr>l_type = COLDTRACE_ATOMIC_READ, l_ptr = 0x5000, l_fields = [8, 0], l_stack = []\<rparr>,
       \<lparr>l_type = COLDTRACE_ATOMIC_WRITE, l_ptr = 0x5000, l_fields = [8, 1], l_stack = []\<rparr>]" by (rule sample_rmw)
  have "subscriber ?h ?c 2 (Release 0x5000) (after_ma_rmw ?h ?c 2 0x5000 8)" by (rule subscriber.intros)
  then have "sample_reach (commit 2 (Release 0x5000) x sample_waiting)"
    by (rule sample_run [OF sample_waiting_reach]) (simp_all add: sample_waiting_view x)
  moreover have "y_steps (commit 2 (Release 0x5000) x sample_waiting) = 2" using sample_waiting_view(4) by (simp add: commit_def)
  moreover have "y_trace (commit 2 (Release 0x5000) x sample_waiting) = map (Pair 2) (x_log x)"
    using commit_trace(1) [of x 2 sample_waiting "x_log x"] sample_waiting_view(5) by (simp add: log_of_def)
  ultimately show thesis using that x(2) by simp
qed

text \<open>A run in which the second thread allocates a block and ends.\<close>

lemma sample_end:
  obtains y where "sample_reach y" "w_buffer (t_writer (y_threads y 2)) = None" "\<not> w_failed (t_writer (y_threads y 2))"
    "log_of 2 (y_trace y) = [\<lparr>l_type = COLDTRACE_ALLOC, l_ptr = 0x5000, l_fields = [16, 0, 0x401000], l_stack = []\<rparr>]"
proof -
  let ?h = sample_host and ?c = sample_trace_config
  let ?e = "\<lparr>l_type = COLDTRACE_ALLOC, l_ptr = 0x5000, l_fields = [16, 0, 0x401000], l_stack = []\<rparr>"
  obtain x1 where x1: "after_malloc ?h ?c 2 16 0x401000 0x5000 sample_ctx = Inr x1" "x_log x1 = [?e]" "quiet ?h ?c 2 x1"
    by (rule sample_step)
  let ?y1 = "commit 2 Plain x1 sample_system"
  have y1: "sample_reach ?y1"
    by (rule sample_run [OF sample_init, where f = "after_malloc ?h ?c 2 16 0x401000 0x5000"])
       (simp_all add: subscriber.intros(1) sample_view x1(1))
  have v: "view 2 ?y1 = x1" by (rule view_commit(1) [where new = "x_log x1"]) (simp add: sample_system_def log_of_def)
  have live: "env_live ?h (12 + comp_capacity (zero_writer\<lparr>w_size := trace_size ?c\<rparr>))"
    using sample_ready [of sample_ctx] by (simp add: ready_def sample_ctx_def sample_os_def)
  have "holds ?h ?c 2 x1" using x1(3) by (simp add: quiet_def)
  then obtain x where run: "thread_fini ?h ?c 2 x1 = Inr x" using fini_returns [OF sample_usable _ live] by blast
  then have fin: "event_self_fini ?h ?c 2 0x7000 x1 = Inr x" by (simp add: event_self_fini_def sample_host_def)
  note e = fini_calm [OF x1(3) run]
  have "sample_reach (commit 2 Finish x ?y1)"
    by (rule sample_run [OF y1, where f = "event_self_fini ?h ?c 2 0x7000"]) (simp_all add: subscriber.intros(28) v fin)
  moreover have "x_log x = log_of 2 (y_trace ?y1) @ []" using e(1) view_simps(4) [of 2 ?y1] v by simp
  then have v2: "view 2 (commit 2 Finish x ?y1) = x" by (rule view_commit(1))
  then have "y_threads (commit 2 Finish x ?y1) 2 = x_thread x" "log_of 2 (y_trace (commit 2 Finish x ?y1)) = x_log x"
    using view_simps(1,4) [of 2 "commit 2 Finish x ?y1"] by (simp_all add: v2)
  ultimately show thesis using that e x1(2) by simp
qed

section \<open>Properties\<close>

text \<open>
  C1: Whatever the threads of the process do, in any interleaving and with the maps of the process copied
  to the same directory at any time, the files of a thread that has ended hold what the thread logged: its log splits into fragments, its files hold as many of the last
  fragments as there are file numbers, and the reader yields exactly their entries.  Threads have
  different numbers, and atomics and locks behave as documented.
\<close>

theorem process_read_back:
  assumes "usable c" "vsync_ok h" "distinct_ids h T" "reach (sys_init c) (sys_step h c T) y" "md \<in> T"
    and "w_buffer (t_writer (y_threads y md)) = None" "\<not> w_failed (t_writer (y_threads y md))"
    and "\<forall>blk n out. lz4_decompress blk n = Some out \<longrightarrow> lz4_block blk n = Some out"
    and "version_supported (h_version h)" "LZ4_MAX_INPUT_SIZE \<le> max_size" "\<forall>i\<in>set (log_of md (y_trace y)). \<not> zero_free i"
  shows "\<exists>chunks start ffs st'. log_of md (y_trace y) = concat chunks \<and>
     length ffs = min (length chunks) (unat (max_file_count c)) \<and>
     (\<forall>j<length ffs. node_at (y_os y) (own_name h c md
        (fragment_no (max_file_count c) start (length chunks - length ffs + j))) = Some (Reg (ffs ! j))) \<and>
     read_files lz4_block max_size tid ffs [] =
       (map (trace_entry_of tid) (concat (drop (length chunks - length ffs) chunks)), None, st')"
proof -
  have "holds h c md (view md y)" using process.reach_inv [OF assms(4)] assms(1-3,5) by (simp add: sys_inv_def)
  from holds_read_back [OF this _ _ assms(8-10)] assms(6,7,11) show ?thesis by (simp add: view_def)
qed

theorem process_read_back_witness:
  "\<exists>y chunks start ffs st'. sample_reach y \<and>
     log_of 2 (y_trace y) = [\<lparr>l_type = COLDTRACE_ALLOC, l_ptr = 0x5000, l_fields = [16, 0, 0x401000], l_stack = []\<rparr>] \<and>
     log_of 2 (y_trace y) = concat chunks \<and> length ffs = min (length chunks) (unat (max_file_count sample_trace_config)) \<and>
     (\<forall>j<length ffs. node_at (y_os y) (own_name sample_host sample_trace_config 2
        (fragment_no (max_file_count sample_trace_config) start (length chunks - length ffs + j))) = Some (Reg (ffs ! j))) \<and>
     read_files lz4_decompress 0x7E000000 2 ffs [] =
       (map (trace_entry_of 2) (concat (drop (length chunks - length ffs) chunks)), None, st')"
proof -
  have dec: "\<forall>blk n out. lz4_decompress blk n = Some out \<longrightarrow> lz4_decompress blk n = Some out" by simp
  obtain y where y: "sample_reach y" "w_buffer (t_writer (y_threads y 2)) = None" "\<not> w_failed (t_writer (y_threads y 2))"
      "log_of 2 (y_trace y) = [\<lparr>l_type = COLDTRACE_ALLOC, l_ptr = 0x5000, l_fields = [16, 0, 0x401000], l_stack = []\<rparr>]"
    by (rule sample_end)
  have z: "\<forall>i\<in>set (log_of 2 (y_trace y)). \<not> zero_free i" using y(4) by (simp add: zero_free_def kind_simps)
  have "2 \<in> {1, 2 :: u64}" by simp
  from process_read_back [OF sample_usable sample_vsync sample_ids y(1) this y(2,3) dec sample_version z, of 2] y(1,4)
  show ?thesis by blast
qed

text \<open>
  C6: The lock of an area excludes other threads.  While a thread is between the two subscribers of an
  atomic access, the first subscriber of an access to the same area does not return in any thread, and no
  other thread is between the two subscribers of such an access.
\<close>

theorem area_exclusive:
  assumes "usable c" "vsync_ok h" "distinct_ids h T" "reach (sys_init c) (sys_step h c T) y"
    and "y_pending y md = Some a" "get_area b = get_area a"
  shows "FETCH_STACK_ACQ h b (view md' y) = Inl No_Progress \<and> (y_pending y md' = Some b \<longrightarrow> md' = md)"
proof -
  have inv: "lock_inv T (g_areas (y_globals y)) (y_pending y)"
    using process.reach_inv [OF assms(4)] assms(1-3) by (simp add: sys_inv_def)
  have "h_acquire h (a_lock (g_areas (y_globals y) ! get_area b)) = None"
    using lock_invD(3) [OF inv assms(5)] assms(2,6) by (simp add: vsync_ok_def)
  then show ?thesis
    using lock_invD(5) [OF inv _ assms(5)] assms(6) by (auto simp: FETCH_STACK_ACQ_def view_def Let_def)
qed

theorem area_exclusive_witness:
  "sample_reach sample_waiting \<and> y_pending sample_waiting 2 = Some 0x5000 \<and>
   FETCH_STACK_ACQ sample_host 0x7000 (view 1 sample_waiting) = Inl No_Progress"
proof -
  have "get_area 0x7000 = get_area 0x5000" by (simp add: get_area_def AREA_SHIFT_def AREAS_def unat_mod)
  from area_exclusive [OF sample_usable sample_vsync sample_ids sample_waiting_reach sample_waiting_view(2) this, of 1]
  show ?thesis using sample_waiting_reach sample_waiting_view(2) by simp
qed



text \<open>
  C8: Indices are unique in the process.  No two entries of any threads carry the same allocation index,
  and no two entries other than thread creations carry the same atomic index.
\<close>

theorem indices_unique:
  assumes "usable c" "vsync_ok h" "distinct_ids h T" "reach (sys_init c) (sys_step h c T) y" "y_steps y < 2 ^ 64"
  shows "distinct (indices log_alloc_index (map snd (y_trace y))) \<and> distinct (indices log_atomic_index (map snd (y_trace y)))"
  using process.reach_inv [OF assms(4)] assms(1-3,5) by (simp add: sys_inv_def index_inv_def fresh_below_def)

theorem indices_unique_witness:
  "\<exists>y. sample_reach y \<and> indices log_atomic_index (map snd (y_trace y)) = [0, 1] \<and>
     distinct (indices log_alloc_index (map snd (y_trace y))) \<and> distinct (indices log_atomic_index (map snd (y_trace y)))"
proof -
  obtain y where y: "sample_reach y" "y_steps y = 2" "indices log_atomic_index (map snd (y_trace y)) = [0, 1]"
    by (rule sample_rmw_system) (simp add: List.map_filter_def index_simps)
  have "y_steps y < 2 ^ 64" using y(2) by simp
  from indices_unique [OF sample_usable sample_vsync sample_ids y(1) this] y(1,3) show ?thesis by blast
qed

text \<open>
  C7: No thread is stuck but behind the holder of an area.  In every reachable state of the process a
  subscriber returns, or it is the first one of an atomic access to an area that another thread holds; the
  subscriber with which that thread gives the area back then returns.
\<close>

theorem process_progress:
  assumes "usable c" "vsync_ok h" "distinct_ids h T" "reach (sys_init c) (sys_step h c T) y"
    and "md \<in> T" "subscriber h c md ph f" "paired ph (y_pending y md)" "\<forall>d\<in>T. ready h c (view d y)"
    and "ph = Start \<longrightarrow> unused (y_threads y md) (log_of md (y_trace y))" "ph = Frame \<longrightarrow> growable (y_threads y md)"
  shows "(\<exists>x. f (view md y) = Inr x) \<or>
     (\<exists>a d b. ph = Acquire a \<and> d \<in> T \<and> d \<noteq> md \<and> y_pending y d = Some b \<and> get_area b = get_area a \<and>
        (\<forall>r. subscriber h c d (Release b) r \<longrightarrow> (\<exists>x. r (view d y) = Inr x)))"
proof -
  have inv: "sys_inv h c T y" using process.reach_inv [OF assms(4)] assms(1-3) by blast
  have H: "holds h c d (view d y)" "ready h c (view d y)" if "d \<in> T" for d using inv assms(8) that by (simp_all add: sys_inv_def)
  have lk: "lock_inv T (g_areas (y_globals y)) (y_pending y)" using inv by (simp add: sys_inv_def)
  have run: "\<exists>x. g (view d y) = Inr x"
    if "d \<in> T" "subscriber h c d p g" "p = Start \<longrightarrow> unused (y_threads y d) (log_of d (y_trace y))"
       "p = Frame \<longrightarrow> growable (y_threads y d)" "\<forall>a. p = Acquire a \<longrightarrow> \<not> a_lock (g_areas (y_globals y) ! get_area a)" for d p g
  proof (rule subscriber_total [OF assms(1) H [OF that(1)] that(2)])
    show "\<forall>a. p = Acquire a \<longrightarrow> h_acquire h (a_lock (g_areas (x_globals (view d y)) ! get_area a)) \<noteq> None"
      using that(5) assms(2) by (auto simp: view_def vsync_ok_def)
  qed (use that(3,4) in \<open>simp_all add: view_def\<close>)
  show ?thesis
  proof (cases "\<exists>a. ph = Acquire a \<and> a_lock (g_areas (y_globals y) ! get_area a)")
    case False
    then show ?thesis using run [OF assms(5,6,9,10)] by blast
  next
    case True
    then obtain a where a: "ph = Acquire a" "a_lock (g_areas (y_globals y) ! get_area a)" by blast
    obtain d b where d: "y_pending y d = Some b" "get_area b = get_area a" using lock_invD(4) [OF lk _ a(2)] by auto
    moreover have "d \<in> T" "d \<noteq> md" using lock_invD(2) [OF lk d(1)] d(1) a(1) assms(7) by auto
    ultimately show ?thesis using a(1) run [of d "Release b"] by blast
  qed
qed

theorem process_progress_witness:
  "\<exists>d b. d \<in> {1, 2} \<and> d \<noteq> 1 \<and> y_pending sample_waiting d = Some b \<and> get_area b = get_area 0x7000 \<and>
     (\<forall>r. subscriber sample_host sample_trace_config d (Release b) r \<longrightarrow> (\<exists>x. r (view d sample_waiting) = Inr x))"
proof -
  let ?h = sample_host and ?c = sample_trace_config
  have area: "get_area 0x7000 = 64" by (simp add: get_area_def AREA_SHIFT_def AREAS_def unat_mod)
  have rd: "\<forall>d\<in>{1, 2}. ready ?h ?c (view d sample_waiting)"
    by (auto intro!: sample_ready simp: view_def sample_waiting_def commit_def sample_locked_def sample_ctx_def sample_os_def)
  have sub: "subscriber ?h ?c 1 (Acquire 0x7000) (before_ma_aread ?h ?c 1 0x7000)" by (rule subscriber.intros)
  have "\<not> (\<exists>x. before_ma_aread ?h ?c 1 0x7000 (view 1 sample_waiting) = Inr x)"
    by (simp add: before_ma_aread_def FETCH_STACK_ACQ_def area view_def sample_waiting_def commit_def sample_locked_def sample_area
          initial_globals_def AREAS_def sample_host_def Let_def)
  with process_progress [OF sample_usable sample_vsync sample_ids sample_waiting_reach _ sub _ rd] sample_waiting_view(3)
  show ?thesis by auto
qed

end
