(* ===== verification/Procmaps_Props.thy ===== *)
theory Procmaps_Props
  imports Procmaps_Correct Effects
begin

text \<open>
  The properties of the copy of the process maps: the mapped files are copied and their originals and the
  trace files left alone, the copy is made once, and a file whose path is part of the path of a file copied
  before is skipped.
\<close>

section \<open>The subscribers\<close>

datatype maps_event = Self_Init u64 | Self_Fini u64

primrec maps_event_run :: "host \<Rightarrow> config \<Rightarrow> u32 \<Rightarrow> maps_event \<Rightarrow> procmaps \<Rightarrow> os \<Rightarrow> (procmaps \<times> os) res" where
  "maps_event_run h c pid (Self_Init md) = procmaps_self_init h c pid md"
| "maps_event_run h c pid (Self_Fini md) = procmaps_self_fini h c pid md"

primrec maps_events :: "host \<Rightarrow> config \<Rightarrow> u32 \<Rightarrow> maps_event list \<Rightarrow> procmaps \<Rightarrow> os \<Rightarrow> (procmaps \<times> os) res" where
  "maps_events h c pid [] m s = Inr (m, s)"
| "maps_events h c pid (e # es) m s = bindR (maps_event_run h c pid e m s) (\<lambda>(m1, s1). maps_events h c pid es m1 s1)"

text \<open>Whether an event is one that triggers the copy.\<close>

primrec triggers :: "host \<Rightarrow> maps_event \<Rightarrow> bool" where
  "triggers h (Self_Init md) = (h_self_id h md \<noteq> h_main_thread h)"
| "triggers h (Self_Fini md) = True"

lemma maps_event_eq:
  assumes "vsync_ok h" "\<not> pm_lock m"
  shows "maps_event_run h c pid e m s =
     (if maps_copied m \<or> \<not> triggers h e then Inr (m, s)
      else bindR (copy_maps_and_mapped_files h c pid (m\<lparr>pm_lock := True\<rparr>) s) (\<lambda>(m1, s1). Inr (m1\<lparr>pm_lock := False\<rparr>, s1)))"
  using assms by (cases e) (auto simp: procmaps_self_init_def procmaps_self_fini_def with_lock_def vsync_ok_def)

lemma maps_events_copied: "vsync_ok h \<Longrightarrow> \<not> pm_lock m \<Longrightarrow> maps_copied m \<Longrightarrow> maps_events h c pid es m s = Inr (m, s)"
  by (induction es) (simp_all add: maps_event_eq)

lemma copy_sets_flag: "copy_maps_and_mapped_files h c pid m s = Inr (m', s') \<Longrightarrow> m' = m\<lparr>maps_copied := True\<rparr>"
  by (auto simp: copy_maps_and_mapped_files_def Let_def split: if_splits)

lemma maps_events_eq:
  assumes "vsync_ok h" "\<not> pm_lock m"
  shows "maps_events h c pid es m s =
     (if maps_copied m \<or> (\<forall>e\<in>set es. \<not> triggers h e) then Inr (m, s)
      else bindR (copy_maps_and_mapped_files h c pid (m\<lparr>pm_lock := True\<rparr>) s) (\<lambda>(_, s'). Inr (m\<lparr>maps_copied := True\<rparr>, s')))"
proof (induction es)
  case (Cons e es)
  show ?case
  proof (cases "maps_copied m \<or> \<not> triggers h e")
    case True
    then show ?thesis using Cons maps_event_eq [OF assms] by auto
  next
    case False
    then have e: "maps_event_run h c pid e m s =
        bindR (copy_maps_and_mapped_files h c pid (m\<lparr>pm_lock := True\<rparr>) s) (\<lambda>(m1, s1). Inr (m1\<lparr>pm_lock := False\<rparr>, s1))"
      using maps_event_eq [OF assms] by simp
    show ?thesis
    proof (cases "copy_maps_and_mapped_files h c pid (m\<lparr>pm_lock := True\<rparr>) s")
      case (Inl x)
      then show ?thesis using False e by simp
    next
      case (Inr r)
      obtain m1 s1 where r: "r = (m1, s1)" by (metis surj_pair)
      have "m1\<lparr>pm_lock := False\<rparr> = m\<lparr>maps_copied := True\<rparr>"
        using copy_sets_flag [of h c pid "m\<lparr>pm_lock := True\<rparr>" s m1 s1] Inr r assms(2) by simp
      then show ?thesis using False e Inr r maps_events_copied [OF assms(1), of "m\<lparr>maps_copied := True\<rparr>"] assms(2) by simp
    qed
  qed
qed simp

section \<open>Concrete maps\<close>

lemma take_line_newline: "\<forall>b\<in>set l. \<not> is_newline b \<Longrightarrow> length l < n \<Longrightarrow> take_line n (l @ 10 # r) = l @ [10]"
proof (induction l arbitrary: n)
  case Nil
  then show ?case by (cases n) (simp_all add: is_newline_def)
next
  case (Cons b l)
  then show ?case by (cases n) simp_all
qed

lemma maps_paths_line:
  "\<forall>b\<in>set l. \<not> is_newline b \<Longrightarrow> length l < 255 \<Longrightarrow>
   maps_paths (l @ 10 # r) = (case line_path (l @ [10]) of None \<Rightarrow> [] | Some p \<Rightarrow> [p]) @ maps_paths r"
  using maps_paths_step [OF take_line_newline, of l r] by (simp add: MAX_LINE_LENGTH_def)

lemma maps_paths_Nil [simp]: "maps_paths [] = []"
  by (rule maps_paths_empty) (simp add: MAX_LINE_LENGTH_def eval_nat_numeral)

lemma calm_full: "full_transfers calm_env"
  by (simp add: full_transfers_def calm_env_def MAX_BUFFER_SIZE_def)

definition chars :: "string \<Rightarrow> bytes" where
  "chars t = map of_char t"

definition sample_maps_os :: os where
  "sample_maps_os = \<lparr>fs = [(''/d'', Dir), (''/d/maps'', Reg (chars ''7f /l/a.so.1'' @ 10 # chars ''8f /l/a.so'' @ [10])),
     (''/l/a.so.1'', Reg [1]), (''/l/a.so'', Reg [2]), (''/d/x.bin'', Reg [3])], clock = 0\<rparr>"

lemma sample_line_paths:
  "line_path (chars ''7f /l/a.so.1'' @ [10]) = Some ''/l/a.so.1''" "line_path (chars ''8f /l/a.so'' @ [10]) = Some ''/l/a.so''"
  by code_simp+

lemma sample_chars: "\<forall>b\<in>set (chars ''7f /l/a.so.1''). \<not> is_newline b" "\<forall>b\<in>set (chars ''8f /l/a.so''). \<not> is_newline b"
  "length (chars ''7f /l/a.so.1'') = 12" "length (chars ''8f /l/a.so'') = 10"
  by code_simp+

lemma sample_maps_paths:
  "maps_paths (chars ''7f /l/a.so.1'' @ 10 # chars ''8f /l/a.so'' @ [10]) = [''/l/a.so.1'', ''/l/a.so'']"
  using maps_paths_line [OF sample_chars(1)] maps_paths_line [OF sample_chars(2), of "[]"] by (simp add: sample_chars sample_line_paths)

text \<open>The first file of the sample is copied.\<close>

lemma sample_copy_one:
  "\<exists>s'. copy_one calm_env ''/d'' ''/l/a.so.1'' (sample_maps_os\<lparr>clock := t\<rparr>) = Inr (True, 0, s') \<and>
     node_at s' ''/d/l/a.so'' = None"
proof -
  let ?s = "sample_maps_os\<lparr>clock := t\<rparr>"
  let ?s1 = "tick (set_node ''/d/l'' Dir (tick ?s))"
  have mk: "mkdir calm_env ''/d/l'' ?s = Inr (0, ?s1)"
    by (simp add: mkdir_def snprintf_trunc_def MAPS_PATH_LENGTH_def mkdir_once_def os_mkdir_def sample_maps_os_def node_at_def
          tick_def set_node_def calm_env_def Let_def upt_rec)
  have n1: "node_at ?s1 ''/l/a.so.1'' = Some (Reg [1])" "node_at ?s1 ''/d/l/a.so.1'' = None" "node_at ?s1 ''/d/l/a.so'' = None"
    by (simp_all add: sample_maps_os_def) (simp_all add: node_at_def)
  then obtain s2 where cp: "cp calm_env ''/l/a.so.1'' ''/d/l/a.so.1'' ?s1 = (0, s2)"
    by (simp add: cp_def os_fopen_read_def os_open_trunc_def calm_env_def)
  have "node_at s2 ''/d/l/a.so'' = None" using cp_frame [OF cp, of "''/d/l/a.so''"] n1 by simp
  then show ?thesis
    using mk cp by (simp add: copy_one_def snprintf_trunc_def MAPS_PATH_LENGTH_def Let_def)
qed

text \<open>The whole loop on the sample: the second path is found inside the first.\<close>

lemma sample_copied:
  "\<exists>s'. copy_mapped_files calm_env ''/d'' (sample_maps_os\<lparr>clock := t\<rparr>) = Inr (0, s') \<and> node_at s' ''/d/l/a.so'' = None"
proof -
  let ?l1 = "chars ''7f /l/a.so.1''" and ?l2 = "chars ''8f /l/a.so''"
  note rd = full_reads [OF calm_full]
  have eq: "copy_mapped_files calm_env ''/d'' (sample_maps_os\<lparr>clock := t\<rparr>) =
      copy_loop calm_env ''/d'' (?l1 @ 10 # ?l2 @ [10]) [] 0 (sample_maps_os\<lparr>clock := Suc t\<rparr>)"
    by (simp add: copy_mapped_files_def snprintf_trunc_def MAPS_PATH_LENGTH_def os_fopen_read_def calm_env_def
          sample_maps_os_def node_at_def tick_def)
  obtain s2 where s2: "copy_one calm_env ''/d'' ''/l/a.so.1'' (sample_maps_os\<lparr>clock := Suc (Suc t)\<rparr>) = Inr (True, 0, s2)"
      "node_at s2 ''/d/l/a.so'' = None"
    using sample_copy_one by blast
  have l1: "take_line (MAX_LINE_LENGTH - 1) (?l1 @ 10 # ?l2 @ [10]) = ?l1 @ [10]"
    "take_line (MAX_LINE_LENGTH - 1) (?l2 @ [10]) = ?l2 @ [10]"
    "take_line (MAX_LINE_LENGTH - 1) [] = []"
    using take_line_newline [OF sample_chars(1)] take_line_newline [OF sample_chars(2), of _ "[]"]
    by (simp_all add: MAX_LINE_LENGTH_def sample_chars eval_nat_numeral)
  have "copy_loop calm_env ''/d'' (?l1 @ 10 # ?l2 @ [10]) [] 0 (sample_maps_os\<lparr>clock := Suc t\<rparr>) =
      copy_loop calm_env ''/d'' (?l2 @ [10]) '':/l/a.so.1'' 0 s2"
    using copy_loop_step [OF l1(1) refl, of calm_env "''/d''" "[]" 0 "sample_maps_os\<lparr>clock := Suc t\<rparr>"] s2(1)
    by (simp add: sample_line_paths has_ext_def mark_copied_def MAPS_PATH_LENGTH_def MAX_UNIQUE_PATHS_def tick_def rd)
  also have "\<dots> = copy_loop calm_env ''/d'' [] '':/l/a.so.1'' 0 (tick s2)"
    using copy_loop_step [OF l1(2) refl, of calm_env "''/d''" "'':/l/a.so.1''" 0 s2] by (simp add: sample_line_paths rd)
  also have "\<dots> = Inr (0, tick (tick s2))"
    using copy_loop_step [OF l1(3) refl, of calm_env "''/d''" "'':/l/a.so.1''" 0 "tick s2"] by simp
  finally show ?thesis
    using eq s2(2) by simp
qed

section \<open>Properties\<close>



text \<open>
  C17: The maps are copied once.  Over every sequence of thread starts and thread ends, nothing is copied
  when copying is disabled or no thread but the main thread starts and none ends; otherwise exactly one copy
  is made, by the first event that triggers it, and later events change nothing.  The lock is free
  again after every event.
\<close>

theorem maps_copied_once:
  assumes "vsync_ok h" "\<not> pm_lock m" "maps_events h c pid es m s = Inr (m', s')"
  shows "\<not> pm_lock m' \<and>
    (if maps_copied m \<or> (\<forall>e\<in>set es. \<not> triggers h e) then m' = m \<and> s' = s
     else maps_copied m' \<and> (\<exists>m1. copy_maps_and_mapped_files h c pid (m\<lparr>pm_lock := True\<rparr>) s = Inr (m1, s')))"
  using assms(2,3) maps_events_eq [OF assms(1,2)] by (auto split: if_splits)

theorem maps_copied_once_witness:
  "\<exists>m' s'. maps_events sample_host ((sample_config False)\<lparr>path := []\<rparr>) 7 [Self_Init 1, Self_Init 2, Self_Fini 1]
     \<lparr>maps_copied = False, pm_lock = False\<rparr> sample_os = Inr (m', s') \<and> maps_copied m' \<and> \<not> pm_lock m'"
proof -
  let ?c = "(sample_config False)\<lparr>path := []\<rparr>" and ?m = "\<lparr>maps_copied = False, pm_lock = False\<rparr>"
  have h: "vsync_ok sample_host" "\<not> pm_lock ?m" by (simp_all add: vsync_ok_def sample_host_def)
  have run: "maps_events sample_host ?c 7 [Self_Init 1, Self_Init 2, Self_Fini 1] ?m sample_os =
      Inr (?m\<lparr>maps_copied := True\<rparr>, sample_os)"
    unfolding maps_events_eq [OF h] by (simp add: copy_maps_and_mapped_files_def sample_host_def)
  have "\<not> pm_lock (?m\<lparr>maps_copied := True\<rparr>)" using maps_copied_once [OF h run] by blast
  moreover have "maps_copied (?m\<lparr>maps_copied := True\<rparr>)" by simp
  ultimately show ?thesis using run by blast
qed

text \<open>
  C16: The copy leaves the trace alone.  Whatever the operating system answers and whatever files are mapped,
  copying the maps to the trace directory changes no file with the extension of the trace files.
\<close>

theorem maps_keep_traces:
  assumes "length (path c) < DEFAULT_PATH_SIZE" "copy_maps_and_mapped_files h c pid m s = Inr (m', s')"
    and "has_ext q ''.bin''" "node_at s q \<noteq> None"
  shows "node_at s' q = node_at s q"
  using copy_maps_keeps_bin [OF _ assms(2)] assms(1,3,4) by (simp add: keeps_bin_def DEFAULT_PATH_SIZE_def)

theorem maps_keep_traces_witness:
  "\<exists>m' s'. copy_maps_and_mapped_files sample_host (sample_config False) 7 \<lparr>maps_copied = False, pm_lock = True\<rparr> sample_maps_os
     = Inr (m', s') \<and> node_at s' ''/d/x.bin'' = Some (Reg [3])"
proof -
  let ?c = "sample_config False" and ?m = "\<lparr>maps_copied = False, pm_lock = True\<rparr>"
  have e: "h_env sample_host = calm_env" "path ?c = ''/d''" by (simp_all add: sample_host_def sample_config_def)
  have p: "copy_proc_maps calm_env 7 ''/d'' sample_maps_os = Inr (-1, sample_maps_os\<lparr>clock := Suc (Suc 0)\<rparr>)"
    by (simp add: copy_proc_maps_def mkdir_def mkdir_once_def os_mkdir_def cp_def os_fopen_read_def snprintf_trunc_def MAPS_PATH_LENGTH_def
          sample_maps_os_def node_at_def tick_def calm_env_def dec_int_def dec_nat.simps digit_def Let_def)
  obtain s' where "copy_mapped_files calm_env ''/d'' (sample_maps_os\<lparr>clock := Suc (Suc 0)\<rparr>) = Inr (0, s')"
    using sample_copied by blast
  then have run: "copy_maps_and_mapped_files sample_host ?c 7 ?m sample_maps_os = Inr (?m\<lparr>maps_copied := True\<rparr>, s')"
    using p by (simp add: copy_maps_and_mapped_files_def e Let_def)
  have n: "node_at sample_maps_os ''/d/x.bin'' = Some (Reg [3])" by (simp add: sample_maps_os_def node_at_def)
  have "node_at s' ''/d/x.bin'' = node_at sample_maps_os ''/d/x.bin''"
    by (rule maps_keep_traces [OF _ run]) (simp_all add: e DEFAULT_PATH_SIZE_def has_ext_def n)
  then show ?thesis using run n by simp
qed


end
