(* ===== verification/Thread_Props.thy ===== *)
theory Thread_Props
  imports Thread_Correct
begin

text \<open>
  The properties of the per-thread state: the shadow call stack.
\<close>

text \<open>
  C5: The shadow stack is a stack.  Over every sequence of function entries and exits the frames in the
  thread's array, grown by doubling, are those of a plain list on which entering pushes and leaving
  pops, and the recorded bottom never passes the top, as long as growing the array succeeds.
\<close>

theorem shadow_stack_refines:
  assumes "run_ops (stack_op_step h md) ops (th, s) (th', s')" "stack_ok th"
  shows "stack_ok th' \<and> call_stack th' = fold apply_op ops (call_stack th)"
  using shadow.run_refines [OF assms(1)] assms(2) by simp

lemma sample_push:
  "\<exists>th s. stack_op_step sample_host 1 (Enter 0x401000) (zero_thread, sample_os) (th, s)"
proof -
  have z: "stack_ok zero_thread" "growable zero_thread" by (simp_all add: stack_ok_def growable_def zero_thread_def)
  obtain th s where run: "coldtrace_thread_stack_push sample_host 1 0x401000 zero_thread sample_os = Inr (th, s)"
    using push_returns [OF z] by (metis surj_pair)
  have "\<not> t_failed th"
    using run by (auto simp: coldtrace_thread_stack_push_def get_coldtrace_thread_def grow_stack_def os_realloc_words_def
        zero_thread_def sample_host_def calm_env_def INITIAL_STACK_CAPACITY_def Let_def)
  then show ?thesis using run z by auto
qed

theorem shadow_stack_refines_witness:
  "\<exists>th s. run_ops (stack_op_step sample_host 1) [Enter 0x401000, Leave] (zero_thread, sample_os) (th, s) \<and>
     stack_ok th \<and> call_stack th = []"
proof -
  obtain th1 s1 where 1: "stack_op_step sample_host 1 (Enter 0x401000) (zero_thread, sample_os) (th1, s1)"
    using sample_push by blast
  have 2: "stack_op_step sample_host 1 Leave (th1, s1) (coldtrace_thread_stack_pop sample_host 1 th1, s1)" using 1 by simp
  have run: "run_ops (stack_op_step sample_host 1) [Enter 0x401000, Leave] (zero_thread, sample_os)
      (coldtrace_thread_stack_pop sample_host 1 th1, s1)"
    using 1 2 by (blast intro: run_ops.intros)
  have "stack_ok zero_thread" "call_stack zero_thread = []" by (simp_all add: stack_ok_def zero_thread_def call_stack_def)
  with shadow_stack_refines [OF run] run show ?thesis by auto
qed

end
