(* ===== verification/Dump.thy ===== *)
theory Dump
  imports Reader Utils "HOL-Library.Char_ord" "HOL-Library.List_Lexorder" "HOL-Library.Product_Lexorder"
begin

text \<open>
  The program around the reader, \<open>scripts/trace_dump.py\<close>: the search for the files of a thread, the text
  of an entry, \<open>dump_trace\<close> and \<open>main\<close> behind the parsing of the command line.

  File names are strings of bytes, so a digit is an ASCII digit.  An exception is a value of
  \<open>dump_exn\<close>; the text it carries is left out, as is the debug output.  The result of a run is what it
  writes to the standard output with its value or exception.
\<close>

section \<open>Paths\<close>

text \<open>
  Of \<open>pathlib\<close>: an absolute path is the list of its components, without empty ones and dots; as a string
  every component follows a slash, and the root directory is the empty string.
\<close>

fun split_slash :: "string \<Rightarrow> string list" where
  "split_slash [] = [[]]"
| "split_slash (c # cs) =
     (if c = CHR ''/'' then [] # split_slash cs
      else case split_slash cs of [] \<Rightarrow> [[c]] | w # ws \<Rightarrow> (c # w) # ws)"

definition path_parts :: "string \<Rightarrow> string list" where
  "path_parts p = filter (\<lambda>w. w \<noteq> [] \<and> w \<noteq> ''.'') (split_slash p)"

definition path_string :: "string list \<Rightarrow> string" where
  "path_string ws = concat (map (\<lambda>w. CHR ''/'' # w) ws)"

definition absolute_parts :: "string \<Rightarrow> string \<Rightarrow> string list" where
  "absolute_parts cwd p = (if starts_with ''/'' p then path_parts p else path_parts cwd @ path_parts p)"

section \<open>The files of a thread\<close>

datatype dump_exn = Trace_Error dump_error | Invalid_Filename | No_Trace_File | Cannot_Read | Os_Error | Value_Error | Type_Error

text \<open>
  The full match of \<open>TRACE_FILE_PATTERN\<close>: the numbers of the thread and of the fragment.  No digit is an
  underscore or a dot, so the groups are the longest runs of digits.
\<close>

definition trace_file_match :: "string \<Rightarrow> (nat \<times> nat) option" where
  "trace_file_match name =
     (if \<not> starts_with ''freezer_log_'' name then None
      else
        let rest = drop (length ''freezer_log_'') name;
            tid = takeWhile is_digit rest;
            rest1 = dropWhile is_digit rest
        in if tid = [] \<or> \<not> starts_with ''_'' rest1 then None
           else
             let fragment = takeWhile is_digit (drop 1 rest1)
             in if fragment = [] \<or> dropWhile is_digit (drop 1 rest1) \<noteq> ''.bin'' then None
                else Some (digits_value 0 tid, digits_value 0 fragment))"

text \<open>\<open>Path.iterdir\<close> and \<open>Path.read_bytes\<close>.\<close>

definition os_iterdir :: "os_env \<Rightarrow> string \<Rightarrow> os \<Rightarrow> string list option \<times> os" where
  "os_iterdir env p s =
     (case os_opendir env p s of
        (None, s') \<Rightarrow> (None, s')
      | (Some names, s') \<Rightarrow> (Some (filter (\<lambda>n. n \<noteq> ''.'' \<and> n \<noteq> ''..'') names), s'))"

definition os_read_bytes :: "os_env \<Rightarrow> string \<Rightarrow> os \<Rightarrow> bytes option \<times> os" where
  "os_read_bytes env p s =
     ((if ev_open_err env (clock s) then None
       else case node_at s p of Some (Reg bs) \<Rightarrow> Some bs | _ \<Rightarrow> None), tick s)"

text \<open>The loop over the directory, with the fragments found so far.\<close>

fun collect_fragments :: "os \<Rightarrow> string \<Rightarrow> nat \<Rightarrow> string list \<Rightarrow> (nat \<times> string) list \<Rightarrow> (nat \<times> string) list" where
  "collect_fragments s parent tid [] fragments = fragments"
| "collect_fragments s parent tid (candidate # rest) fragments =
     (case trace_file_match candidate of
        None \<Rightarrow> collect_fragments s parent tid rest fragments
      | Some (candidate_tid, fragment) \<Rightarrow>
          if \<not> is_reg (node_at s (parent @ ''/'' @ candidate)) then collect_fragments s parent tid rest fragments
          else if candidate_tid \<noteq> tid then collect_fragments s parent tid rest fragments
          else collect_fragments s parent tid rest (fragments @ [(fragment, candidate)]))"

definition discover_trace_files ::
  "os_env \<Rightarrow> string \<Rightarrow> string \<Rightarrow> bool \<Rightarrow> os \<Rightarrow> (dump_exn + nat \<times> string list) \<times> os"
where
  "discover_trace_files env cwd logfile standalone s =
     (let requested = absolute_parts cwd logfile;
          name = (if requested = [] then [] else last requested);
          parent = path_string (butlast requested)
      in case trace_file_match name of
           None \<Rightarrow> (Inl Invalid_Filename, s)
         | Some (tid, _) \<Rightarrow>
             if \<not> is_reg (node_at s (path_string requested)) then (Inl No_Trace_File, s)
             else if standalone then (Inr (tid, [path_string requested]), s)
             else case os_iterdir env parent s of
               (None, s1) \<Rightarrow> (Inl Os_Error, s1)
             | (Some names, s1) \<Rightarrow>
                 (Inr (tid, map (\<lambda>(_, n). parent @ ''/'' @ n) (sort (collect_fragments s1 parent tid names []))), s1))"

text \<open>\<open>entries\<close> on paths: every file is read when its turn comes.\<close>

primrec reader_entries ::
  "os_env \<Rightarrow> (bytes \<Rightarrow> nat \<Rightarrow> bytes option) \<Rightarrow> nat \<Rightarrow> nat \<Rightarrow> string list \<Rightarrow> nat list \<Rightarrow> os \<Rightarrow> trace_entry list \<times> dump_exn option \<times> os"
where
  "reader_entries env lz4_block max_fragment_size tid [] stack s = ([], None, s)"
| "reader_entries env lz4_block max_fragment_size tid (p # ps) stack s =
     (case os_read_bytes env p s of
        (None, s1) \<Rightarrow> ([], Some Cannot_Read, s1)
      | (Some data, s1) \<Rightarrow>
          (case read_file lz4_block max_fragment_size tid data stack of
             (es, Some err, _) \<Rightarrow> (es, Some (Trace_Error err), s1)
           | (es, None, st) \<Rightarrow>
               let (es', err, s2) = reader_entries env lz4_block max_fragment_size tid ps st s1 in (es @ es', err, s2)))"

section \<open>The text of an entry\<close>

definition hex_digit :: "nat \<Rightarrow> char" where
  "hex_digit d = (if d < 10 then digit d else char_of (87 + d))"

fun hex_nat :: "nat \<Rightarrow> string" where
  "hex_nat n = (if n < 16 then [hex_digit n] else hex_nat (n div 16) @ [hex_digit (n mod 16)])"

declare hex_nat.simps [simp del]

text \<open>A replacement field for a number that may be missing: \<open>{x}\<close> prints \<open>None\<close>, \<open>{x:x}\<close> raises.\<close>

definition fmt_d :: "nat option \<Rightarrow> string" where
  "fmt_d x = (case x of None \<Rightarrow> ''None'' | Some n \<Rightarrow> dec_nat n)"

definition fmt_x :: "dump_exn \<Rightarrow> nat option \<Rightarrow> (string \<Rightarrow> dump_exn + string) \<Rightarrow> dump_exn + string" where
  "fmt_x exn x k = (case x of None \<Rightarrow> Inl exn | Some n \<Rightarrow> k (hex_nat n))"

definition STACK_TYPES :: "nat list" where "STACK_TYPES = [0] @ STACK_ALLOC_TYPES @ STACK_ACCESS_TYPES"

definition format_callers :: "trace_entry \<Rightarrow> string \<Rightarrow> string" where
  "format_callers e site =
     dec_nat (te_stack_depth e + 1) @ '': '' @ site @ '', '' @ hex_nat (te_caller_1 e) @ '', '' @ hex_nat (te_caller_2 e)"

text \<open>
  \<open>format_entry\<close>: the accesses first, then the other types with a call stack, then the rest, by the
  number of the type.
\<close>

definition format_access :: "string \<Rightarrow> trace_entry \<Rightarrow> string \<Rightarrow> dump_exn + string" where
  "format_access prefix e operation =
     fmt_x Type_Error (te_caller e) (\<lambda>site.
       Inr (prefix @ '' '' @ operation @ '' access '' @ fmt_d (te_size e) @ ''B @'' @ hex_nat (te_pointer e) @ '' ''
            @ format_callers e site))"

definition format_stack :: "string \<Rightarrow> trace_entry \<Rightarrow> dump_exn + string" where
  "format_stack prefix e =
     fmt_x Value_Error (te_caller e) (\<lambda>site.
       let pointer = hex_nat (te_pointer e);
           callers = format_callers e site;
           index = '' ['' @ fmt_d (te_alloc_index e) @ '']'';
           bytes_d = fmt_d (te_size e)
       in if te_type e = 0 then Inr (prefix @ '' Freed memory @'' @ pointer @ '' '' @ callers @ index)
          else if te_type e = 1
          then Inr (prefix @ '' Allocated '' @ bytes_d @ ''B of memory @'' @ pointer @ '' '' @ callers @ index)
          else if te_type e = 22
          then Inr (prefix @ '' mmap-ed region of '' @ bytes_d @ '' from '' @ pointer @ '' '' @ callers @ index)
          else Inr (prefix @ '' munmap-ed region of '' @ bytes_d @ '' from '' @ pointer @ '' '' @ callers @ index))"

definition format_entry :: "nat \<Rightarrow> trace_entry \<Rightarrow> dump_exn + string" where
  "format_entry ordinal e =
     (let t = te_type e;
          prefix = dec_nat ordinal @ '') '' @ dec_nat (te_tid e) @ '':'';
          pointer = hex_nat (te_pointer e);
          index = '' ['' @ fmt_d (te_atomic_index e) @ '']'';
          plain = (\<lambda>operation. Inr (prefix @ '' '' @ operation @ '' @'' @ pointer @ index))
      in if t = 2 then format_access prefix e (if te_zero_flag e then ''ZeroRead'' else ''Read'')
         else if t = 3 then format_access prefix e ''write''
         else if t \<in> set STACK_TYPES then format_stack prefix e
         else if t = 4 then Inr (prefix @ '' atomic read '' @ fmt_d (te_size e) @ ''B @'' @ pointer @ index)
         else if t = 5 then Inr (prefix @ '' atomic write '' @ fmt_d (te_size e) @ ''B @'' @ pointer @ index)
         else if t = 6 then plain ''acquire lock''
         else if t = 7 then plain ''release lock''
         else if t = 8 then plain ''thread create''
         else if t = 9 then
           fmt_x Type_Error (te_thread_stack_ptr e) (\<lambda>ptr.
             Inr (prefix @ '' thread start @'' @ pointer @ '' '' @ ptr @ '' '' @ fmt_d (te_thread_stack_size e) @ index))
         else if t = 19 then plain ''thread join''
         else if t = 20 then plain ''thread exit''
         else if t = 10 then plain ''rw_lock create''
         else if t = 11 then plain ''rw_lock destroy''
         else if t = 12 then plain ''rw_lock acq_shr''
         else if t = 13 then plain ''rw_lock acq_exc''
         else if t = 14 then plain ''rw_lock rel_shr''
         else if t = 15 then plain ''rw_lock rel_exc''
         else if t = 16 then plain ''rw_lock rel''
         else if t = 21 then Inr (prefix @ '' fence'' @ index)
         else if t = 24 then Inr (prefix @ '' test marker'')
         else if t = 17 then plain ''acquire cxa_guard''
         else if t = 18 then plain ''release cxa_guard''
         else Inl Value_Error)"

section \<open>The program\<close>

definition newline :: string where "newline = [CHR 0x0A]"

text \<open>The loop of \<open>dump_trace\<close> over the entries, with the number of entries written before.\<close>

fun write_entries :: "nat \<Rightarrow> trace_entry list \<Rightarrow> string \<times> dump_exn option \<times> nat" where
  "write_entries nentries [] = ([], None, nentries)"
| "write_entries nentries (e # es) =
     (case format_entry nentries e of
        Inl x \<Rightarrow> ([], Some x, nentries)
      | Inr line \<Rightarrow>
          let (out, x, n) = write_entries (Suc nentries) es in (line @ newline @ out, x, n))"

definition summary_line :: "nat \<Rightarrow> string" where
  "summary_line n = ''Unpacked nentries='' @ dec_nat n @ '' log-entries.'' @ newline"

definition dump_trace ::
  "os_env \<Rightarrow> (bytes \<Rightarrow> nat \<Rightarrow> bytes option) \<Rightarrow> string \<Rightarrow> string \<Rightarrow> bool \<Rightarrow> nat \<Rightarrow> os \<Rightarrow> string \<times> (dump_exn + nat)"
where
  "dump_trace env lz4_block cwd logfile standalone max_fragment_size s =
     (case discover_trace_files env cwd logfile standalone s of
        (Inl x, _) \<Rightarrow> ([], Inl x)
      | (Inr (tid, files), s1) \<Rightarrow>
          let (es, err, _) = reader_entries env lz4_block max_fragment_size tid files [] s1;
              (out, x, nentries) = write_entries 0 es
          in case x of
               Some x \<Rightarrow> (out, Inl x)
             | None \<Rightarrow> (case err of
                 Some x \<Rightarrow> (out, Inl x)
               | None \<Rightarrow> (out @ summary_line nentries, Inr nentries)))"

text \<open>\<open>main\<close> turns an \<open>OSError\<close> or a \<open>TraceDumpError\<close> into the exit code 1; other exceptions leave it.\<close>

definition caught :: "dump_exn \<Rightarrow> bool" where
  "caught x \<longleftrightarrow> (case x of Value_Error \<Rightarrow> False | Type_Error \<Rightarrow> False | _ \<Rightarrow> True)"

definition dump_main ::
  "os_env \<Rightarrow> (bytes \<Rightarrow> nat \<Rightarrow> bytes option) \<Rightarrow> string \<Rightarrow> string \<Rightarrow> bool \<Rightarrow> nat \<Rightarrow> os \<Rightarrow> string \<times> (dump_exn + int)"
where
  "dump_main env lz4_block cwd logfile standalone max_fragment_size s =
     (case dump_trace env lz4_block cwd logfile standalone max_fragment_size s of
        (out, Inr _) \<Rightarrow> (out, Inr 0)
      | (out, Inl x) \<Rightarrow> (out, if caught x then Inr 1 else Inl x))"

end
