(* ===== verification/Dump_Correct.thy ===== *)
theory Dump_Correct
  imports Dump Reader_Correct Config
begin

text \<open>
  Lemmas on the dump program: paths and file names, the files it finds for a thread, that every entry the
  reader yields can be printed, and what is printed for files that hold fragments.
\<close>

section \<open>Paths and file names\<close>

lemma split_slash_nonempty [simp]: "split_slash p \<noteq> []"
  by (cases p) (auto split: list.splits)

lemma split_slash_append: "split_slash (a @ CHR ''/'' # b) = split_slash a @ split_slash b"
  by (induction a) (auto split: list.splits simp: neq_Nil_conv)

lemma split_slash_single: "CHR ''/'' \<notin> set n \<Longrightarrow> split_slash n = [n]"
  by (induction n) auto

text \<open>The string of an absolute path as the system prints it: the root directory is the empty string.\<close>

definition absolute_path :: "string \<Rightarrow> bool" where
  "absolute_path p \<longleftrightarrow> path_string (path_parts p) = p"

definition plain_name :: "string \<Rightarrow> bool" where
  "plain_name n \<longleftrightarrow> CHR ''/'' \<notin> set n \<and> n \<noteq> [] \<and> n \<noteq> ''.'' \<and> n \<noteq> ''..''"

lemma path_parts_snoc: "plain_name n \<Longrightarrow> path_parts (p @ ''/'' @ n) = path_parts p @ [n]"
  by (simp add: path_parts_def split_slash_append split_slash_single plain_name_def)

lemma path_string_snoc: "path_string (ws @ [n]) = path_string ws @ ''/'' @ n"
  by (simp add: path_string_def)

lemma absolute_parts_file:
  assumes "absolute_path dir" "plain_name n"
  shows "absolute_parts cwd (dir @ ''/'' @ n) = path_parts dir @ [n]"
proof -
  have "starts_with ''/'' (path_string ws @ ''/'' @ n)" for ws by (cases ws) (simp_all add: path_string_def)
  from this [of "path_parts dir"] have "starts_with ''/'' (dir @ ''/'' @ n)"
    using assms(1) by (simp add: absolute_path_def)
  then show ?thesis using path_parts_snoc [OF assms(2)] by (simp add: absolute_parts_def)
qed

lemma match_plain:
  assumes "trace_file_match n = Some r"
  shows "n \<noteq> []" "n \<noteq> ''.''" "n \<noteq> ''..''"
  using assms by (auto simp: trace_file_match_def)

text \<open>The name of a fragment is recognised, with the numbers it was made from.\<close>

definition base_name :: "nat \<Rightarrow> nat \<Rightarrow> string" where
  "base_name t e = ''freezer_log_'' @ dec_nat t @ ''_'' @ dec_nat e @ ''.bin''"

lemma digits_prefix:
  assumes "\<not> is_digit c"
  shows "takeWhile is_digit (dec_nat n @ c # cs) = dec_nat n" "dropWhile is_digit (dec_nat n @ c # cs) = c # cs"
  using assms by (simp_all add: takeWhile_append2 dropWhile_append2 dec_nat_digits)

lemma match_base_name: "trace_file_match (base_name t e) = Some (t, e)"
proof -
  have d: "\<not> is_digit (CHR ''_'')" "\<not> is_digit (CHR ''.'')" by (simp_all add: is_digit_def)
  show ?thesis
    by (simp add: trace_file_match_def base_name_def digits_prefix [OF d(1)] digits_prefix [OF d(2)] digits_value_dec_nat)
qed

lemma base_name_no_slash: "CHR ''/'' \<notin> set (base_name t e)"
  using dec_nat_digits [of "CHR ''/''"] by (auto simp: base_name_def is_digit_def)

text \<open>
  The names of the tracer print their numbers as signed 32-bit numbers.  They are recognised when both are
  not negative.
\<close>

lemma dec_int_u32:
  fixes w :: u32
  shows "unat w < 2 ^ 31 \<Longrightarrow> dec_int (sint w) = dec_nat (unat w)"
    and "\<not> unat w < 2 ^ 31 \<Longrightarrow> \<exists>ds. dec_int (sint w) = CHR ''-'' # ds"
proof -
  have u: "unat w < 2 ^ 31 \<longleftrightarrow> uint w < 2 ^ 31" by (simp only: unat_eq_nat_uint nat_less_iff [OF uint_ge_0]) simp
  have s: "sint w = signed_take_bit 31 (uint w)" by (simp add: sint_uint)
  show "dec_int (sint w) = dec_nat (unat w)" if "unat w < 2 ^ 31"
  proof -
    have "- (2 ^ 31) \<le> uint w" by (rule order_trans [OF _ uint_ge_0]) simp
    then have "signed_take_bit 31 (uint w) = uint w" using that u by (intro signed_take_bit_int_eq_self) simp_all
    then show ?thesis using s by (simp add: dec_int_def)
  qed
  show "\<exists>ds. dec_int (sint w) = CHR ''-'' # ds" if "\<not> unat w < 2 ^ 31"
  proof -
    have "uint w < 4294967296" "2147483648 \<le> uint w" using uint_lt2p [of w] that u by simp_all
    then have "uint w div 2147483648 = 1" by linarith
    with \<open>uint w < 4294967296\<close> have "signed_take_bit 31 (uint w) < 0"
      by (simp add: signed_take_bit_eq_take_bit_minus bit_iff_odd take_bit_int_eq_self)
    then show ?thesis using s by (simp add: dec_int_def)
  qed
qed

definition fragment_base :: "u32 \<Rightarrow> u32 \<Rightarrow> string" where
  "fragment_base t e = ''freezer_log_'' @ dec_int (sint t) @ ''_'' @ dec_int (sint e) @ ''.bin''"

lemma fragment_name_base: "fragment_name p t e = p @ ''/'' @ fragment_base t e" "CHR ''/'' \<notin> set (fragment_base t e)"
  by (simp_all add: fragment_name_def fragment_base_def dec_int_no_slash)

lemma match_minus: "trace_file_match (''freezer_log_'' @ CHR ''-'' # s) = None"
  "trace_file_match (''freezer_log_'' @ dec_nat t @ ''_-'' @ s) = None"
proof -
  have d: "\<not> is_digit (CHR ''_'')" "\<not> is_digit (CHR ''-'')" by (simp_all add: is_digit_def)
  show "trace_file_match (''freezer_log_'' @ CHR ''-'' # s) = None"
    "trace_file_match (''freezer_log_'' @ dec_nat t @ ''_-'' @ s) = None"
    using d(2) by (simp_all add: trace_file_match_def digits_prefix [OF d(1)])
qed

lemma match_fragment_base:
  "trace_file_match (fragment_base t e) = (if unat t < 2 ^ 31 \<and> unat e < 2 ^ 31 then Some (unat t, unat e) else None)"
proof -
  consider "unat t < 2 ^ 31" "unat e < 2 ^ 31" | "\<not> unat t < 2 ^ 31" | "unat t < 2 ^ 31" "\<not> unat e < 2 ^ 31" by blast
  then show ?thesis
  proof cases
    case 1
    then have "fragment_base t e = base_name (unat t) (unat e)" by (simp add: fragment_base_def base_name_def dec_int_u32(1))
    then show ?thesis using 1 match_base_name by simp
  next
    case 2
    then obtain ds where "dec_int (sint t) = CHR ''-'' # ds" using dec_int_u32(2) by blast
    then show ?thesis using 2 match_minus(1) by (simp add: fragment_base_def)
  next
    case 3
    then obtain ds where "dec_int (sint e) = CHR ''-'' # ds" using dec_int_u32(2) by blast
    then show ?thesis using 3 match_minus(2) [of "unat t" "ds @ ''.bin''"] by (simp add: fragment_base_def dec_int_u32(1))
  qed
qed

section \<open>The files of a thread\<close>

definition listed :: "os \<Rightarrow> string \<Rightarrow> nat \<Rightarrow> string \<Rightarrow> nat \<Rightarrow> bool" where
  "listed s dir tid n k \<longleftrightarrow> CHR ''/'' \<notin> set n \<and> is_reg (node_at s (dir @ ''/'' @ n)) \<and> trace_file_match n = Some (tid, k)"

lemma collect_fragments_eq:
  "collect_fragments s dir tid names acc = acc @
     [(snd (the (trace_file_match n)), n). n \<leftarrow> names,
        is_reg (node_at s (dir @ ''/'' @ n)) \<and> (\<exists>k. trace_file_match n = Some (tid, k))]"
  by (induction names arbitrary: acc) (auto split: option.splits)

lemma distinct_filtered_map:
  "distinct xs \<Longrightarrow> inj_on f {x \<in> set xs. P x} \<Longrightarrow> distinct (concat (map (\<lambda>x. if P x then [f x] else []) xs))"
proof (induction xs)
  case (Cons x xs)
  have "inj_on f {x \<in> set xs. P x}" by (rule inj_on_subset [OF Cons.prems(2)]) auto
  moreover have "f x \<noteq> f y" if "P x" "P y" "y \<in> set xs" for y
    using that Cons.prems by (auto simp: inj_on_def)
  ultimately show ?case using Cons by auto
qed simp

lemma opendir_distinct:
  assumes "os_opendir env p s = (Some names, s')"
  shows "distinct (filter (\<lambda>n. n \<noteq> ''.'' \<and> n \<noteq> ''..'') names)"
proof -
  let ?P = "\<lambda>q. starts_with (p @ ''/'') q \<and> CHR ''/'' \<notin> set (drop (length p + 1) q)"
  let ?ns = "concat (map (\<lambda>q. if ?P q then [drop (length p + 1) q] else []) (remdups (map fst (fs s))))"
  have "inj_on (drop (length p + 1)) {q \<in> set (remdups (map fst (fs s))). ?P q}"
    by (auto simp: inj_on_def starts_with_iff)
  then have "distinct ?ns" by (intro distinct_filtered_map) simp_all
  moreover have "names = [''.'', ''..''] @ ?ns"
    using assms by (auto simp: os_opendir_def split: if_splits)
  ultimately show ?thesis by (simp add: distinct_filter)
qed

lemma discover_files:
  assumes dir: "absolute_path dir" "node_at s dir = Some Dir" and env: "\<not> ev_dir_err env (clock s)" and n: "listed s dir tid n k"
  obtains fr where
    "discover_trace_files env cwd (dir @ ''/'' @ n) False s = (Inr (tid, map (\<lambda>(_, n). dir @ ''/'' @ n) fr), tick s)"
    "sorted_wrt (<) fr" "set fr = {(k, n). listed s dir tid n k}"
proof -
  have pn: "plain_name n" using n match_plain [of n] by (auto simp: listed_def plain_name_def)
  note parts = absolute_parts_file [OF dir(1) pn]
  have str: "path_string (path_parts dir) = dir" using dir(1) by (simp add: absolute_path_def)
  obtain names where op: "os_opendir env dir s = (Some names, tick s)" using env dir(2) by (auto simp: os_opendir_def)
  let ?ns = "filter (\<lambda>n. n \<noteq> ''.'' \<and> n \<noteq> ''..'') names"
  let ?fr = "collect_fragments (tick s) dir tid ?ns []"
  have m: "n' \<in> set ?ns \<longleftrightarrow> CHR ''/'' \<notin> set n' \<and> node_at s (dir @ ''/'' @ n') \<noteq> None" if "trace_file_match n' = Some r" for n' r
    using os_opendir_names(1) [OF op, of n'] match_plain [OF that] by auto
  have st: "set ?fr = {(k, n). listed s dir tid n k}"
    using m by (fastforce simp: collect_fragments_eq listed_def is_reg_def)
  have "distinct ?fr"
    unfolding collect_fragments_eq append_Nil by (rule distinct_filtered_map [OF opendir_distinct [OF op]]) (auto simp: inj_on_def)
  then have "sorted_wrt (<) (sort ?fr)" by (simp add: strict_sorted_iff)
  moreover have "discover_trace_files env cwd (dir @ ''/'' @ n) False s = (Inr (tid, map (\<lambda>(_, n). dir @ ''/'' @ n) (sort ?fr)), tick s)"
    using n parts str by (simp add: discover_trace_files_def Let_def listed_def path_string_snoc os_iterdir_def op)
  ultimately show thesis using that [of "sort ?fr"] st by simp
qed

lemma discover_standalone:
  assumes "absolute_path dir" "listed s dir tid n k"
  shows "discover_trace_files env cwd (dir @ ''/'' @ n) True s = (Inr (tid, [dir @ ''/'' @ n]), s)"
proof -
  have pn: "plain_name n" using assms(2) match_plain [of n] by (auto simp: listed_def plain_name_def)
  show ?thesis
    using assms absolute_parts_file [OF assms(1) pn]
    by (simp add: discover_trace_files_def Let_def listed_def path_string_snoc absolute_path_def)
qed

lemma discover_unrecognised:
  assumes "absolute_path dir" "plain_name n" "trace_file_match n = None"
  shows "discover_trace_files env cwd (dir @ ''/'' @ n) alone s = (Inl Invalid_Filename, s)"
  using assms(3) absolute_parts_file [OF assms(1,2)] by (simp add: discover_trace_files_def Let_def)

section \<open>Printing\<close>

text \<open>Entries \<open>format_entry\<close> has a text for, and that every entry the reader yields is one.\<close>

definition printable :: "trace_entry \<Rightarrow> bool" where
  "printable e \<longleftrightarrow> te_type e < N_ENTRY_TYPES \<and> (te_type e \<in> set STACK_TYPES \<longrightarrow> te_caller e \<noteq> None) \<and>
     (te_type e = 9 \<longrightarrow> te_thread_stack_ptr e \<noteq> None)"

lemmas type_lists = STACK_TYPES_def STACK_ALLOC_TYPES_def STACK_ACCESS_TYPES_def ATOMIC_ACCESS_TYPES_def

lemma format_printable:
  assumes "printable e"
  shows "\<exists>line. format_entry n e = Inr line"
proof -
  have "te_type e \<in> set [0..<25]" using assms by (simp add: printable_def N_ENTRY_TYPES_def)
  then have "te_type e \<in> {0, 1, 2, 3, 4, 5, 6, 7, 8, 9, 10, 11, 12, 13, 14, 15, 16, 17, 18, 19, 20, 21, 22, 23, 24}"
    by (simp add: upt_conv_Cons eval_nat_numeral)
  then show ?thesis
    using assms by (elim insertE) (auto simp: printable_def format_entry_def format_access_def format_stack_def fmt_x_def
        type_lists Let_def)
qed

text \<open>Two lines as they are printed.\<close>

lemma format_examples:
  "format_entry 3 ((trace_entry_default 2 1 0x5000)\<lparr>te_size := Some 16, te_alloc_index := Some 0, te_caller := Some 0x401abc\<rparr>) =
     Inr ''3) 2: Allocated 16B of memory @5000 1: 401abc, 0, 0 [0]''"
  "format_entry 0 ((trace_entry_default 2 4 0x5000)\<lparr>te_size := Some 8, te_atomic_index := Some 12\<rparr>) =
     Inr ''0) 2: atomic read 8B @5000 [12]''"
  by (simp_all add: format_entry_def format_stack_def format_callers_def fmt_x_def fmt_d_def type_lists Let_def
        trace_entry_default_def hex_nat.simps dec_nat.simps hex_digit_def digit_def char_of_def bit_0)

lemma read_one_printable:
  assumes "read_one tid buf off st = Inr (Some e, off1, st')"
  shows "printable e"
  using assms
  by (auto simp: read_one_def read_entry_def read_access_def read_free_def read_alloc_def Let_def bindD_Inr
        trace_entry_default_def printable_def N_ENTRY_TYPES_def type_lists split: if_splits)

lemma read_loop_printable: "e \<in> set (fst (read_loop tid buf off st)) \<Longrightarrow> printable e"
proof (induction tid buf off st rule: read_loop.induct)
  case (1 tid buf off st)
  show ?case
  proof (cases "off < length buf")
    case True
    consider err where "read_one tid buf off st = Inl err" | off1 st1 where "read_one tid buf off st = Inr (None, off1, st1)"
      | d off1 st1 where "read_one tid buf off st = Inr (Some d, off1, st1)"
      by (cases "read_one tid buf off st") (auto, metis option.exhaust)
    then show ?thesis
    proof cases
      case (3 d off1 st1)
      then have "e = d \<or> e \<in> set (fst (read_loop tid buf off1 st1))"
        using 1(2) True by (subst (asm) (1) read_loop.simps) (auto split: prod.splits)
      then show ?thesis using 1(1) [OF True 3 refl refl refl] read_one_printable [OF 3] by blast
    qed (use 1(2) True in \<open>simp_all add: read_loop.simps\<close>)
  qed (use 1(2) in \<open>simp add: read_loop.simps\<close>)
qed

lemma read_file_printable:
  assumes "read_file lz4_block max_size tid data st = (es, err, st')" "e \<in> set es"
  shows "printable e"
proof (cases "decompress lz4_block max_size data")
  case (Inr buf)
  then have "e \<in> set (fst (read_loop tid buf VERSION_HEADER_size st))" using assms by (simp add: read_file_def)
  then show ?thesis by (rule read_loop_printable)
qed (use assms in \<open>simp add: read_file_def\<close>)

lemma reader_entries_printable:
  assumes "reader_entries env lz4_block max_size tid ps st s = (es, err, s')" "e \<in> set es"
  shows "printable e"
  using assms
proof (induction ps arbitrary: st s es)
  case (Cons p ps)
  obtain data s1 where rd: "os_read_bytes env p s = (data, s1)" by (cases "os_read_bytes env p s")
  show ?case
  proof (cases data)
    case (Some d)
    obtain es1 err1 st1 where f: "read_file lz4_block max_size tid d st = (es1, err1, st1)" by (cases "read_file lz4_block max_size tid d st")
    obtain es2 err2 s2 where r: "reader_entries env lz4_block max_size tid ps st1 s1 = (es2, err2, s2)"
      by (cases "reader_entries env lz4_block max_size tid ps st1 s1")
    have "e \<in> set es1 \<or> e \<in> set es2 \<and> err2 = err \<and> s2 = s'"
      using Cons.prems rd Some f r by (auto split: option.splits)
    then show ?thesis using read_file_printable [OF f] Cons.IH r by blast
  qed (use Cons.prems rd in auto)
qed simp

lemma reader_entries_caught:
  "reader_entries env lz4_block max_size tid ps st s = (es, Some x, s') \<Longrightarrow> caught x"
  by (induction ps arbitrary: st s es) (auto simp: caught_def split: prod.splits option.splits)

definition entry_line :: "nat \<times> trace_entry \<Rightarrow> string" where
  "entry_line = (\<lambda>(n, e). (case format_entry n e of Inl _ \<Rightarrow> [] | Inr line \<Rightarrow> line @ newline))"

lemma write_entries_printable:
  "\<forall>e\<in>set es. printable e \<Longrightarrow> write_entries n es = (concat (map entry_line (enumerate n es)), None, n + length es)"
proof (induction es arbitrary: n)
  case (Cons e es)
  obtain line where "format_entry n e = Inr line" using format_printable Cons.prems by (meson list.set_intros(1))
  then show ?case using Cons by (simp add: entry_line_def)
qed simp

text \<open>The output for a list of entries.\<close>

definition printed :: "trace_entry list \<Rightarrow> string" where
  "printed es = concat (map entry_line (enumerate 0 es)) @ summary_line (length es)"

lemma dump_trace_files:
  assumes "discover_trace_files env cwd logfile alone s = (Inr (tid, files), s1)"
    and r: "reader_entries env lz4_block max_size tid files [] s1 = (es, None, s2)"
  shows "dump_trace env lz4_block cwd logfile alone max_size s = (printed es, Inr (length es))"
  using assms write_entries_printable [of es 0] reader_entries_printable [OF r] by (simp add: dump_trace_def printed_def)

lemma fragment_ofI:
  "encodes [] is es st \<Longrightarrow> raw = concat (map entry_bytes es) \<Longrightarrow> lz4_decompress blk (length raw) = Some raw \<Longrightarrow>
   length raw \<le> LZ4_MAX_INPUT_SIZE \<Longrightarrow> fragment_of v is (version_header_bytes v @ u32_bytes (of_nat (length raw)) @ blk)"
  unfolding fragment_of_def by blast

context lz4_block_module
begin

lemma reader_entries_ok:
  assumes "version_supported v" "LZ4_MAX_INPUT_SIZE \<le> max_size" "\<forall>t. \<not> ev_open_err env t"
    and "\<forall>p\<in>set ps. \<exists>f. node_at s p = Some (Reg f) \<and> fragment_of v (chunk p) f" "\<forall>p\<in>set ps. \<forall>i\<in>set (chunk p). \<not> zero_free i"
  shows "\<exists>s'. reader_entries env lz4_block max_size tid ps (map unat (st :: u64 list)) s =
     (map (trace_entry_of tid) (concat (map chunk ps)), None, s')"
  using assms(4,5)
proof (induction ps arbitrary: st s)
  case (Cons p ps)
  obtain f where f: "node_at s p = Some (Reg f)" "fragment_of v (chunk p) f" using Cons.prems by auto
  obtain st1 :: "u64 list" where one: "read_file lz4_block max_size tid f (map unat st) = (map (trace_entry_of tid) (chunk p), None, map unat st1)"
    using read_file_ok [OF f(2) assms(1,2), of tid st] Cons.prems(2) by auto
  obtain s' where "reader_entries env lz4_block max_size tid ps (map unat st1) (tick s) =
      (map (trace_entry_of tid) (concat (map chunk ps)), None, s')"
    using Cons.IH [of "tick s" st1] Cons.prems by auto
  then show ?case using one f(1) assms(3) by (simp add: os_read_bytes_def)
qed simp

end

end
