(* ===== verification/Dump_Props.thy ===== *)
theory Dump_Props
  imports Dump_Correct System_Props
begin

text \<open>
  The properties of \<open>scripts/trace_dump.py\<close> as a program: it prints the fragments of a thread in the order of
  their numbers, it ends in an orderly way on every input, and it prints what the traced process logged.
\<close>

section \<open>Files of the process\<close>

text \<open>What the dump of one fragment of a thread prints, from the invariant of the thread.\<close>

lemma stored_dump:
  assumes st: "stored h c md s chunks start" and i: "i < length chunks" "length chunks \<le> i + unat (max_file_count c)"
    and dir: "absolute_path (path c)" and mod: "lz4_block_module lz4_block"
    and v: "version_supported (h_version h)" "LZ4_MAX_INPUT_SIZE \<le> max_size" and z: "\<forall>e\<in>set (chunks ! i). \<not> zero_free e"
    and env: "\<forall>t. \<not> ev_open_err env t"
  defines "t \<equiv> ucast (h_self_id h md) :: u32" and "n \<equiv> fragment_no (max_file_count c) start i"
  shows "dump_trace env lz4_block cwd (own_name h c md n) True max_size s =
     (if unat t < 2 ^ 31 \<and> unat n < 2 ^ 31
      then (printed (map (trace_entry_of (unat t)) (chunks ! i)), Inr (length (chunks ! i)))
      else ([], Inl Invalid_Filename))"
proof -
  obtain f where f: "node_at s (own_name h c md n) = Some (Reg f)" "fragment_of (h_version h) (chunks ! i) f"
    using st i by (auto simp: stored_def n_def)
  have nm: "own_name h c md n = path c @ ''/'' @ fragment_base t n" by (simp add: own_name_def t_def fragment_name_base(1))
  note m = match_fragment_base [of t n]
  show ?thesis
  proof (cases "unat t < 2 ^ 31 \<and> unat n < 2 ^ 31")
    case True
    then have "listed s (path c) (unat t) (fragment_base t n) (unat n)"
      using f(1) m fragment_name_base(2) by (simp add: listed_def nm is_reg_def)
    note d = discover_standalone [OF dir this, of env cwd, folded nm]
    obtain s' where "reader_entries env lz4_block max_size (unat t) [own_name h c md n] [] s =
        (map (trace_entry_of (unat t)) (chunks ! i), None, s')"
      using lz4_block_module.reader_entries_ok [OF mod v env, of "[own_name h c md n]" s "\<lambda>_. chunks ! i" "unat t" "[]"] f z by auto
    from dump_trace_files [OF d this] show ?thesis using True by simp
  next
    case False
    have "plain_name (fragment_base t n)" using fragment_name_base(2) by (simp add: plain_name_def fragment_base_def)
    from discover_unrecognised [OF dir this] show ?thesis using m False by (simp add: nm dump_trace_def)
  qed
qed

section \<open>A concrete directory\<close>

text \<open>Two fragments of thread 2 with one marker each, of which the directory lists the later one first.\<close>

definition sample_marker :: "u64 \<Rightarrow> logged" where
  "sample_marker p = \<lparr>l_type = COLDTRACE_TEST_MARKER, l_ptr = p, l_fields = [], l_stack = []\<rparr>"

definition sample_fragment :: "u8 \<Rightarrow> bytes" where
  "sample_fragment b = version_header_bytes (h_version sample_host) @ [8, 0, 0, 0] @ [0x80, 24, 0, b, 0, 0, 0, 0, 0]"

definition sample_dir :: os where
  "sample_dir = \<lparr>fs = [(''/d'', Dir), (''/d/freezer_log_2_10.bin'', Reg (sample_fragment 7)), (''/d/notes.txt'', Reg []),
     (''/d/freezer_log_2_9.bin'', Reg (sample_fragment 5))], clock = 0\<rparr>"

lemma sample_fragment_of:
  assumes "p = 5 \<and> b = 5 \<or> p = 7 \<and> b = 7"
  shows "fragment_of (h_version sample_host) [sample_marker p] (sample_fragment b)"
proof -
  let ?e = "entry_for (sample_marker p) undefined" and ?raw = "[24, 0, b, 0, 0, 0, 0, 0]"
  have "item_ok (sample_marker p)" "\<not> with_stack (l_type (sample_marker p))"
    by (simp_all add: sample_marker_def item_ok_def kind_simps with_stack_def Let_def entry_consts)
  then have enc: "encodes [] [sample_marker p] [?e] []" using enc_Cons [of "sample_marker p" "[]" undefined "[]" "[]" "[]"] enc_Nil by simp
  have init: "u64_bytes (coldtrace_entry_init COLDTRACE_TEST_MARKER 5) = [24, 0, 5, 0, 0, 0, 0, 0]"
    "u64_bytes (coldtrace_entry_init COLDTRACE_TEST_MARKER 7) = [24, 0, 7, 0, 0, 0, 0, 0]" by code_simp+
  have raw: "?raw = concat (map entry_bytes [?e])"
    using assms init by (auto simp: entry_bytes_make_entry sample_marker_def kind_simps with_stack_def Let_def entry_consts)
  have len: "length [24, 0, x, 0, 0, 0, 0, 0 :: u8] = 8" for x by simp
  have "lz4_decompress [0x80, 24, 0, 5, 0, 0, 0, 0, 0] 8 = Some [24, 0, 5, 0, 0, 0, 0, 0]"
    "lz4_decompress [0x80, 24, 0, 7, 0, 0, 0, 0, 0] 8 = Some [24, 0, 7, 0, 0, 0, 0, 0]" by code_simp+
  then have dec: "lz4_decompress ([0x80] @ ?raw) (length ?raw) = Some ?raw"
    using assms by (elim disjE conjE) (simp_all only: len append_Cons append_Nil)
  have "u32_bytes (of_nat 8) = [8, 0, 0, 0]" by code_simp
  then have "sample_fragment b = version_header_bytes (h_version sample_host) @ u32_bytes (of_nat (length ?raw)) @ [0x80] @ ?raw"
    by (simp only: len sample_fragment_def append_Cons append_Nil)
  moreover have "length ?raw \<le> LZ4_MAX_INPUT_SIZE" by (simp only: len) (simp add: LZ4_MAX_INPUT_SIZE_def)
  ultimately show ?thesis using fragment_ofI [OF enc raw dec] by metis
qed

lemma sample_listed:
  "listed sample_dir ''/d'' 2 n k \<longleftrightarrow> n = ''freezer_log_2_10.bin'' \<and> k = 10 \<or> n = ''freezer_log_2_9.bin'' \<and> k = 9"
proof -
  have m: "trace_file_match ''freezer_log_2_10.bin'' = Some (2, 10)" "trace_file_match ''freezer_log_2_9.bin'' = Some (2, 9)"
    "trace_file_match ''notes.txt'' = None" by code_simp+
  show ?thesis
    using m by (auto simp: listed_def node_at_def sample_dir_def is_reg_def split: if_splits)
qed

section \<open>Properties\<close>

text \<open>
  C9: From the traced process to the printed text.  Whatever the threads of the process did, after the end of
  a thread its log splits into fragments, and the dump of any of the retained fragments on its own prints
  exactly the entries of that fragment, numbered from 0, and their count.  Names print their numbers as
  signed 32-bit numbers; the dump rejects a name with a number of \<open>2 ^ 31\<close> or more.
\<close>

theorem process_dump:
  assumes "usable c" "vsync_ok h" "distinct_ids h T" "reach (sys_init c) (sys_step h c T) y" "md \<in> T"
    and "w_buffer (t_writer (y_threads y md)) = None" "\<not> w_failed (t_writer (y_threads y md))"
    and "\<forall>blk n out. lz4_decompress blk n = Some out \<longrightarrow> lz4_block blk n = Some out"
    and "version_supported (h_version h)" "LZ4_MAX_INPUT_SIZE \<le> max_size" "\<forall>i\<in>set (log_of md (y_trace y)). \<not> zero_free i"
    and "absolute_path (path c)" "\<forall>t. \<not> ev_open_err env t" "t = (ucast (h_self_id h md) :: u32)"
  shows "\<exists>chunks start. log_of md (y_trace y) = concat chunks \<and>
     (\<forall>i<length chunks. length chunks \<le> i + unat (max_file_count c) \<longrightarrow>
        (let n = fragment_no (max_file_count c) start i in
         dump_trace env lz4_block cwd (own_name h c md n) True max_size (y_os y) =
           (if unat t < 2 ^ 31 \<and> unat n < 2 ^ 31
            then (printed (map (trace_entry_of (unat t)) (chunks ! i)), Inr (length (chunks ! i)))
            else ([], Inl Invalid_Filename))))"
proof -
  have "holds h c md (view md y)" using process.reach_inv [OF assms(4)] assms(1-3,5) by (simp add: sys_inv_def)
  then obtain chunks start where ch: "log_of md (y_trace y) = concat chunks" "stored h c md (y_os y) chunks start"
    using assms(6,7) by (auto simp: holds_def trace_inv_def recorded_def view_def)
  have mod: "lz4_block_module lz4_block" using assms(8) by unfold_locales blast
  have "\<forall>e\<in>set (chunks ! i). \<not> zero_free e" if "i < length chunks" for i using assms(11) ch(1) that by auto
  with stored_dump [OF ch(2) _ _ assms(12) mod assms(9,10) _ assms(13)] ch(1) assms(14) show ?thesis
    by (intro exI [of _ chunks] exI [of _ start]) (simp add: Let_def)
qed

theorem process_dump_witness:
  "\<exists>y chunks start. sample_reach y \<and> chunks \<noteq> [] \<and>
     log_of 2 (y_trace y) = [\<lparr>l_type = COLDTRACE_ALLOC, l_ptr = 0x5000, l_fields = [16, 0, 0x401000], l_stack = []\<rparr>] \<and>
     log_of 2 (y_trace y) = concat chunks \<and>
     (\<forall>i<length chunks. length chunks \<le> i + unat (max_file_count sample_trace_config) \<longrightarrow>
        (let n = fragment_no (max_file_count sample_trace_config) start i in
         dump_trace calm_env lz4_decompress ''/'' (own_name sample_host sample_trace_config 2 n) True 0x7E000000 (y_os y) =
           (if unat (2 :: u32) < 2 ^ 31 \<and> unat n < 2 ^ 31
            then (printed (map (trace_entry_of (unat (2 :: u32))) (chunks ! i)), Inr (length (chunks ! i)))
            else ([], Inl Invalid_Filename))))"
  (is "\<exists>y chunks start. _ \<and> _ \<and> _ \<and> _ \<and> ?dumps y chunks start")
proof -
  have dec: "\<forall>blk n out. lz4_decompress blk n = Some out \<longrightarrow> lz4_decompress blk n = Some out" by simp
  obtain y where y: "sample_reach y" "w_buffer (t_writer (y_threads y 2)) = None" "\<not> w_failed (t_writer (y_threads y 2))"
      "log_of 2 (y_trace y) = [\<lparr>l_type = COLDTRACE_ALLOC, l_ptr = 0x5000, l_fields = [16, 0, 0x401000], l_stack = []\<rparr>]"
    by (rule sample_end)
  have z: "\<forall>i\<in>set (log_of 2 (y_trace y)). \<not> zero_free i" using y(4) by (simp add: zero_free_def kind_simps)
  have e: "\<forall>t. \<not> ev_open_err calm_env t" "2 \<in> {1, 2 :: u64}" "(2 :: u32) = ucast (h_self_id sample_host 2)"
    by (simp_all add: calm_env_def sample_host_def)
  have p: "absolute_path (path sample_trace_config)"
    by (simp add: absolute_path_def path_string_def path_parts_def sample_trace_config_def sample_config_def)
  from process_dump [OF sample_usable sample_vsync sample_ids y(1) e(2) y(2,3) dec sample_version z p e(1,3), of "''/''"]
  obtain chunks start where ch: "log_of 2 (y_trace y) = concat chunks" "?dumps y chunks start" by (elim exE conjE)
  have "chunks \<noteq> []" using ch(1) y(4) by auto
  with y(1,4) ch show ?thesis by (intro exI [of _ y] exI [of _ chunks] exI [of _ start] conjI)
qed

text \<open>
  C10: A dump prints every fragment of the thread in numeric order.  When every file of the directory whose
  name carries the thread's number holds a fragment, the dump of any of them prints the entries of all of
  them, in the order of the fragment numbers, whatever the order in which the directory lists its files.
\<close>

theorem dump_numeric_order:
  assumes "\<forall>blk n out. lz4_decompress blk n = Some out \<longrightarrow> lz4_block blk n = Some out"
    and "version_supported v" "LZ4_MAX_INPUT_SIZE \<le> max_size"
    and "absolute_path dir" "node_at s dir = Some Dir" "\<forall>t. \<not> ev_open_err env t" "\<not> ev_dir_err env (clock s)"
    and "\<forall>n k. listed s dir tid n k \<longrightarrow> (\<exists>f. node_at s (dir @ ''/'' @ n) = Some (Reg f) \<and> fragment_of v (chunk n) f)"
    and "\<forall>n k. listed s dir tid n k \<longrightarrow> (\<forall>i\<in>set (chunk n). \<not> zero_free i)" "listed s dir tid n k"
  shows "\<exists>fr. sorted_wrt (<) fr \<and> set fr = {(k, n). listed s dir tid n k} \<and>
     (let es = map (trace_entry_of tid) (concat (map (\<lambda>(k, n). chunk n) fr)) in
      dump_trace env lz4_block cwd (dir @ ''/'' @ n) False max_size s = (printed es, Inr (length es)))"
proof -
  have mod: "lz4_block_module lz4_block" using assms(1) by unfold_locales blast
  obtain fr where fr: "discover_trace_files env cwd (dir @ ''/'' @ n) False s = (Inr (tid, map (\<lambda>(_, n). dir @ ''/'' @ n) fr), tick s)"
      "sorted_wrt (<) fr" "set fr = {(k, n). listed s dir tid n k}"
    using discover_files [OF assms(4,5,7,10)] by blast
  let ?ps = "map (\<lambda>(_, n). dir @ ''/'' @ n) fr" and ?ch = "\<lambda>p. chunk (drop (length dir + 1) p)"
  have files: "\<exists>f. node_at (tick s) p = Some (Reg f) \<and> fragment_of v (?ch p) f" "\<forall>i\<in>set (?ch p). \<not> zero_free i"
    if mem: "p \<in> set ?ps" for p
  proof -
    obtain k' n' where "(k', n') \<in> set fr" and p: "p = dir @ ''/'' @ n'" using mem by auto
    then have l: "listed s dir tid n' k'" using fr(3) by blast
    have "?ch p = chunk n'" using p by simp
    then show "\<exists>f. node_at (tick s) p = Some (Reg f) \<and> fragment_of v (?ch p) f" "\<forall>i\<in>set (?ch p). \<not> zero_free i"
      using assms(8,9) p l by (simp_all add: exI [of _ k']) blast+
  qed
  have eq: "map ?ch ?ps = map (\<lambda>(k, n). chunk n) fr" by (rule nth_equalityI) (simp_all split: prod.splits)
  have a: "\<forall>p\<in>set ?ps. \<exists>f. node_at (tick s) p = Some (Reg f) \<and> fragment_of v (?ch p) f" by (intro ballI files(1))
  have b: "\<forall>p\<in>set ?ps. \<forall>i\<in>set (?ch p). \<not> zero_free i" by (intro ballI) (rule files(2) [THEN bspec])
  obtain s' where "reader_entries env lz4_block max_size tid ?ps (map unat ([] :: u64 list)) (tick s) =
      (map (trace_entry_of tid) (concat (map ?ch ?ps)), None, s')"
    using lz4_block_module.reader_entries_ok [OF mod assms(2,3,6) a b, of tid "[]"] by (elim exE)
  note dump_trace_files [OF fr(1) this [unfolded eq list.map(1)]]
  then show ?thesis using fr(2,3) by (intro exI [of _ fr]) (simp only: Let_def simp_thms)
qed

theorem dump_numeric_order_witness:
  "dump_trace calm_env lz4_decompress ''/'' (''/d'' @ ''/'' @ ''freezer_log_2_10.bin'') False 0x7E000000 sample_dir =
     (printed (map (trace_entry_of 2) [sample_marker 5, sample_marker 7]), Inr 2)"
proof -
  let ?chunk = "\<lambda>n. [sample_marker (if n = ''freezer_log_2_9.bin'' then 5 else 7)]"
  let ?fr = "[(9 :: nat, ''freezer_log_2_9.bin''), (10, ''freezer_log_2_10.bin'')]"
  have h: "\<forall>blk n out. lz4_decompress blk n = Some out \<longrightarrow> lz4_decompress blk n = Some out" "absolute_path ''/d''"
    "node_at sample_dir ''/d'' = Some Dir" "\<forall>t. \<not> ev_open_err calm_env t" "\<not> ev_dir_err calm_env (clock sample_dir)"
    by (simp_all add: absolute_path_def path_string_def path_parts_def sample_dir_def node_at_def calm_env_def)
  have f: "\<forall>n k. listed sample_dir ''/d'' 2 n k \<longrightarrow>
      (\<exists>f. node_at sample_dir (''/d'' @ ''/'' @ n) = Some (Reg f) \<and> fragment_of (h_version sample_host) (?chunk n) f)"
    using sample_fragment_of [of 5 5] sample_fragment_of [of 7 7] unfolding sample_listed by (auto simp: sample_dir_def node_at_def)
  have z: "\<forall>n k. listed sample_dir ''/d'' 2 n k \<longrightarrow> (\<forall>i\<in>set (?chunk n). \<not> zero_free i)"
    by (simp add: zero_free_def sample_marker_def kind_simps)
  have l: "listed sample_dir ''/d'' 2 ''freezer_log_2_10.bin'' 10" by (simp add: sample_listed)
  obtain fr where fr: "sorted_wrt (<) fr" "set fr = {(k, n). listed sample_dir ''/d'' 2 n k}"
      "let es = map (trace_entry_of 2) (concat (map (\<lambda>(k, n). ?chunk n) fr)) in
       dump_trace calm_env lz4_decompress ''/'' (''/d'' @ ''/'' @ ''freezer_log_2_10.bin'') False 0x7E000000 sample_dir = (printed es, Inr (length es))"
    using dump_numeric_order [OF h(1) sample_version h(2-5) f z l, of "''/''"] by (elim exE conjE)
  have "set fr = set ?fr" using fr(2) by (auto simp: sample_listed)
  then have "fr = ?fr" using fr(1) by (intro strict_sorted_equal) simp_all
  with fr(3) show ?thesis by (simp add: Let_def)
qed


end
